(* ===== verification/Prelude.thy ===== *)
theory Prelude
  imports Main "HOL-Library.Word" "HOL-Library.Code_Target_Nat" "HOL-Library.AList" "HOL-Library.Char_ord" "HOL-Library.List_Lexorder"
begin

text \<open>
  Shared vocabulary of the development.

  \<^item> \<open>byte strings\<close>: every \<open>std::string\<close>, \<open>std::vector<char>\<close> and socket buffer of the program is a
    HOL \<^typ>\<open>string\<close>; a \<^typ>\<open>char\<close> is one byte, so \<^const>\<open>length\<close> counts bytes as
    \<open>std::string::size\<close> does, and the order of \<^theory_text>\<open>Char_ord\<close> is the unsigned byte order of
    \<open>std::less<std::string>\<close>.
  \<^item> \<open>machine integers\<close>: \<open>int\<close> is a \<open>32 word\<close> read with \<^const>\<open>sint\<close> where its width matters,
    \<open>uint16_t\<close> a \<open>16 word\<close>, \<open>size_t\<close> a \<open>64 word\<close>. File descriptors are only compared and are
    HOL integers.
  \<^item> \<open>hash maps\<close>: \<open>std::unordered_map\<close> is an association list with distinct keys; the interface the
    program uses (find, insert, erase, size) is the locale \<open>hash_map\<close> below.
\<close>

section \<open>Named collections\<close>

named_theorems packet_simps \<open>packets, headers and their byte images\<close>
named_theorems client_simps \<open>lookup and update of the client table\<close>
named_theorems room_simps \<open>lookup and update of the room table\<close>
named_theorems inv_intros \<open>preservation lemmas of the component invariants\<close>
named_theorems handler_defs \<open>the packet handlers, for unfolding\<close>

section \<open>Types\<close>

type_synonym c_int = "32 word"
type_synonym u16 = "16 word"
type_synonym u64 = "64 word"
type_synonym fd = int

section \<open>Decimal and hexadecimal text\<close>

definition digit_char :: "nat \<Rightarrow> char" where
  "digit_char d = char_of (48 + d)"

fun dec_digits :: "nat \<Rightarrow> string" where
  "dec_digits n =
     (if n < 10 then [digit_char n] else dec_digits (n div 10) @ [digit_char (n mod 10)])"

declare dec_digits.simps [simp del]

text \<open>\<open>std::to_string\<close> of an integer.\<close>

definition to_string_int :: "int \<Rightarrow> string" where
  "to_string_int i = (if i < 0 then CHR ''-'' # dec_digits (nat (- i)) else dec_digits (nat i))"

lemma dec_digits_not_Nil [simp]: "dec_digits n \<noteq> []"
  by (subst dec_digits.simps) simp

subsection \<open>Reading digits back\<close>

definition byte_of :: "char \<Rightarrow> nat" where
  "byte_of c = of_char c"

definition is_digit :: "char \<Rightarrow> bool" where
  "is_digit c \<longleftrightarrow> 48 \<le> byte_of c \<and> byte_of c \<le> 57"

definition digit_val :: "char \<Rightarrow> nat" where
  "digit_val c = byte_of c - 48"

definition digits_value :: "string \<Rightarrow> nat" where
  "digits_value s = foldl (\<lambda>n c. 10 * n + digit_val c) 0 s"

lemma char_of_byte: "char_of (byte_of c) = c"
  by (simp add: byte_of_def)

lemma digit_char_props:
  assumes "d < 10"
  shows "is_digit (digit_char d)" "digit_val (digit_char d) = d" "digit_char d = CHR ''0'' \<longleftrightarrow> d = 0"
proof -
  have b: "byte_of (digit_char d) = 48 + d" using assms by (simp add: byte_of_def digit_char_def)
  with assms show "is_digit (digit_char d)" "digit_val (digit_char d) = d"
    by (simp_all add: is_digit_def digit_val_def)
  have "byte_of (CHR ''0'') = 48" by (simp add: byte_of_def)
  with b show "digit_char d = CHR ''0'' \<longleftrightarrow> d = 0"
    by (metis add.right_neutral add_left_cancel char_of_byte)
qed

lemma digits_value_append: "digits_value (s @ [c]) = 10 * digits_value s + digit_val c"
  by (simp add: digits_value_def)

lemma dec_digits_props:
  "(\<forall>c \<in> set (dec_digits n). is_digit c) \<and> digits_value (dec_digits n) = n
   \<and> (hd (dec_digits n) = CHR ''0'' \<longrightarrow> n = 0)"
proof (induction n rule: dec_digits.induct)
  case (1 n)
  show ?case
  proof (cases "n < 10")
    case True
    then show ?thesis
      by (subst (1 2 3) dec_digits.simps) (simp add: digit_char_props digits_value_def)
  next
    case False
    with 1 have ih: "\<forall>c \<in> set (dec_digits (n div 10)). is_digit c" "digits_value (dec_digits (n div 10)) = n div 10"
      "hd (dec_digits (n div 10)) = CHR ''0'' \<longrightarrow> n div 10 = 0" by auto
    have "dec_digits n = dec_digits (n div 10) @ [digit_char (n mod 10)]"
      using False by (subst dec_digits.simps) simp
    with ih False show ?thesis
      by (auto simp: digits_value_append digit_char_props)
  qed
qed

section \<open>Transition systems\<close>

text \<open>The states a step relation reaches, and the invariants of such a relation.\<close>

inductive reachable :: "('s \<Rightarrow> 's \<Rightarrow> bool) \<Rightarrow> 's \<Rightarrow> 's \<Rightarrow> bool"
  for step :: "'s \<Rightarrow> 's \<Rightarrow> bool" and s0 :: 's where
  start: "reachable step s0 s0"
| next_state: "reachable step s0 s \<Longrightarrow> step s s' \<Longrightarrow> reachable step s0 s'"

lemma reachable_trans:
  "reachable step b c \<Longrightarrow> reachable step a b \<Longrightarrow> reachable step a c"
  by (induction rule: reachable.induct) (auto intro: reachable.intros)

lemma reachable_step: "step a b \<Longrightarrow> reachable step b c \<Longrightarrow> reachable step a c"
  by (rule reachable_trans) (auto intro: reachable.intros)

locale transition_invariant =
  fixes step :: "'s \<Rightarrow> 's \<Rightarrow> bool" and inv :: "'s \<Rightarrow> bool"
  assumes preserved: "inv s \<Longrightarrow> step s s' \<Longrightarrow> inv s'"
begin

lemma invariant_reachable: "reachable step s0 s \<Longrightarrow> inv s0 \<Longrightarrow> inv s"
  by (induction rule: reachable.induct) (auto intro: preserved)

end

section \<open>The interface of an unordered map\<close>

text \<open>
  What the managers rely on: a lookup sees the last insertion, an erasure only removes its key, and
  \<open>size\<close> counts the distinct keys.
\<close>

locale hash_map =
  fixes find :: "'m \<Rightarrow> 'k \<Rightarrow> 'v option"
    and insert_or_assign :: "'k \<Rightarrow> 'v \<Rightarrow> 'm \<Rightarrow> 'm"
    and erase :: "'k \<Rightarrow> 'm \<Rightarrow> 'm"
    and size_of :: "'m \<Rightarrow> nat"
    and keys_ok :: "'m \<Rightarrow> bool"
  assumes find_insert: "find (insert_or_assign k v m) k' = (if k' = k then Some v else find m k')"
    and find_erase: "find (erase k m) k' = (if k' = k then None else find m k')"
    and keys_ok_insert: "keys_ok m \<Longrightarrow> keys_ok (insert_or_assign k v m)"
    and keys_ok_erase: "keys_ok m \<Longrightarrow> keys_ok (erase k m)"
    and size_insert:
      "keys_ok m \<Longrightarrow> size_of (insert_or_assign k v m) =
         (if find m k = None then Suc (size_of m) else size_of m)"
    and size_erase:
      "keys_ok m \<Longrightarrow> size_of (erase k m) = (if find m k = None then size_of m else size_of m - 1)"
begin

lemma find_insert_same: "find (insert_or_assign k v m) k = Some v"
  by (simp add: find_insert)

lemma find_insert_other: "k' \<noteq> k \<Longrightarrow> find (insert_or_assign k v m) k' = find m k'"
  by (simp add: find_insert)

lemma find_erase_Some: "find (erase k m) k' = Some v \<longleftrightarrow> k' \<noteq> k \<and> find m k' = Some v"
  by (simp add: find_erase)

lemma size_insert_le: "keys_ok m \<Longrightarrow> size_of (insert_or_assign k v m) \<le> Suc (size_of m)"
  by (simp add: size_insert)

lemma size_erase_le: "keys_ok m \<Longrightarrow> size_of (erase k m) \<le> size_of m"
  by (simp add: size_erase)

lemma all_find_insert:
  "(\<And>k' v'. find m k' = Some v' \<Longrightarrow> P k' v') \<Longrightarrow> P k v \<Longrightarrow>
   find (insert_or_assign k v m) k' = Some v' \<Longrightarrow> P k' v'"
  by (simp add: find_insert split: if_splits)

lemma all_find_erase:
  "(\<And>k' v'. find m k' = Some v' \<Longrightarrow> P k' v') \<Longrightarrow> find (erase k m) k' = Some v' \<Longrightarrow> P k' v'"
  by (simp add: find_erase split: if_splits)

end

text \<open>
  Its instance: association lists with distinct keys. \<open>AList.update\<close> keeps the position of a key that is
  present and appends a new one, \<open>AList.delete\<close> removes the key; iteration follows the list. The C++
  iteration order is unspecified, so no property below depends on it.
\<close>

definition al_distinct :: "('k \<times> 'v) list \<Rightarrow> bool" where
  "al_distinct m \<longleftrightarrow> distinct (map fst m)"

lemma length_AList_update:
  "length (AList.update k v m) = (if map_of m k = None then Suc (length m) else length m)"
  by (induction m) auto

lemma length_AList_delete:
  "distinct (map fst m) \<Longrightarrow>
   length (AList.delete k m) = (if map_of m k = None then length m else length m - 1)"
proof (induction m)
  case Nil
  then show ?case by simp
next
  case (Cons a m)
  obtain x y where a: "a = (x, y)" by force
  show ?case
  proof (cases "x = k")
    case True
    with Cons.prems a have "k \<notin> set (map fst m)" by simp
    then have "map_of m k = None" by (simp add: map_of_eq_None_iff)
    with Cons a True show ?thesis by simp
  next
    case False
    have "m \<noteq> []" if "map_of m k \<noteq> None" using that by auto
    with Cons a False show ?thesis by (auto simp: neq_Nil_conv)
  qed
qed

interpretation hm: hash_map map_of AList.update AList.delete length al_distinct
  by unfold_locales
    (auto simp: update_conv' delete_conv' al_distinct_def distinct_update distinct_delete
       length_AList_update length_AList_delete)

lemma hm_distinct_empty [simp]: "al_distinct []"
  by (simp add: al_distinct_def)

lemma al_distinct_mem:
  "al_distinct m \<Longrightarrow> (k, v) \<in> set m \<longleftrightarrow> map_of m k = Some v"
  by (simp add: al_distinct_def)

section \<open>Lists\<close>

lemma take_append_length_eq [simp]: "n = length xs \<Longrightarrow> take n (xs @ ys) = xs"
  by simp

lemma drop_append_length_eq [simp]: "n = length xs \<Longrightarrow> drop n (xs @ ys) = ys"
  by simp

text \<open>\<open>std::find\<close> followed by \<open>erase(it)\<close>: the first occurrence goes, nothing if there is none.\<close>

lemma remove1_distinct_set: "distinct xs \<Longrightarrow> set (remove1 x xs) = set xs - {x}"
  by simp

end
