(* ===== verification/Json_Value.thy ===== *)
theory Json_Value
  imports Prelude
begin

text \<open>
  The JSON value of the vendored \<open>nlohmann/json.hpp\<close> (3.12.0; the server's and the client's copies are
  identical), as far as the program uses it: the value type, the exceptions with their \<open>what()\<close> text,
  and element access. Lexer, parser and serializer have theories of their own.

  \<^item> integers are the 64-bit words of \<open>number_integer_t\<close> (read with \<^const>\<open>sint\<close>) and
    \<open>number_unsigned_t\<close> (read with \<^const>\<open>unat\<close>); a float is its IEEE 754 double bit pattern;
  \<^item> an object is a \<open>std::map\<close>: an association list in ascending byte order of its keys;
  \<^item> the \<open>binary\<close> and \<open>discarded\<close> kinds are never produced by the text parser and are left out.
\<close>

section \<open>Values and exceptions\<close>

datatype json =
    JNull
  | JBoolean bool
  | JString string
  | JInteger u64
  | JUnsigned u64
  | JFloat u64
  | JArray "json list"
  | JObject "(string \<times> json) list"

datatype json_error =
    Parse_Error nat string
  | Type_Error nat string
  | Out_Of_Range nat string

text \<open>\<open>e.what()\<close>.\<close>

fun what :: "json_error \<Rightarrow> string" where
  "what (Parse_Error n s) = s"
| "what (Type_Error n s) = s"
| "what (Out_Of_Range n s) = s"

definition is_parse_error :: "json_error \<Rightarrow> bool" where
  "is_parse_error e = (case e of Parse_Error n s \<Rightarrow> True | _ \<Rightarrow> False)"

definition exception_name :: "string \<Rightarrow> nat \<Rightarrow> string" where
  "exception_name ename n = ''[json.exception.'' @ ename @ ''.'' @ dec_digits n @ ''] ''"

definition create_parse_error :: "nat \<Rightarrow> nat \<Rightarrow> nat \<Rightarrow> string \<Rightarrow> json_error" where
  "create_parse_error n lines_rd chars_line arg =
     Parse_Error n (exception_name ''parse_error'' n @ ''parse error'' @
       '' at line '' @ dec_digits (lines_rd + 1) @ '', column '' @ dec_digits chars_line @ '': '' @ arg)"

definition create_type_error :: "nat \<Rightarrow> string \<Rightarrow> json_error" where
  "create_type_error n arg = Type_Error n (exception_name ''type_error'' n @ arg)"

definition create_out_of_range :: "nat \<Rightarrow> string \<Rightarrow> json_error" where
  "create_out_of_range n arg = Out_Of_Range n (exception_name ''out_of_range'' n @ arg)"

fun type_name :: "json \<Rightarrow> string" where
  "type_name JNull = ''null''"
| "type_name (JObject _) = ''object''"
| "type_name (JArray _) = ''array''"
| "type_name (JString _) = ''string''"
| "type_name (JBoolean _) = ''boolean''"
| "type_name (JInteger _) = ''number''"
| "type_name (JUnsigned _) = ''number''"
| "type_name (JFloat _) = ''number''"

fun is_object :: "json \<Rightarrow> bool" where
  "is_object (JObject _) = True"
| "is_object _ = False"

fun is_string :: "json \<Rightarrow> bool" where
  "is_string (JString _) = True"
| "is_string _ = False"

fun is_number :: "json \<Rightarrow> bool" where
  "is_number (JInteger _) = True"
| "is_number (JUnsigned _) = True"
| "is_number (JFloat _) = True"
| "is_number _ = False"

section \<open>Objects as ordered maps\<close>

text \<open>\<open>object->emplace(key, nullptr)\<close> followed by an assignment through the returned reference.\<close>

fun obj_insert :: "string \<Rightarrow> json \<Rightarrow> (string \<times> json) list \<Rightarrow> (string \<times> json) list" where
  "obj_insert k v [] = [(k, v)]"
| "obj_insert k v ((k', v') # m) =
     (if k < k' then (k, v) # (k', v') # m
      else if k = k' then (k, v) # m
      else (k', v') # obj_insert k v m)"

definition obj_sorted :: "(string \<times> json) list \<Rightarrow> bool" where
  "obj_sorted m \<longleftrightarrow> sorted_wrt (<) (map fst m)"

lemma map_of_obj_insert: "map_of (obj_insert k v m) = (map_of m)(k \<mapsto> v)"
  by (induction k v m rule: obj_insert.induct) auto

lemma fst_set_obj_insert: "fst ` set (obj_insert k v m) = insert k (fst ` set m)"
  by (induction k v m rule: obj_insert.induct) auto

lemma set_obj_insert: "set (obj_insert k v m) \<subseteq> insert (k, v) (set m)"
  by (induction k v m rule: obj_insert.induct) auto

lemma obj_sorted_insert: "obj_sorted m \<Longrightarrow> obj_sorted (obj_insert k v m)"
proof (induction k v m rule: obj_insert.induct)
  case (1 k v)
  then show ?case by (simp add: obj_sorted_def)
next
  case (2 k v k' v' m)
  then show ?case
    using fst_set_obj_insert [of k v m] by (auto simp: obj_sorted_def dest: less_trans)
qed

lemma obj_sorted_distinct: "obj_sorted m \<Longrightarrow> distinct (map fst m)"
proof (induction m)
  case Nil
  then show ?case by simp
next
  case (Cons a m)
  then show ?case by (auto simp: obj_sorted_def)
qed

lemma obj_insert_greatest:
  "\<forall>k' \<in> fst ` set m. k' < k \<Longrightarrow> obj_insert k v m = m @ [(k, v)]"
proof (induction k v m rule: obj_insert.induct)
  case (1 k v)
  then show ?case by simp
next
  case (2 k v k' v' m)
  then have "k' < k" by simp
  then have "\<not> k < k'" and "k \<noteq> k'" by auto
  with 2 show ?case by simp
qed

section \<open>Element access\<close>

definition contains :: "json \<Rightarrow> string \<Rightarrow> bool" where
  "contains j k = (case j of JObject m \<Rightarrow> map_of m k \<noteq> None | _ \<Rightarrow> False)"

text \<open>
  The non-const \<open>operator[]\<close> read as a value: a null value becomes an object, a missing key is inserted
  as null, and anything else throws. The mutation of the container is visible only to its owner, who
  drops it in every use of the program, so only the value read is returned.
\<close>

definition json_at :: "json \<Rightarrow> string \<Rightarrow> json_error + json" where
  "json_at j k =
     (case j of
        JNull \<Rightarrow> Inr JNull
      | JObject m \<Rightarrow> Inr (case map_of m k of None \<Rightarrow> JNull | Some v \<Rightarrow> v)
      | _ \<Rightarrow> Inl (create_type_error 305
               (''cannot use operator[] with a string argument with '' @ type_name j)))"

text \<open>\<open>j[k] = v\<close>.\<close>

definition json_put :: "string \<Rightarrow> json \<Rightarrow> json \<Rightarrow> json_error + json" where
  "json_put k v j =
     (case j of
        JNull \<Rightarrow> Inr (JObject (obj_insert k v []))
      | JObject m \<Rightarrow> Inr (JObject (obj_insert k v m))
      | _ \<Rightarrow> Inl (create_type_error 305
               (''cannot use operator[] with a string argument with '' @ type_name j)))"

text \<open>A run of such assignments on a value that starts as \<open>nlohmann::json payload;\<close>, that is null.\<close>

fun json_puts :: "(string \<times> json) list \<Rightarrow> json \<Rightarrow> json_error + json" where
  "json_puts [] j = Inr j"
| "json_puts ((k, v) # kvs) j =
     (case json_put k v j of Inl e \<Rightarrow> Inl e | Inr j' \<Rightarrow> json_puts kvs j')"

lemma json_puts_object:
  "json_puts kvs (JObject m) = Inr (JObject (fold (\<lambda>(k, v). obj_insert k v) kvs m))"
  by (induction kvs arbitrary: m) (auto simp: json_put_def)

lemma json_puts_null:
  "kvs \<noteq> [] \<Longrightarrow> json_puts kvs JNull = Inr (JObject (fold (\<lambda>(k, v). obj_insert k v) kvs []))"
  by (cases kvs) (auto simp: json_put_def json_puts_object)

text \<open>\<open>get<std::string>()\<close>.\<close>

definition get_string :: "json \<Rightarrow> json_error + string" where
  "get_string j =
     (case j of
        JString s \<Rightarrow> Inr s
      | _ \<Rightarrow> Inl (create_type_error 302 (''type must be string, but is '' @ type_name j)))"

text \<open>
  \<open>get<int>()\<close>. The conversions to \<open>int\<close> are \<open>static_cast\<close>s: a 64-bit integer is cut to its low 32
  bits; a double is truncated, which is undefined when the result does not fit, so that value is the
  parameter \<open>oor\<close> of the model (what the compiled conversion yields there).
\<close>

definition double_trunc :: "u64 \<Rightarrow> int" where
  "double_trunc b =
     (let n = unat b; expo = (n div 2 ^ 52) mod 2048; m = 2 ^ 52 + n mod 2 ^ 52;
          a = (if expo < 1023 then 0
               else if expo < 1075 then m div 2 ^ (1075 - expo)
               else m * 2 ^ (expo - 1075))
      in if 2 ^ 63 \<le> n then - int a else int a)"

definition double_to_int :: "(u64 \<Rightarrow> c_int) \<Rightarrow> u64 \<Rightarrow> c_int" where
  "double_to_int oor b =
     (let x = double_trunc b in if - (2 ^ 31) \<le> x \<and> x < 2 ^ 31 then of_int x else oor b)"

definition get_int :: "(u64 \<Rightarrow> c_int) \<Rightarrow> json \<Rightarrow> json_error + c_int" where
  "get_int oor j =
     (case j of
        JUnsigned w \<Rightarrow> Inr (ucast w)
      | JInteger w \<Rightarrow> Inr (ucast w)
      | JFloat b \<Rightarrow> Inr (double_to_int oor b)
      | JBoolean b \<Rightarrow> Inr (if b then 1 else 0)
      | _ \<Rightarrow> Inl (create_type_error 302 (''type must be number, but is '' @ type_name j)))"

text \<open>\<open>value(key, default)\<close> for a string and for an \<open>int\<close> default.\<close>

definition value_string :: "json \<Rightarrow> string \<Rightarrow> string \<Rightarrow> json_error + string" where
  "value_string j k dflt =
     (case j of
        JObject m \<Rightarrow> (case map_of m k of None \<Rightarrow> Inr dflt | Some v \<Rightarrow> get_string v)
      | _ \<Rightarrow> Inl (create_type_error 306 (''cannot use value() with '' @ type_name j)))"

definition value_int :: "(u64 \<Rightarrow> c_int) \<Rightarrow> json \<Rightarrow> string \<Rightarrow> c_int \<Rightarrow> json_error + c_int" where
  "value_int oor j k dflt =
     (case j of
        JObject m \<Rightarrow> (case map_of m k of None \<Rightarrow> Inr dflt | Some v \<Rightarrow> get_int oor v)
      | _ \<Rightarrow> Inl (create_type_error 306 (''cannot use value() with '' @ type_name j)))"

text \<open>The \<open>int\<close> value \<open>fd\<close> stored by \<open>j["..."] = fd\<close>: a \<open>number_integer\<close>.\<close>

definition json_of_fd :: "fd \<Rightarrow> json" where
  "json_of_fd f = JInteger (of_int f)"

lemma contains_is_string_at:
  "contains j k \<Longrightarrow> json_at j k = Inr v \<Longrightarrow> \<exists>m. j = JObject m \<and> map_of m k = Some v"
  by (cases j) (auto simp: contains_def json_at_def)

end
