(* ===== verification/Json_Lexer.thy ===== *)
theory Json_Lexer
  imports Json_Value
begin

unbundle bit_operations_syntax

text \<open>
  The scanner of \<open>nlohmann/json.hpp\<close> (class \<open>lexer\<close>): one record for its members, one function per
  scan function. \<open>current = None\<close> is \<open>char_traits<char>::eof()\<close>. Every loop of the scanner consumes
  input, which the termination measure \<open>lex_left\<close> (bytes not yet read, plus one for an ungot byte)
  records. Comments are off (\<open>ignore_comments = false\<close>, the default of every call of the program) and
  the decimal point is that of the C locale, which the program never changes.
\<close>

section \<open>Tokens and the scanner state\<close>

datatype token_type =
    T_uninitialized
  | T_literal_true
  | T_literal_false
  | T_literal_null
  | T_value_string
  | T_value_unsigned
  | T_value_integer
  | T_value_float
  | T_begin_array
  | T_begin_object
  | T_end_array
  | T_end_object
  | T_name_separator
  | T_value_separator
  | T_parse_error
  | T_end_of_input
  | T_literal_or_value

definition in_quotes :: "string \<Rightarrow> string" where
  "in_quotes s = CHR 0x27 # s @ [CHR 0x27]"

fun token_type_name :: "token_type \<Rightarrow> string" where
  "token_type_name T_uninitialized = ''<uninitialized>''"
| "token_type_name T_literal_true = ''true literal''"
| "token_type_name T_literal_false = ''false literal''"
| "token_type_name T_literal_null = ''null literal''"
| "token_type_name T_value_string = ''string literal''"
| "token_type_name T_value_unsigned = ''number literal''"
| "token_type_name T_value_integer = ''number literal''"
| "token_type_name T_value_float = ''number literal''"
| "token_type_name T_begin_array = in_quotes ''[''"
| "token_type_name T_begin_object = in_quotes ''{''"
| "token_type_name T_end_array = in_quotes '']''"
| "token_type_name T_end_object = in_quotes ''}''"
| "token_type_name T_name_separator = in_quotes '':''"
| "token_type_name T_value_separator = in_quotes '',''"
| "token_type_name T_parse_error = ''<parse error>''"
| "token_type_name T_end_of_input = ''end of input''"
| "token_type_name T_literal_or_value =
     in_quotes ''['' @ '', '' @ in_quotes ''{'' @ '', or a literal''"

record lexer =
  ia :: string
  current :: "char option"
  next_unget :: bool
  chars_read_total :: nat
  chars_read_current_line :: nat
  lines_read :: nat
  token_string :: string
  token_buffer :: string
  error_message :: string
  value_unsigned :: u64
  value_integer :: u64
  value_float :: u64

definition init_lexer :: "string \<Rightarrow> lexer" where
  "init_lexer s =
     \<lparr>ia = s, current = None, next_unget = False, chars_read_total = 0,
      chars_read_current_line = 0, lines_read = 0, token_string = [], token_buffer = [],
      error_message = [], value_unsigned = 0, value_integer = 0, value_float = 0\<rparr>"

definition lex_left :: "lexer \<Rightarrow> nat" where
  "lex_left l = length (ia l) + (if next_unget l \<and> current l \<noteq> None then 1 else 0)"

section \<open>Input management\<close>

text \<open>\<open>get()\<close>: the first part fetches the byte, the second keeps the books for error messages.\<close>

definition lex_fetch :: "lexer \<Rightarrow> lexer" where
  "lex_fetch l =
     (if next_unget l then l\<lparr>next_unget := False\<rparr>
      else (case ia l of
              [] \<Rightarrow> l\<lparr>current := None\<rparr>
            | c # cs \<Rightarrow> l\<lparr>current := Some c, ia := cs\<rparr>))"

definition lex_count :: "lexer \<Rightarrow> lexer" where
  "lex_count l =
     (let l' = (case current l of None \<Rightarrow> l | Some c \<Rightarrow> l\<lparr>token_string := token_string l @ [c]\<rparr>)
      in if current l' = Some (CHR 0x0A)
         then l'\<lparr>lines_read := Suc (lines_read l'), chars_read_current_line := 0\<rparr> else l')"

definition lex_get :: "lexer \<Rightarrow> lexer" where
  "lex_get l =
     lex_count (lex_fetch
       (l\<lparr>chars_read_total := Suc (chars_read_total l),
          chars_read_current_line := Suc (chars_read_current_line l)\<rparr>))"

definition lex_unget :: "lexer \<Rightarrow> lexer" where
  "lex_unget l =
     (let l1 = l\<lparr>next_unget := True, chars_read_total := chars_read_total l - 1\<rparr>;
          l2 = (if chars_read_current_line l1 = 0
                then (if lines_read l1 > 0 then l1\<lparr>lines_read := lines_read l1 - 1\<rparr> else l1)
                else l1\<lparr>chars_read_current_line := chars_read_current_line l1 - 1\<rparr>)
      in (case current l2 of
            None \<Rightarrow> l2
          | Some _ \<Rightarrow> l2\<lparr>token_string := butlast (token_string l2)\<rparr>))"

definition lex_add :: "char \<Rightarrow> lexer \<Rightarrow> lexer" where
  "lex_add c l = l\<lparr>token_buffer := token_buffer l @ [c]\<rparr>"

definition lex_reset :: "lexer \<Rightarrow> lexer" where
  "lex_reset l = l\<lparr>token_buffer := [],
     token_string := (case current l of None \<Rightarrow> [] | Some c \<Rightarrow> [c])\<rparr>"

definition lex_error :: "string \<Rightarrow> lexer \<Rightarrow> token_type \<times> lexer" where
  "lex_error msg l = (T_parse_error, l\<lparr>error_message := msg\<rparr>)"

lemma lex_get_fields:
  "current (lex_get l) =
     (if next_unget l then current l else (case ia l of [] \<Rightarrow> None | c # cs \<Rightarrow> Some c))"
  "ia (lex_get l) = (if next_unget l then ia l else tl (ia l))"
  "next_unget (lex_get l) = False"
  "token_buffer (lex_get l) = token_buffer l"
  by (auto simp: lex_get_def lex_count_def lex_fetch_def Let_def split: option.splits list.splits)

lemma lex_left_add [simp]: "lex_left (lex_add c l) = lex_left l"
  by (simp add: lex_left_def lex_add_def)

lemma lex_left_reset [simp]: "lex_left (lex_reset l) = lex_left l"
  by (simp add: lex_left_def lex_reset_def)

lemma lex_left_error [simp]: "lex_left (snd (lex_error m l)) = lex_left l"
  by (simp add: lex_left_def lex_error_def)

lemma lex_left_get_le: "lex_left (lex_get l) \<le> lex_left l"
  by (simp add: lex_left_def lex_get_fields)

lemma lex_left_get_less: "current (lex_get l) \<noteq> None \<Longrightarrow> lex_left (lex_get l) < lex_left l"
  by (auto simp: lex_left_def lex_get_fields split: if_splits list.splits)

section \<open>Character classes\<close>

definition opt_in :: "char option \<Rightarrow> nat \<Rightarrow> nat \<Rightarrow> bool" where
  "opt_in co lo hi \<longleftrightarrow> (case co of None \<Rightarrow> False | Some c \<Rightarrow> lo \<le> byte_of c \<and> byte_of c \<le> hi)"

lemma byte_of_less [simp]: "byte_of c < 256"
  by (simp add: byte_of_def)

section \<open>Strings\<close>

text \<open>\<open>get_codepoint()\<close>: four hex digits, most significant first; \<open>None\<close> is the code's -1.\<close>

definition hex_val :: "char \<Rightarrow> nat option" where
  "hex_val c =
     (let b = byte_of c
      in if 48 \<le> b \<and> b \<le> 57 then Some (b - 0x30)
         else if 65 \<le> b \<and> b \<le> 70 then Some (b - 0x37)
         else if 97 \<le> b \<and> b \<le> 102 then Some (b - 0x57)
         else None)"

fun get_codepoint_loop :: "nat list \<Rightarrow> nat \<Rightarrow> lexer \<Rightarrow> nat option \<times> lexer" where
  "get_codepoint_loop [] cp l = (Some cp, l)"
| "get_codepoint_loop (f # fs) cp l =
     (let l' = lex_get l
      in case Option.bind (current l') hex_val of
           None \<Rightarrow> (None, l')
         | Some v \<Rightarrow> get_codepoint_loop fs (cp + push_bit f v) l')"

definition get_codepoint :: "lexer \<Rightarrow> nat option \<times> lexer" where
  "get_codepoint l = get_codepoint_loop [12, 8, 4, 0] 0 l"

text \<open>\<open>next_byte_in_range\<close>: the ranges are given as pairs.\<close>

fun next_bytes_loop :: "(nat \<times> nat) list \<Rightarrow> lexer \<Rightarrow> bool \<times> lexer" where
  "next_bytes_loop [] l = (True, l)"
| "next_bytes_loop ((lo, hi) # rs) l =
     (let l' = lex_get l
      in case current l' of
           None \<Rightarrow> (False, l'\<lparr>error_message := ''invalid string: ill-formed UTF-8 byte''\<rparr>)
         | Some c \<Rightarrow>
             if lo \<le> byte_of c \<and> byte_of c \<le> hi then next_bytes_loop rs (lex_add c l')
             else (False, l'\<lparr>error_message := ''invalid string: ill-formed UTF-8 byte''\<rparr>))"

definition next_byte_in_range :: "(nat \<times> nat) list \<Rightarrow> lexer \<Rightarrow> bool \<times> lexer" where
  "next_byte_in_range rs l =
     next_bytes_loop rs (case current l of None \<Rightarrow> l | Some c \<Rightarrow> lex_add c l)"

text \<open>The \<open>add\<close> calls that turn a code point into bytes.\<close>

definition utf8_bytes :: "nat \<Rightarrow> nat list" where
  "utf8_bytes cp =
     (if cp < 0x80 then [cp]
      else if cp \<le> 0x7FF then [0xC0 OR drop_bit 6 cp, 0x80 OR (cp AND 0x3F)]
      else if cp \<le> 0xFFFF then
        [0xE0 OR drop_bit 12 cp, 0x80 OR (drop_bit 6 cp AND 0x3F), 0x80 OR (cp AND 0x3F)]
      else
        [0xF0 OR drop_bit 18 cp, 0x80 OR (drop_bit 12 cp AND 0x3F),
         0x80 OR (drop_bit 6 cp AND 0x3F), 0x80 OR (cp AND 0x3F)])"

definition add_codepoint :: "nat \<Rightarrow> lexer \<Rightarrow> lexer" where
  "add_codepoint cp l = fold (\<lambda>b. lex_add (char_of b)) (utf8_bytes cp) l"

definition esc_u :: string where
  "esc_u = [CHR 0x5C, CHR ''u'']"

definition hex_digits_msg :: string where
  "hex_digits_msg = ''invalid string: '' @ in_quotes esc_u @ '' must be followed by 4 hex digits''"

definition high_surrogate_msg :: string where
  "high_surrogate_msg =
     ''invalid string: surrogate U+D800..U+DBFF must be followed by U+DC00..U+DFFF''"

definition low_surrogate_msg :: string where
  "low_surrogate_msg = ''invalid string: surrogate U+DC00..U+DFFF must follow U+D800..U+DBFF''"

text \<open>The case \<open>'u'\<close> of an escape: \<open>True\<close> and the scanner with the bytes added, or an error.\<close>

definition scan_unicode :: "lexer \<Rightarrow> bool \<times> lexer" where
  "scan_unicode l0 =
     (case get_codepoint l0 of
        (None, l) \<Rightarrow> (False, l\<lparr>error_message := hex_digits_msg\<rparr>)
      | (Some cp1, l) \<Rightarrow>
          if 0xD800 \<le> cp1 \<and> cp1 \<le> 0xDBFF then
            (let l1 = lex_get l
             in if current l1 \<noteq> Some (CHR 0x5C)
                then (False, l1\<lparr>error_message := high_surrogate_msg\<rparr>)
                else (let l2 = lex_get l1
                      in if current l2 \<noteq> Some (CHR ''u'')
                         then (False, l2\<lparr>error_message := high_surrogate_msg\<rparr>)
                         else (case get_codepoint l2 of
                                 (None, l3) \<Rightarrow> (False, l3\<lparr>error_message := hex_digits_msg\<rparr>)
                               | (Some cp2, l3) \<Rightarrow>
                                   if 0xDC00 \<le> cp2 \<and> cp2 \<le> 0xDFFF
                                   then (True, add_codepoint (cp1 * 2 ^ 10 + cp2 - 0x35FDC00) l3)
                                   else (False, l3\<lparr>error_message := high_surrogate_msg\<rparr>))))
          else if 0xDC00 \<le> cp1 \<and> cp1 \<le> 0xDFFF
          then (False, l\<lparr>error_message := low_surrogate_msg\<rparr>)
          else (True, add_codepoint cp1 l))"

text \<open>After a backslash.\<close>

definition scan_escape :: "lexer \<Rightarrow> bool \<times> lexer" where
  "scan_escape l0 =
     (let l = lex_get l0
      in case current l of
           None \<Rightarrow> (False, l\<lparr>error_message := ''invalid string: forbidden character after backslash''\<rparr>)
         | Some c \<Rightarrow>
             if c = CHR 0x22 then (True, lex_add (CHR 0x22) l)
             else if c = CHR 0x5C then (True, lex_add (CHR 0x5C) l)
             else if c = CHR ''/'' then (True, lex_add (CHR ''/'') l)
             else if c = CHR ''b'' then (True, lex_add (CHR 0x08) l)
             else if c = CHR ''f'' then (True, lex_add (CHR 0x0C) l)
             else if c = CHR ''n'' then (True, lex_add (CHR 0x0A) l)
             else if c = CHR ''r'' then (True, lex_add (CHR 0x0D) l)
             else if c = CHR ''t'' then (True, lex_add (CHR 0x09) l)
             else if c = CHR ''u'' then scan_unicode l
             else (False, l\<lparr>error_message := ''invalid string: forbidden character after backslash''\<rparr>))"

text \<open>The messages of the 32 control character cases.\<close>

definition control_names :: "string list" where
  "control_names =
     [''NUL'', ''SOH'', ''STX'', ''ETX'', ''EOT'', ''ENQ'', ''ACK'', ''BEL'',
      ''BS'', ''HT'', ''LF'', ''VT'', ''FF'', ''CR'', ''SO'', ''SI'',
      ''DLE'', ''DC1'', ''DC2'', ''DC3'', ''DC4'', ''NAK'', ''SYN'', ''ETB'',
      ''CAN'', ''EM'', ''SUB'', ''ESC'', ''FS'', ''GS'', ''RS'', ''US'']"

definition hex_upper :: "nat \<Rightarrow> char" where
  "hex_upper d = (if d < 10 then char_of (48 + d) else char_of (55 + d))"

definition control_msg :: "nat \<Rightarrow> string" where
  "control_msg b =
     (let hex = ''00'' @ [hex_upper (b div 16), hex_upper (b mod 16)]
      in ''invalid string: control character U+'' @ hex @ '' ('' @ control_names ! b @
         '') must be escaped to '' @ esc_u @ hex @
         (if b = 8 then '' or '' @ [CHR 0x5C, CHR ''b'']
          else if b = 9 then '' or '' @ [CHR 0x5C, CHR ''t'']
          else if b = 10 then '' or '' @ [CHR 0x5C, CHR ''n'']
          else if b = 12 then '' or '' @ [CHR 0x5C, CHR ''f'']
          else if b = 13 then '' or '' @ [CHR 0x5C, CHR ''r'']
          else []))"

text \<open>The continuation ranges of a lead byte; \<open>None\<close> for bytes that cannot start a character.\<close>

definition lead_ranges :: "nat \<Rightarrow> (nat \<times> nat) list option" where
  "lead_ranges b =
     (if b < 0x20 then None
      else if b \<le> 0x7F then Some []
      else if 0xC2 \<le> b \<and> b \<le> 0xDF then Some [(0x80, 0xBF)]
      else if b = 0xE0 then Some [(0xA0, 0xBF), (0x80, 0xBF)]
      else if b = 0xED then Some [(0x80, 0x9F), (0x80, 0xBF)]
      else if 0xE1 \<le> b \<and> b \<le> 0xEF then Some [(0x80, 0xBF), (0x80, 0xBF)]
      else if b = 0xF0 then Some [(0x90, 0xBF), (0x80, 0xBF), (0x80, 0xBF)]
      else if 0xF1 \<le> b \<and> b \<le> 0xF3 then Some [(0x80, 0xBF), (0x80, 0xBF), (0x80, 0xBF)]
      else if b = 0xF4 then Some [(0x80, 0x8F), (0x80, 0xBF), (0x80, 0xBF)]
      else None)"

text \<open>What the nested scans do to the measure.\<close>

lemma get_codepoint_loop_left: "lex_left (snd (get_codepoint_loop fs cp l)) \<le> lex_left l"
proof (induction fs cp l rule: get_codepoint_loop.induct)
  case (1 cp l)
  then show ?case by simp
next
  case (2 f fs cp l)
  then show ?case
    using lex_left_get_le [of l] by (auto simp: Let_def split: option.splits intro: order_trans)
qed

lemma get_codepoint_left: "get_codepoint l = (r, l') \<Longrightarrow> lex_left l' \<le> lex_left l"
  using get_codepoint_loop_left [of "[12, 8, 4, 0]" 0 l] by (simp add: get_codepoint_def)

lemma next_bytes_loop_left: "lex_left (snd (next_bytes_loop rs l)) \<le> lex_left l"
proof (induction rs l rule: next_bytes_loop.induct)
  case (1 l)
  then show ?case by simp
next
  case (2 lo hi rs l)
  have "lex_left (l\<lparr>error_message := m\<rparr>) = lex_left l" for l m by (simp add: lex_left_def)
  with 2 show ?case
    using lex_left_get_le [of l] by (auto simp: Let_def split: option.splits intro: order_trans)
qed

lemma next_byte_in_range_left: "next_byte_in_range rs l = (b, l') \<Longrightarrow> lex_left l' \<le> lex_left l"
  using next_bytes_loop_left [of rs "case current l of None \<Rightarrow> l | Some c \<Rightarrow> lex_add c l"]
  by (auto simp: next_byte_in_range_def split: option.splits)

lemma lex_left_message [simp]: "lex_left (l\<lparr>error_message := m\<rparr>) = lex_left l"
  by (simp add: lex_left_def)

lemma add_codepoint_left [simp]: "lex_left (add_codepoint cp l) = lex_left l"
proof -
  have "lex_left (fold (\<lambda>b. lex_add (char_of b)) bs l) = lex_left l" for bs :: "nat list"
    by (induction bs arbitrary: l) simp_all
  then show ?thesis by (simp add: add_codepoint_def)
qed

lemma scan_unicode_left: "scan_unicode l = (b, l') \<Longrightarrow> lex_left l' \<le> lex_left l"
  unfolding scan_unicode_def Let_def
  by (auto split: prod.splits option.splits if_splits dest!: get_codepoint_left
      intro: order_trans [OF _ lex_left_get_le] order_trans)
    (meson lex_left_get_le order_trans)+

lemma scan_escape_left: "scan_escape l = (b, l') \<Longrightarrow> lex_left l' \<le> lex_left l"
  unfolding scan_escape_def Let_def
  using lex_left_get_le [of l]
  by (auto split: option.splits if_splits dest!: scan_unicode_left)

text \<open>
  The loop of \<open>scan_string()\<close>. One turn either ends the token (\<open>Inl\<close>) or asks for another turn
  (\<open>Inr\<close>).
\<close>

definition scan_string_step :: "lexer \<Rightarrow> (token_type \<times> lexer) + lexer" where
  "scan_string_step l0 =
     (let l = lex_get l0
      in case current l of
           None \<Rightarrow> Inl (lex_error ''invalid string: missing closing quote'' l)
         | Some c \<Rightarrow>
             if c = CHR 0x22 then Inl (T_value_string, l)
             else if c = CHR 0x5C then
               (case scan_escape l of (ok, l') \<Rightarrow> if ok then Inr l' else Inl (T_parse_error, l'))
             else if byte_of c < 0x20 then Inl (lex_error (control_msg (byte_of c)) l)
             else
               (case lead_ranges (byte_of c) of
                  None \<Rightarrow> Inl (lex_error ''invalid string: ill-formed UTF-8 byte'' l)
                | Some rs \<Rightarrow>
                    (case next_byte_in_range rs l of
                       (ok, l') \<Rightarrow> if ok then Inr l' else Inl (T_parse_error, l'))))"

lemma scan_string_step_Inr:
  assumes "scan_string_step l0 = Inr l'"
  shows "lex_left l' < lex_left l0"
proof -
  have cur: "current (lex_get l0) \<noteq> None"
    using assms by (auto simp: scan_string_step_def Let_def split: option.splits)
  have "lex_left l' \<le> lex_left (lex_get l0)"
    using assms cur
    by (auto simp: scan_string_step_def Let_def split: if_splits prod.splits option.splits
        dest: scan_escape_left next_byte_in_range_left)
  also have "lex_left (lex_get l0) < lex_left l0"
    using cur by (rule lex_left_get_less)
  finally show ?thesis .
qed

lemma scan_string_step_Inl:
  assumes "scan_string_step l0 = Inl (t, l')"
  shows "lex_left l' \<le> lex_left l0"
proof -
  have "lex_left l' \<le> lex_left (lex_get l0)"
    using assms
    by (auto simp: scan_string_step_def Let_def lex_error_def
        split: if_splits prod.splits option.splits dest: scan_escape_left next_byte_in_range_left)
  also have "lex_left (lex_get l0) \<le> lex_left l0" by (rule lex_left_get_le)
  finally show ?thesis .
qed

function scan_string_loop :: "lexer \<Rightarrow> token_type \<times> lexer" where
  "scan_string_loop l = (case scan_string_step l of Inl r \<Rightarrow> r | Inr l' \<Rightarrow> scan_string_loop l')"
  by pat_completeness auto
termination
  by (relation "measure lex_left") (auto dest: scan_string_step_Inr)

declare scan_string_loop.simps [simp del]

definition scan_string :: "lexer \<Rightarrow> token_type \<times> lexer" where
  "scan_string l = scan_string_loop (lex_reset l)"

lemma scan_string_loop_left: "lex_left (snd (scan_string_loop l)) \<le> lex_left l"
proof (induction l rule: scan_string_loop.induct)
  case (1 l)
  show ?case
  proof (cases "scan_string_step l")
    case (Inl r)
    then show ?thesis
      by (subst scan_string_loop.simps) (cases r, auto dest: scan_string_step_Inl)
  next
    case (Inr l')
    with "1.IH" scan_string_step_Inr [OF Inr] show ?thesis
      by (subst scan_string_loop.simps) simp
  qed
qed

section \<open>Numbers\<close>

text \<open>
  \<open>scan_number()\<close>: the labels of its state machine, reached after the byte that led there was added.
  One turn reads a byte and moves (\<open>Inr\<close>), is done (\<open>Inl True\<close>) or fails (\<open>Inl False\<close>).
\<close>

datatype num_state =
    N_minus
  | N_zero
  | N_any1
  | N_decimal1
  | N_decimal2
  | N_exponent
  | N_sign
  | N_any2

text \<open>The \<open>number_type\<close> on entry to a label: three labels overwrite it.\<close>

fun number_type_at :: "num_state \<Rightarrow> token_type \<Rightarrow> token_type" where
  "number_type_at N_minus t = T_value_integer"
| "number_type_at N_decimal1 t = T_value_float"
| "number_type_at N_exponent t = T_value_float"
| "number_type_at _ t = t"

definition opt_digit :: "char option \<Rightarrow> bool" where
  "opt_digit co \<longleftrightarrow> (case co of None \<Rightarrow> False | Some c \<Rightarrow> is_digit c)"

definition add_current :: "lexer \<Rightarrow> lexer" where
  "add_current l = (case current l of None \<Rightarrow> l | Some c \<Rightarrow> lex_add c l)"

definition num_error :: "string \<Rightarrow> lexer \<Rightarrow> bool \<times> lexer" where
  "num_error msg l = (False, l\<lparr>error_message := msg\<rparr>)"

definition scan_number_step :: "num_state \<Rightarrow> lexer \<Rightarrow> (bool \<times> lexer) + (num_state \<times> lexer)" where
  "scan_number_step st l0 =
     (let l = lex_get l0; c = current l; go = (\<lambda>st'. Inr (st', add_current l))
      in case st of
           N_minus \<Rightarrow>
             if c = Some (CHR ''0'') then go N_zero
             else if opt_digit c then go N_any1
             else Inl (num_error (''invalid number; expected digit after '' @ in_quotes ''-'') l)
         | N_zero \<Rightarrow>
             if c = Some (CHR ''.'') then go N_decimal1
             else if c = Some (CHR ''e'') \<or> c = Some (CHR ''E'') then go N_exponent
             else Inl (True, l)
         | N_any1 \<Rightarrow>
             if opt_digit c then go N_any1
             else if c = Some (CHR ''.'') then go N_decimal1
             else if c = Some (CHR ''e'') \<or> c = Some (CHR ''E'') then go N_exponent
             else Inl (True, l)
         | N_decimal1 \<Rightarrow>
             if opt_digit c then go N_decimal2
             else Inl (num_error (''invalid number; expected digit after '' @ in_quotes ''.'') l)
         | N_decimal2 \<Rightarrow>
             if opt_digit c then go N_decimal2
             else if c = Some (CHR ''e'') \<or> c = Some (CHR ''E'') then go N_exponent
             else Inl (True, l)
         | N_exponent \<Rightarrow>
             if c = Some (CHR ''+'') \<or> c = Some (CHR ''-'') then go N_sign
             else if opt_digit c then go N_any2
             else Inl (num_error (''invalid number; expected '' @ in_quotes ''+'' @ '', '' @
                    in_quotes ''-'' @ '', or digit after exponent'') l)
         | N_sign \<Rightarrow>
             if opt_digit c then go N_any2
             else Inl (num_error ''invalid number; expected digit after exponent sign'' l)
         | N_any2 \<Rightarrow>
             if opt_digit c then go N_any2
             else Inl (True, l))"

lemma lex_left_add_current [simp]: "lex_left (add_current l) = lex_left l"
  by (simp add: add_current_def split: option.splits)

lemma opt_digit_None [simp]: "\<not> opt_digit None"
  by (simp add: opt_digit_def)

lemma scan_number_step_Inr:
  assumes "scan_number_step st l0 = Inr (st', l')"
  shows "lex_left l' < lex_left l0"
proof -
  have "current (lex_get l0) \<noteq> None \<and> lex_left l' = lex_left (lex_get l0)"
    using assms
    by (cases "current (lex_get l0)"; cases st)
      (auto simp: scan_number_step_def Let_def split: if_splits)
  then show ?thesis using lex_left_get_less [of l0] by simp
qed

lemma scan_number_step_Inl:
  assumes "scan_number_step st l0 = Inl (b, l')"
  shows "lex_left l' = lex_left (lex_get l0)"
  using assms
  by (cases st) (auto simp: scan_number_step_def num_error_def Let_def split: if_splits)

function scan_number_loop :: "num_state \<Rightarrow> token_type \<Rightarrow> lexer \<Rightarrow> bool \<times> token_type \<times> lexer" where
  "scan_number_loop st t l =
     (case scan_number_step st l of
        Inl (ok, l') \<Rightarrow> (ok, number_type_at st t, l')
      | Inr (st', l') \<Rightarrow> scan_number_loop st' (number_type_at st t) l')"
  by pat_completeness auto
termination
  by (relation "measure (\<lambda>(st, t, l). lex_left l)") (auto dest: scan_number_step_Inr)

declare scan_number_loop.simps [simp del]

subsection \<open>The value of a number token\<close>

text \<open>
  \<open>strtoull\<close>, \<open>strtoll\<close> and \<open>strtod\<close> of the C library on the texts this scanner accepts. \<open>strtod\<close> rounds
  the exact decimal value to the nearest double, ties to even, and gives infinity on overflow.
\<close>

fun bit_length :: "nat \<Rightarrow> nat" where
  "bit_length n = (if n = 0 then 0 else Suc (bit_length (n div 2)))"

declare bit_length.simps [simp del]

definition round_half_even :: "nat \<Rightarrow> nat \<Rightarrow> nat" where
  "round_half_even num den =
     (let q = num div den; r = num mod den
      in if 2 * r < den then q else if den < 2 * r then Suc q else if even q then q else Suc q)"

definition double_of_ratio :: "bool \<Rightarrow> nat \<Rightarrow> nat \<Rightarrow> u64" where
  "double_of_ratio neg num den =
     (let sgn = (if neg then 2 ^ 63 else 0);
          e0 = int (bit_length num) - int (bit_length den);
          fits = (if 0 \<le> e0 then den * 2 ^ nat e0 \<le> num else den \<le> num * 2 ^ nat (- e0));
          e = max (if fits then e0 else e0 - 1) (- 1022);
          s = 52 - e;
          m = (if 0 \<le> s then round_half_even (num * 2 ^ nat s) den
               else round_half_even num (den * 2 ^ nat (- s)));
          bits = nat (e + 1022) * 2 ^ 52 + m
      in if num = 0 then of_nat sgn
         else of_nat (sgn + min bits (2047 * 2 ^ 52)))"

definition split_number :: "string \<Rightarrow> bool \<times> string \<times> string \<times> int" where
  "split_number s =
     (let neg = (case s of [] \<Rightarrow> False | c # _ \<Rightarrow> c = CHR ''-'');
          s1 = (if neg then tl s else s);
          ds = takeWhile is_digit s1; r1 = dropWhile is_digit s1;
          fs = (case r1 of [] \<Rightarrow> [] | c # cs \<Rightarrow> if c = CHR ''.'' then takeWhile is_digit cs else []);
          r2 = (case r1 of [] \<Rightarrow> [] | c # cs \<Rightarrow> if c = CHR ''.'' then dropWhile is_digit cs else r1);
          ex = (case r2 of
                  [] \<Rightarrow> 0
                | _ # cs \<Rightarrow>
                    (case cs of
                       [] \<Rightarrow> 0
                     | c # ds' \<Rightarrow>
                         if c = CHR ''-'' then - int (digits_value ds')
                         else if c = CHR ''+'' then int (digits_value ds')
                         else int (digits_value cs)))
      in (neg, ds, fs, ex))"

definition strtod :: "string \<Rightarrow> u64" where
  "strtod s =
     (case split_number s of
        (neg, ds, fs, ex) \<Rightarrow>
          (let m = digits_value (ds @ fs); e10 = ex - int (length fs)
           in if 0 \<le> e10 then double_of_ratio neg (m * 10 ^ nat e10) 1
              else double_of_ratio neg m (10 ^ nat (- e10))))"

definition is_finite_double :: "u64 \<Rightarrow> bool" where
  "is_finite_double b \<longleftrightarrow> (unat b div 2 ^ 52) mod 2048 \<noteq> 2047"

text \<open>\<open>scan_number_done\<close>.\<close>

definition finish_number :: "token_type \<Rightarrow> lexer \<Rightarrow> token_type \<times> lexer" where
  "finish_number t l0 =
     (let l = lex_unget l0; s = token_buffer l; n = digits_value s; m = digits_value (tl s)
      in if t = T_value_unsigned \<and> n < 2 ^ 64
         then (T_value_unsigned, l\<lparr>value_unsigned := of_nat n\<rparr>)
         else if t = T_value_integer \<and> m \<le> 2 ^ 63
         then (T_value_integer, l\<lparr>value_integer := - of_nat m\<rparr>)
         else (T_value_float, l\<lparr>value_float := strtod s\<rparr>))"

definition scan_number :: "lexer \<Rightarrow> token_type \<times> lexer" where
  "scan_number l0 =
     (let l = add_current (lex_reset l0);
          st = (if current l0 = Some (CHR ''-'') then N_minus
                else if current l0 = Some (CHR ''0'') then N_zero else N_any1)
      in case scan_number_loop st T_value_unsigned l of
           (ok, t, l') \<Rightarrow> if ok then finish_number t l' else (T_parse_error, l'))"

text \<open>Ungetting gives back at most the byte just read.\<close>

lemma lex_left_unget_get: "lex_left (lex_unget (lex_get l)) \<le> lex_left l"
  by (cases "current (lex_get l)")
    (auto simp: lex_left_def lex_unget_def Let_def lex_get_fields split: if_splits list.splits)

lemma scan_number_loop_left:
  "scan_number_loop st t l = (True, t', l') \<Longrightarrow> lex_left (lex_unget l') \<le> lex_left l"
proof (induction st t l rule: scan_number_loop.induct)
  case (1 st t l)
  show ?case
  proof (cases "scan_number_step st l")
    case (Inl r)
    then have "scan_number_step st l = Inl (True, l')"
      using "1.prems" by (cases r) (simp add: scan_number_loop.simps [of st t l])
    then have "l' = lex_get l"
      by (cases st) (auto simp: scan_number_step_def num_error_def Let_def split: if_splits)
    then show ?thesis by (simp add: lex_left_unget_get)
  next
    case (Inr r)
    obtain st1 l1 where r: "r = (st1, l1)" by force
    then have "scan_number_loop st1 (number_type_at st t) l1 = (True, t', l')"
      using "1.prems" Inr by (simp add: scan_number_loop.simps [of st t l])
    then have "lex_left (lex_unget l') \<le> lex_left l1"
      using "1.IH" Inr r by blast
    also have "\<dots> < lex_left l" using Inr r by (simp add: scan_number_step_Inr)
    finally show ?thesis by simp
  qed
qed

lemma finish_number_left: "lex_left (snd (finish_number t l)) = lex_left (lex_unget l)"
  by (simp add: finish_number_def Let_def lex_left_def)

lemma scan_number_left:
  "scan_number l0 = (t, l') \<Longrightarrow> t \<noteq> T_parse_error \<Longrightarrow> lex_left l' \<le> lex_left l0"
  by (auto simp: scan_number_def Let_def split: prod.splits if_splits
      dest!: scan_number_loop_left)
    (metis finish_number_left lex_left_add_current lex_left_reset snd_conv)+

section \<open>The scanner\<close>

fun scan_literal_loop :: "string \<Rightarrow> token_type \<Rightarrow> lexer \<Rightarrow> token_type \<times> lexer" where
  "scan_literal_loop [] t l = (t, l)"
| "scan_literal_loop (c # cs) t l =
     (let l' = lex_get l
      in if current l' = Some c then scan_literal_loop cs t l' else lex_error ''invalid literal'' l')"

definition scan_literal :: "string \<Rightarrow> token_type \<Rightarrow> lexer \<Rightarrow> token_type \<times> lexer" where
  "scan_literal lit t l = scan_literal_loop (tl lit) t l"

lemma scan_literal_left: "lex_left (snd (scan_literal lit t l)) \<le> lex_left l"
proof -
  have "lex_left (snd (scan_literal_loop cs t l)) \<le> lex_left l" for cs
  proof (induction cs arbitrary: l)
    case (Cons c cs)
    have le: "lex_left (lex_get l) \<le> lex_left l" by (rule lex_left_get_le)
    with Cons [of "lex_get l"] show ?case by (auto simp: Let_def)
  qed simp
  then show ?thesis by (simp add: scan_literal_def)
qed

definition skip_bom :: "lexer \<Rightarrow> bool \<times> lexer" where
  "skip_bom l0 =
     (let l = lex_get l0
      in if current l = Some (CHR 0xEF) then
           (let l1 = lex_get l
            in if current l1 = Some (CHR 0xBB)
               then (let l2 = lex_get l1 in (current l2 = Some (CHR 0xBF), l2))
               else (False, l1))
         else (True, lex_unget l))"

lemma skip_bom_left: "skip_bom l = (b, l') \<Longrightarrow> lex_left l' \<le> lex_left l"
  using lex_left_get_le [of l] lex_left_get_le [of "lex_get l"]
    lex_left_get_le [of "lex_get (lex_get l)"] lex_left_unget_get [of l]
  by (auto simp: skip_bom_def Let_def split: if_splits)

definition is_space :: "char option \<Rightarrow> bool" where
  "is_space co \<longleftrightarrow>
     co = Some (CHR '' '') \<or> co = Some (CHR 0x09) \<or> co = Some (CHR 0x0A) \<or> co = Some (CHR 0x0D)"

function skip_whitespace :: "lexer \<Rightarrow> lexer" where
  "skip_whitespace l =
     (let l' = lex_get l in if is_space (current l') then skip_whitespace l' else l')"
  by pat_completeness auto
termination
  by (relation "measure lex_left") (auto simp: is_space_def intro!: lex_left_get_less)

declare skip_whitespace.simps [simp del]

lemma skip_whitespace_left:
  "lex_left (skip_whitespace l) \<le> lex_left l \<and>
   (current (skip_whitespace l) \<noteq> None \<longrightarrow> lex_left (skip_whitespace l) < lex_left l)"
proof (induction l rule: skip_whitespace.induct)
  case (1 l)
  then show ?case
    using lex_left_get_le [of l] lex_left_get_less [of l]
    by (subst (1 2 3) skip_whitespace.simps) (auto simp: Let_def)
qed

definition scan_token :: "lexer \<Rightarrow> token_type \<times> lexer" where
  "scan_token l =
     (case current l of
        None \<Rightarrow> (T_end_of_input, l)
      | Some c \<Rightarrow>
          if c = CHR ''['' then (T_begin_array, l)
          else if c = CHR '']'' then (T_end_array, l)
          else if c = CHR ''{'' then (T_begin_object, l)
          else if c = CHR ''}'' then (T_end_object, l)
          else if c = CHR '':'' then (T_name_separator, l)
          else if c = CHR '','' then (T_value_separator, l)
          else if c = CHR ''t'' then scan_literal ''true'' T_literal_true l
          else if c = CHR ''f'' then scan_literal ''false'' T_literal_false l
          else if c = CHR ''n'' then scan_literal ''null'' T_literal_null l
          else if c = CHR 0x22 then scan_string l
          else if c = CHR ''-'' \<or> is_digit c then scan_number l
          else if c = CHR 0x00 then (T_end_of_input, l)
          else lex_error ''invalid literal'' l)"

definition scan :: "lexer \<Rightarrow> token_type \<times> lexer" where
  "scan l0 =
     (case (if chars_read_total l0 = 0 then skip_bom l0 else (True, l0)) of
        (ok, l) \<Rightarrow>
          if ok then scan_token (skip_whitespace l)
          else lex_error ''invalid BOM; must be 0xEF 0xBB 0xBF if given'' l)"

text \<open>
  Progress: a token that is neither the end of the input nor an error consumes at least one byte. This
  is the termination argument of the parser.
\<close>

lemma scan_token_left:
  assumes "scan_token l = (t, l')" and "t \<noteq> T_parse_error" and "t \<noteq> T_end_of_input"
  shows "lex_left l' \<le> lex_left l \<and> current l \<noteq> None"
proof -
  have "lex_left l' \<le> lex_left l" if "scan_string l = (t, l')"
    using that scan_string_loop_left [of "lex_reset l"] by (simp add: scan_string_def)
  moreover have "lex_left l' \<le> lex_left l" if "scan_literal lit tt l = (t, l')" for lit tt
    using that scan_literal_left [of lit tt l] by simp
  ultimately show ?thesis
    using assms scan_number_left [of l t l']
    by (auto simp: scan_token_def lex_error_def split: option.splits if_splits)
qed

lemma scan_left:
  assumes "scan l = (t, l')" and "t \<noteq> T_parse_error" and "t \<noteq> T_end_of_input"
  shows "lex_left l' < lex_left l"
proof -
  obtain ok l1 where 1: "(if chars_read_total l = 0 then skip_bom l else (True, l)) = (ok, l1)"
    by force
  then have "lex_left l1 \<le> lex_left l" by (auto split: if_splits dest: skip_bom_left)
  moreover have "scan_token (skip_whitespace l1) = (t, l')"
    using assms 1 by (auto simp: scan_def lex_error_def split: if_splits)
  then have "lex_left l' \<le> lex_left (skip_whitespace l1) \<and> current (skip_whitespace l1) \<noteq> None"
    using assms(2,3) by (rule scan_token_left)
  ultimately show ?thesis using skip_whitespace_left [of l1] by auto
qed

section \<open>Diagnostics\<close>

definition get_token_string :: "lexer \<Rightarrow> string" where
  "get_token_string l =
     concat (map (\<lambda>c. let b = byte_of c
                      in if b \<le> 0x1F then ''<U+00'' @ [hex_upper (b div 16), hex_upper (b mod 16)] @ ''>''
                         else [c]) (token_string l))"

end
