(* ===== verification/Json_Parser.thy ===== *)
theory Json_Parser
  imports Json_Lexer
begin

text \<open>
  The parser of \<open>nlohmann/json.hpp\<close>: \<open>parser::sax_parse_internal\<close> driving \<open>json_sax_dom_parser\<close>, and
  \<open>json::parse(s)\<close> with its defaults (no callback, exceptions on, no comments, no trailing commas).

  \<^item> \<open>states\<close> is the \<open>vector<bool>\<close> of open containers (head = \<open>back()\<close>, \<open>True\<close> = array);
  \<^item> \<open>ref_stack\<close> holds the open containers themselves: the code keeps pointers into the growing value,
    the model keeps the contents of each open container and attaches it to its parent when it closes.
    Nobody reads the parent in between, so the value built is the same;
  \<^item> \<open>handle_value\<close>, \<open>key\<close>, \<open>start_\<close>/\<open>end_\<close> are the SAX events; an error event throws, so it ends the
    parse with the exception.
\<close>

section \<open>State and SAX events\<close>

datatype frame =
    Arr_Frame "json list"
  | Obj_Frame "(string \<times> json) list" string

record json_parser =
  m_lexer :: lexer
  last_token :: token_type
  states :: "bool list"
  skip_to_state_evaluation :: bool
  ref_stack :: "frame list"
  root :: json

definition get_token :: "json_parser \<Rightarrow> json_parser" where
  "get_token p = (case scan (m_lexer p) of (t, l) \<Rightarrow> p\<lparr>last_token := t, m_lexer := l\<rparr>)"

fun handle_value_in :: "json \<Rightarrow> frame \<Rightarrow> frame" where
  "handle_value_in v (Arr_Frame xs) = Arr_Frame (xs @ [v])"
| "handle_value_in v (Obj_Frame m k) = Obj_Frame (obj_insert k v m) k"

definition handle_value :: "json \<Rightarrow> json_parser \<Rightarrow> json_parser" where
  "handle_value v p =
     (case ref_stack p of
        [] \<Rightarrow> p\<lparr>root := v\<rparr>
      | f # fs \<Rightarrow> p\<lparr>ref_stack := handle_value_in v f # fs\<rparr>)"

definition start_object :: "json_parser \<Rightarrow> json_parser" where
  "start_object p = p\<lparr>ref_stack := Obj_Frame [] [] # ref_stack p\<rparr>"

definition start_array :: "json_parser \<Rightarrow> json_parser" where
  "start_array p = p\<lparr>ref_stack := Arr_Frame [] # ref_stack p\<rparr>"

definition sax_key :: "string \<Rightarrow> json_parser \<Rightarrow> json_parser" where
  "sax_key k p =
     (case ref_stack p of
        Obj_Frame m _ # fs \<Rightarrow>
          p\<lparr>ref_stack := Obj_Frame (if map_of m k = None then obj_insert k JNull m else m) k # fs\<rparr>
      | _ \<Rightarrow> p)"

fun frame_value :: "frame \<Rightarrow> json" where
  "frame_value (Arr_Frame xs) = JArray xs"
| "frame_value (Obj_Frame m k) = JObject m"

text \<open>\<open>end_object()\<close> and \<open>end_array()\<close>: close the innermost container.\<close>

definition end_container :: "json_parser \<Rightarrow> json_parser" where
  "end_container p =
     (case ref_stack p of
        [] \<Rightarrow> p
      | f # fs \<Rightarrow> handle_value (frame_value f) (p\<lparr>ref_stack := fs\<rparr>))"

section \<open>Errors\<close>

definition exception_message :: "json_parser \<Rightarrow> token_type \<Rightarrow> string \<Rightarrow> string" where
  "exception_message p expected context =
     ''syntax error '' @ (if context \<noteq> [] then ''while parsing '' @ context @ '' '' else []) @ ''- '' @
     (if last_token p = T_parse_error
      then error_message (m_lexer p) @ ''; last read: '' @ in_quotes (get_token_string (m_lexer p))
      else ''unexpected '' @ token_type_name (last_token p)) @
     (if expected \<noteq> T_uninitialized then ''; expected '' @ token_type_name expected else [])"

definition parse_error_101 :: "json_parser \<Rightarrow> string \<Rightarrow> json_error" where
  "parse_error_101 p arg =
     create_parse_error 101 (lines_read (m_lexer p)) (chars_read_current_line (m_lexer p)) arg"

definition syntax_error :: "json_parser \<Rightarrow> token_type \<Rightarrow> string \<Rightarrow> json_error" where
  "syntax_error p expected context = parse_error_101 p (exception_message p expected context)"

section \<open>One turn of the loop\<close>

text \<open>
  The object key and its separator, then the first token of the member's value. Used after \<open>{\<close> and
  after a comma inside an object.
\<close>

definition parse_key :: "json_parser \<Rightarrow> json_error + json_parser" where
  "parse_key p =
     (if last_token p \<noteq> T_value_string
      then Inl (syntax_error p T_value_string ''object key'')
      else (let p1 = get_token (sax_key (token_buffer (m_lexer p)) p)
            in if last_token p1 \<noteq> T_name_separator
               then Inl (syntax_error p1 T_name_separator ''object separator'')
               else Inr p1))"

text \<open>
  The switch on the last token: \<open>Inr (True, p)\<close> leaves it by \<open>break\<close> with a complete value,
  \<open>Inr (False, p)\<close> by \<open>continue\<close> to parse a nested value.
\<close>

definition sax_value :: "json_parser \<Rightarrow> json_error + (bool \<times> json_parser)" where
  "sax_value p =
     (let l = m_lexer p; value = (\<lambda>v. Inr (True, handle_value v p))
      in case last_token p of
           T_begin_object \<Rightarrow>
             (let p1 = get_token (start_object p)
              in if last_token p1 = T_end_object then Inr (True, end_container p1)
                 else (case parse_key p1 of
                         Inl e \<Rightarrow> Inl e
                       | Inr p2 \<Rightarrow> Inr (False, get_token (p2\<lparr>states := False # states p2\<rparr>))))
         | T_begin_array \<Rightarrow>
             (let p1 = get_token (start_array p)
              in if last_token p1 = T_end_array then Inr (True, end_container p1)
                 else Inr (False, p1\<lparr>states := True # states p1\<rparr>))
         | T_value_float \<Rightarrow>
             if is_finite_double (value_float l) then value (JFloat (value_float l))
             else Inl (create_out_of_range 406
                    (''number overflow parsing '' @ in_quotes (get_token_string l)))
         | T_literal_false \<Rightarrow> value (JBoolean False)
         | T_literal_null \<Rightarrow> value JNull
         | T_literal_true \<Rightarrow> value (JBoolean True)
         | T_value_integer \<Rightarrow> value (JInteger (value_integer l))
         | T_value_string \<Rightarrow> value (JString (token_buffer l))
         | T_value_unsigned \<Rightarrow> value (JUnsigned (value_unsigned l))
         | T_parse_error \<Rightarrow> Inl (syntax_error p T_uninitialized ''value'')
         | T_end_of_input \<Rightarrow>
             if chars_read_total l = 1
             then Inl (parse_error_101 p
                    (''attempting to parse an empty input; check that your input string or stream '' @
                     ''contains the expected JSON''))
             else Inl (syntax_error p T_literal_or_value ''value'')
         | _ \<Rightarrow> Inl (syntax_error p T_literal_or_value ''value''))"

text \<open>After a complete value: the end of the text (\<open>Inl\<close>), or another turn (\<open>Inr\<close>).\<close>

definition close_container :: "json_parser \<Rightarrow> json_parser" where
  "close_container p =
     (end_container p)\<lparr>states := tl (states p), skip_to_state_evaluation := True\<rparr>"

definition sax_state :: "json_parser \<Rightarrow> (json_error + json_parser) + json_parser" where
  "sax_state p =
     (case states p of
        [] \<Rightarrow> Inl (Inr p)
      | True # _ \<Rightarrow>
          (let p1 = get_token p
           in if last_token p1 = T_value_separator then Inr (get_token p1)
              else if last_token p1 = T_end_array then Inr (close_container p1)
              else Inl (Inl (syntax_error p1 T_end_array ''array'')))
      | False # _ \<Rightarrow>
          (let p1 = get_token p
           in if last_token p1 = T_value_separator
              then (case parse_key (get_token p1) of
                      Inl e \<Rightarrow> Inl (Inl e)
                    | Inr p2 \<Rightarrow> Inr (get_token p2))
              else if last_token p1 = T_end_object then Inr (close_container p1)
              else Inl (Inl (syntax_error p1 T_end_object ''object''))))"

definition sax_turn :: "json_parser \<Rightarrow> (json_error + json_parser) + json_parser" where
  "sax_turn p =
     (if skip_to_state_evaluation p then sax_state (p\<lparr>skip_to_state_evaluation := False\<rparr>)
      else (case sax_value p of
              Inl e \<Rightarrow> Inl (Inl e)
            | Inr (complete, p') \<Rightarrow> if complete then sax_state p' else Inr p'))"

section \<open>The loop terminates\<close>

definition terminal_token :: "token_type \<Rightarrow> bool" where
  "terminal_token t \<longleftrightarrow> t = T_parse_error \<or> t = T_end_of_input"

text \<open>
  Input left, weighted so that a turn that reads nothing (it only moves on from a complete value) still
  makes progress; a turn on an error or on the end of the input is the last one.
\<close>

definition parser_left :: "json_parser \<Rightarrow> nat" where
  "parser_left p =
     (if skip_to_state_evaluation p then 2 * lex_left (m_lexer p) + 2
      else if terminal_token (last_token p) then 0
      else 2 * lex_left (m_lexer p) + 3)"

abbreviation left :: "json_parser \<Rightarrow> nat" where
  "left p \<equiv> lex_left (m_lexer p)"

lemma get_token_fields [simp]:
  "states (get_token p) = states p"
  "skip_to_state_evaluation (get_token p) = skip_to_state_evaluation p"
  "ref_stack (get_token p) = ref_stack p"
  "root (get_token p) = root p"
  by (simp_all add: get_token_def split: prod.splits)

lemma get_token_left:
  "\<not> terminal_token (last_token (get_token p)) \<Longrightarrow> left (get_token p) < left p"
  by (auto simp: get_token_def terminal_token_def split: prod.splits dest: scan_left)

lemma events_keep [simp]:
  "m_lexer (handle_value v p) = m_lexer p" "last_token (handle_value v p) = last_token p"
  "states (handle_value v p) = states p"
  "skip_to_state_evaluation (handle_value v p) = skip_to_state_evaluation p"
  "m_lexer (start_object p) = m_lexer p" "states (start_object p) = states p"
  "skip_to_state_evaluation (start_object p) = skip_to_state_evaluation p"
  "m_lexer (start_array p) = m_lexer p" "states (start_array p) = states p"
  "skip_to_state_evaluation (start_array p) = skip_to_state_evaluation p"
  "m_lexer (sax_key k p) = m_lexer p" "states (sax_key k p) = states p"
  "skip_to_state_evaluation (sax_key k p) = skip_to_state_evaluation p"
  by (simp_all add: handle_value_def start_object_def start_array_def sax_key_def
      split: list.splits frame.splits)

lemma end_container_keep [simp]:
  "m_lexer (end_container p) = m_lexer p" "last_token (end_container p) = last_token p"
  "states (end_container p) = states p"
  "skip_to_state_evaluation (end_container p) = skip_to_state_evaluation p"
  by (simp_all add: end_container_def split: list.splits)

lemma parse_key_left:
  "parse_key p = Inr p' \<Longrightarrow>
     left p' < left p \<and> skip_to_state_evaluation p' = skip_to_state_evaluation p"
  using get_token_left [of "sax_key (token_buffer (m_lexer p)) p"]
  by (auto simp: parse_key_def Let_def terminal_token_def split: if_splits)

lemma get_token_progress:
  "\<not> skip_to_state_evaluation p \<Longrightarrow> parser_left (get_token p) \<le> 2 * left p + 1"
  using get_token_left [of p] by (auto simp: parser_left_def)

lemma sax_value_True:
  "sax_value p = Inr (True, p') \<Longrightarrow>
     \<not> terminal_token (last_token p) \<and> left p' \<le> left p \<and>
     skip_to_state_evaluation p' = skip_to_state_evaluation p"
  using get_token_left [of "start_object p"] get_token_left [of "start_array p"]
  by (auto simp: sax_value_def Let_def terminal_token_def
      split: token_type.splits if_splits sum.splits)

lemma sax_value_False:
  "sax_value p = Inr (False, p') \<Longrightarrow> \<not> skip_to_state_evaluation p \<Longrightarrow>
     parser_left p' < parser_left p"
proof -
  assume v: "sax_value p = Inr (False, p')" and ns: "\<not> skip_to_state_evaluation p"
  have obj: "parser_left (get_token (p2\<lparr>states := S\<rparr>)) < 2 * left p + 3"
    if "parse_key (get_token (start_object p)) = Inr p2" "last_token (get_token (start_object p)) = T_value_string"
    for p2 S
  proof -
    have "left (get_token (start_object p)) < left p"
      using that(2) get_token_left [of "start_object p"] by (simp add: terminal_token_def)
    with parse_key_left [OF that(1)] ns get_token_progress [of "p2\<lparr>states := S\<rparr>"]
    show ?thesis by simp
  qed
  have key: "last_token q = T_value_string" if "parse_key q = Inr p2" for q p2
    using that by (auto simp: parse_key_def split: if_splits)
  have arr: "parser_left ((get_token (start_array p))\<lparr>states := S\<rparr>) < 2 * left p + 3" for S
    using get_token_left [of "start_array p"] ns by (auto simp: parser_left_def)
  show ?thesis
    using v ns obj key arr
    by (auto simp: sax_value_def Let_def parser_left_def [of p] terminal_token_def
        split: token_type.splits if_splits sum.splits)
qed

lemma sax_state_left:
  assumes s: "sax_state p = Inr p'" and ns: "\<not> skip_to_state_evaluation p"
  shows "parser_left p' < 2 * left p + 2"
proof -
  define p1 where "p1 = get_token p"
  have close: "parser_left (close_container p1) < 2 * left p + 2"
    if "last_token p1 = T_end_array \<or> last_token p1 = T_end_object"
    using that get_token_left [of p]
    by (auto simp: p1_def parser_left_def close_container_def terminal_token_def)
  have sep: "parser_left (get_token p1) < 2 * left p + 2"
    if "last_token p1 = T_value_separator"
    using that get_token_left [of p] get_token_progress [of p1] ns
    by (auto simp: p1_def terminal_token_def)
  have key: "parser_left (get_token p2) < 2 * left p + 2"
    if "last_token p1 = T_value_separator" "parse_key (get_token p1) = Inr p2" for p2
  proof -
    have "last_token (get_token p1) = T_value_string"
      using that(2) by (auto simp: parse_key_def split: if_splits)
    then have "left (get_token p1) < left p1"
      using get_token_left [of p1] by (simp add: terminal_token_def)
    moreover have "left p1 < left p"
      using that(1) get_token_left [of p] by (simp add: p1_def terminal_token_def)
    ultimately show ?thesis
      using parse_key_left [OF that(2)] get_token_progress [of p2] ns by (simp add: p1_def)
  qed
  show ?thesis
    using s close sep key
    by (auto simp: sax_state_def Let_def p1_def [symmetric]
        split: list.splits bool.splits if_splits sum.splits)
qed

lemma sax_turn_left: "sax_turn p = Inr p' \<Longrightarrow> parser_left p' < parser_left p"
proof -
  assume t: "sax_turn p = Inr p'"
  show ?thesis
  proof (cases "skip_to_state_evaluation p")
    case True
    then show ?thesis
      using t sax_state_left [of "p\<lparr>skip_to_state_evaluation := False\<rparr>" p']
      by (simp add: sax_turn_def parser_left_def)
  next
    case False
    then obtain c p1 where v: "sax_value p = Inr (c, p1)"
      and r: "if c then sax_state p1 = Inr p' else p' = p1"
      using t by (auto simp: sax_turn_def split: sum.splits prod.splits if_splits)
    show ?thesis
    proof (cases c)
      case True
      with v have "\<not> terminal_token (last_token p)" "left p1 \<le> left p"
        "\<not> skip_to_state_evaluation p1"
        using sax_value_True [of p p1] False by auto
      with r True False show ?thesis
        using sax_state_left [of p1 p'] by (simp add: parser_left_def)
    next
      case c: False
      with v r False show ?thesis using sax_value_False [of p p1] by simp
    qed
  qed
qed

function sax_parse_internal :: "json_parser \<Rightarrow> json_error + json_parser" where
  "sax_parse_internal p =
     (case sax_turn p of Inl r \<Rightarrow> r | Inr p' \<Rightarrow> sax_parse_internal p')"
  by pat_completeness auto
termination
  by (relation "measure parser_left") (auto dest: sax_turn_left)

declare sax_parse_internal.simps [simp del]

section \<open>json::parse\<close>

definition init_parser :: "string \<Rightarrow> json_parser" where
  "init_parser s =
     get_token \<lparr>m_lexer = init_lexer s, last_token = T_uninitialized, states = [],
       skip_to_state_evaluation = False, ref_stack = [], root = JNull\<rparr>"

definition json_parse :: "string \<Rightarrow> json_error + json" where
  "json_parse s =
     (case sax_parse_internal (init_parser s) of
        Inl e \<Rightarrow> Inl e
      | Inr p \<Rightarrow>
          (let p' = get_token p
           in if last_token p' \<noteq> T_end_of_input
              then Inl (syntax_error p' T_end_of_input ''value'')
              else Inr (root p')))"

end
