(* ===== verification/Json_Dump.thy ===== *)
theory Json_Dump
  imports Json_Value
begin

unbundle bit_operations_syntax

text \<open>
  The serializer of \<open>nlohmann/json.hpp\<close> as \<open>json::dump()\<close> calls it: no indentation, \<open>ensure_ascii =
  false\<close>, error handler \<open>strict\<close>, so ill-formed UTF-8 throws \<open>type_error.316\<close>.

  The text of a double is the parameter \<open>dtoa\<close> (the Grisu2 conversion \<open>to_chars\<close>, not modelled). The
  internal 512-byte buffer is flushed in order, so the output is the plain concatenation of what is
  written; the model writes straight to the output.
\<close>

section \<open>The UTF-8 decoder\<close>

text \<open>The table \<open>utf8d\<close>: 256 byte classes, then nine rows of 16 next states.\<close>

definition utf8_type :: "nat \<Rightarrow> nat" where
  "utf8_type b =
     (if b < 0x80 then 0
      else if b < 0x90 then 1
      else if b < 0xA0 then 9
      else if b < 0xC0 then 7
      else if b < 0xC2 then 8
      else if b < 0xE0 then 2
      else if b = 0xE0 then 0xA
      else if b = 0xED then 4
      else if b < 0xF0 then 3
      else if b = 0xF0 then 0xB
      else if b < 0xF4 then 6
      else if b = 0xF4 then 5
      else 8)"

definition utf8_states :: "nat list list" where
  "utf8_states =
     [[0x0, 0x1, 0x2, 0x3, 0x5, 0x8, 0x7, 0x1, 0x1, 0x1, 0x4, 0x6, 0x1, 0x1, 0x1, 0x1],
      [1, 1, 1, 1, 1, 1, 1, 1, 1, 1, 1, 1, 1, 1, 1, 1],
      [1, 0, 1, 1, 1, 1, 1, 0, 1, 0, 1, 1, 1, 1, 1, 1],
      [1, 2, 1, 1, 1, 1, 1, 2, 1, 2, 1, 1, 1, 1, 1, 1],
      [1, 1, 1, 1, 1, 1, 1, 2, 1, 1, 1, 1, 1, 1, 1, 1],
      [1, 2, 1, 1, 1, 1, 1, 1, 1, 2, 1, 1, 1, 1, 1, 1],
      [1, 1, 1, 1, 1, 1, 1, 3, 1, 3, 1, 1, 1, 1, 1, 1],
      [1, 3, 1, 1, 1, 1, 1, 3, 1, 3, 1, 1, 1, 1, 1, 1],
      [1, 3, 1, 1, 1, 1, 1, 1, 1, 1, 1, 1, 1, 1, 1, 1]]"

definition UTF8_ACCEPT :: nat where "UTF8_ACCEPT = 0"
definition UTF8_REJECT :: nat where "UTF8_REJECT = 1"

text \<open>\<open>decode(state, codep, byte)\<close>: the new state and code point.\<close>

definition utf8_decode :: "nat \<Rightarrow> nat \<Rightarrow> nat \<Rightarrow> nat \<times> nat" where
  "utf8_decode state codep b =
     (let ty = utf8_type b;
          codep' = (if state \<noteq> UTF8_ACCEPT then (b AND 0x3F) OR push_bit 6 codep
                    else drop_bit ty 0xFF AND b)
      in (utf8_states ! state ! ty, codep'))"

section \<open>Escaping\<close>

definition hex_lower :: "nat \<Rightarrow> char" where
  "hex_lower d = (if d < 10 then char_of (48 + d) else char_of (87 + d))"

text \<open>The bytes written for an accepted code point whose last byte is \<open>c\<close>.\<close>

definition escape_codepoint :: "nat \<Rightarrow> char \<Rightarrow> string" where
  "escape_codepoint cp c =
     (if cp = 0x08 then [CHR 0x5C, CHR ''b'']
      else if cp = 0x09 then [CHR 0x5C, CHR ''t'']
      else if cp = 0x0A then [CHR 0x5C, CHR ''n'']
      else if cp = 0x0C then [CHR 0x5C, CHR ''f'']
      else if cp = 0x0D then [CHR 0x5C, CHR ''r'']
      else if cp = 0x22 then [CHR 0x5C, CHR 0x22]
      else if cp = 0x5C then [CHR 0x5C, CHR 0x5C]
      else if cp \<le> 0x1F
      then [CHR 0x5C, CHR ''u'', CHR ''0'', CHR ''0'', hex_lower (cp div 16), hex_lower (cp mod 16)]
      else [c])"

definition hex_bytes :: "nat \<Rightarrow> string" where
  "hex_bytes b =
     (let nib = (\<lambda>d. if d < 10 then char_of (48 + d) else char_of (55 + d))
      in [nib (b div 16), nib (b mod 16)])"

text \<open>
  The loop of \<open>dump_escaped\<close>: index, decoder state, code point and the bytes written so far. A byte of an
  incomplete character is copied at once; the last byte of the character is written on acceptance.
\<close>

fun dump_escaped_loop :: "string \<Rightarrow> nat \<Rightarrow> nat \<Rightarrow> nat \<Rightarrow> char \<Rightarrow> string \<Rightarrow> json_error + string" where
  "dump_escaped_loop [] i state cp prev out =
     (if state = UTF8_ACCEPT then Inr out
      else Inl (create_type_error 316
             (''incomplete UTF-8 string; last byte: 0x'' @ hex_bytes (of_char prev))))"
| "dump_escaped_loop (c # cs) i state cp prev out =
     (case utf8_decode state cp (of_char c) of
        (state', cp') \<Rightarrow>
          if state' = UTF8_ACCEPT
          then dump_escaped_loop cs (Suc i) state' cp' c (out @ escape_codepoint cp' c)
          else if state' = UTF8_REJECT
          then Inl (create_type_error 316
                 (''invalid UTF-8 byte at index '' @ dec_digits i @ '': 0x'' @ hex_bytes (of_char c)))
          else dump_escaped_loop cs (Suc i) state' cp' c (out @ [c]))"

definition dump_escaped :: "string \<Rightarrow> json_error + string" where
  "dump_escaped s = dump_escaped_loop s 0 UTF8_ACCEPT 0 (CHR 0x00) []"

definition dump_string :: "string \<Rightarrow> json_error + string" where
  "dump_string s =
     (case dump_escaped s of Inl e \<Rightarrow> Inl e | Inr t \<Rightarrow> Inr (CHR 0x22 # t @ [CHR 0x22]))"

section \<open>Values\<close>

text \<open>
  \<open>dump_integer\<close> writes plain decimal; \<open>dump_float\<close> writes a value that is not finite (all exponent
  bits set) as \<open>null\<close>.
\<close>

definition double_finite :: "u64 \<Rightarrow> bool" where
  "double_finite b \<longleftrightarrow> (unat b div 2 ^ 52) mod 2048 \<noteq> 2047"

fun dump_json :: "(u64 \<Rightarrow> string) \<Rightarrow> json \<Rightarrow> json_error + string"
  and dump_elems :: "(u64 \<Rightarrow> string) \<Rightarrow> json list \<Rightarrow> json_error + string"
  and dump_members :: "(u64 \<Rightarrow> string) \<Rightarrow> (string \<times> json) list \<Rightarrow> json_error + string"
where
  "dump_json dtoa JNull = Inr ''null''"
| "dump_json dtoa (JBoolean b) = Inr (if b then ''true'' else ''false'')"
| "dump_json dtoa (JString s) = dump_string s"
| "dump_json dtoa (JInteger w) = Inr (to_string_int (sint w))"
| "dump_json dtoa (JUnsigned w) = Inr (dec_digits (unat w))"
| "dump_json dtoa (JFloat b) = Inr (if double_finite b then dtoa b else ''null'')"
| "dump_json dtoa (JArray xs) =
     (if xs = [] then Inr ''[]''
      else (case dump_elems dtoa xs of Inl e \<Rightarrow> Inl e | Inr t \<Rightarrow> Inr (''['' @ t @ '']'')))"
| "dump_json dtoa (JObject m) =
     (if m = [] then Inr ''{}''
      else (case dump_members dtoa m of Inl e \<Rightarrow> Inl e | Inr t \<Rightarrow> Inr (''{'' @ t @ ''}'')))"
| "dump_elems dtoa [] = Inr []"
| "dump_elems dtoa (x # xs) =
     (case dump_json dtoa x of
        Inl e \<Rightarrow> Inl e
      | Inr t \<Rightarrow>
          if xs = [] then Inr t
          else (case dump_elems dtoa xs of Inl e \<Rightarrow> Inl e | Inr u \<Rightarrow> Inr (t @ '','' @ u)))"
| "dump_members dtoa [] = Inr []"
| "dump_members dtoa ((k, v) # m) =
     (case dump_string k of
        Inl e \<Rightarrow> Inl e
      | Inr kt \<Rightarrow>
          (case dump_json dtoa v of
             Inl e \<Rightarrow> Inl e
           | Inr t \<Rightarrow>
               if m = [] then Inr (kt @ '':'' @ t)
               else (case dump_members dtoa m of
                       Inl e \<Rightarrow> Inl e
                     | Inr u \<Rightarrow> Inr (kt @ '':'' @ t @ '','' @ u))))"

end
