(* ===== verification/Client_Manager.thy ===== *)
theory Client_Manager
  imports Prelude
begin

text \<open>
  \<open>server/src/domain/client/ClientManager.cpp\<close>: the table of connected clients (\<open>m_clients\<close>) and the
  set of nicknames in use (\<open>m_nicknames\<close>). Each method holds \<open>m_mutex\<close> and is one atomic function.
  \<open>getClient\<close> hands out a pointer into the table; what callers do through it (they write \<open>roomCode\<close> and
  \<open>recvBuffer\<close>) is \<open>update_client\<close>.
\<close>

section \<open>State and operations\<close>

record client_info =
  ci_fd :: fd
  ip :: string
  nickname :: string
  isAuthenticated :: bool
  recvBuffer :: string
  ci_roomCode :: string

record client_manager =
  m_clients :: "(fd \<times> client_info) list"
  m_nicknames :: "string set"

definition empty_client_manager :: client_manager where
  "empty_client_manager = \<lparr>m_clients = [], m_nicknames = {}\<rparr>"

definition new_client :: "fd \<Rightarrow> string \<Rightarrow> client_info" where
  "new_client f a =
     \<lparr>ci_fd = f, ip = a, nickname = [], isAuthenticated = False, recvBuffer = [], ci_roomCode = []\<rparr>"

definition addClient :: "fd \<Rightarrow> string \<Rightarrow> client_manager \<Rightarrow> client_manager" where
  "addClient f a m = m\<lparr>m_clients := AList.update f (new_client f a) (m_clients m)\<rparr>"

definition removeClient :: "fd \<Rightarrow> client_manager \<Rightarrow> client_manager" where
  "removeClient f m =
     (case map_of (m_clients m) f of
        None \<Rightarrow> m
      | Some c \<Rightarrow>
          m\<lparr>m_clients := AList.delete f (m_clients m),
            m_nicknames := (if isAuthenticated c then m_nicknames m - {nickname c} else m_nicknames m)\<rparr>)"

definition getClient :: "fd \<Rightarrow> client_manager \<Rightarrow> client_info option" where
  "getClient f m = map_of (m_clients m) f"

definition getAllAuthenticatedClientFds :: "fd \<Rightarrow> client_manager \<Rightarrow> fd list" where
  "getAllAuthenticatedClientFds exclude_fd m =
     map fst (filter (\<lambda>p. fst p \<noteq> exclude_fd \<and> isAuthenticated (snd p)) (m_clients m))"

definition isNicknameTaken :: "string \<Rightarrow> client_manager \<Rightarrow> bool" where
  "isNicknameTaken n m \<longleftrightarrow> n \<in> m_nicknames m"

definition setNickname :: "fd \<Rightarrow> string \<Rightarrow> client_manager \<Rightarrow> client_manager" where
  "setNickname f n m =
     (case map_of (m_clients m) f of
        None \<Rightarrow> m
      | Some c \<Rightarrow>
          m\<lparr>m_clients := AList.update f (c\<lparr>nickname := n, isAuthenticated := True\<rparr>) (m_clients m),
            m_nicknames := insert n (m_nicknames m)\<rparr>)"

definition removeNickname :: "string \<Rightarrow> client_manager \<Rightarrow> client_manager" where
  "removeNickname n m = m\<lparr>m_nicknames := m_nicknames m - {n}\<rparr>"

text \<open>A write through the pointer \<open>getClient\<close> returned.\<close>

definition update_client ::
  "fd \<Rightarrow> (client_info \<Rightarrow> client_info) \<Rightarrow> client_manager \<Rightarrow> client_manager" where
  "update_client f g m =
     (case map_of (m_clients m) f of
        None \<Rightarrow> m
      | Some c \<Rightarrow> m\<lparr>m_clients := AList.update f (g c) (m_clients m)\<rparr>)"

definition set_room :: "fd \<Rightarrow> string \<Rightarrow> client_manager \<Rightarrow> client_manager" where
  "set_room f code = update_client f (\<lambda>c. c\<lparr>ci_roomCode := code\<rparr>)"

definition set_buffer :: "fd \<Rightarrow> string \<Rightarrow> client_manager \<Rightarrow> client_manager" where
  "set_buffer f buf = update_client f (\<lambda>c. c\<lparr>recvBuffer := buf\<rparr>)"

section \<open>Lookups after each operation\<close>

lemma getClient_empty [client_simps]: "getClient f empty_client_manager = None"
  by (simp add: getClient_def empty_client_manager_def)

lemma getClient_addClient [client_simps]:
  "getClient g (addClient f a m) = (if g = f then Some (new_client f a) else getClient g m)"
  by (simp add: getClient_def addClient_def hm.find_insert)

lemma getClient_removeClient [client_simps]:
  "getClient g (removeClient f m) = (if g = f then None else getClient g m)"
  by (auto simp: getClient_def removeClient_def hm.find_erase split: option.splits)

lemma getClient_setNickname [client_simps]:
  "getClient g (setNickname f n m) =
     (if g = f then map_option (\<lambda>c. c\<lparr>nickname := n, isAuthenticated := True\<rparr>) (getClient f m)
      else getClient g m)"
  by (auto simp: getClient_def setNickname_def hm.find_insert split: option.splits)

lemma getClient_removeNickname [client_simps]: "getClient g (removeNickname n m) = getClient g m"
  by (simp add: getClient_def removeNickname_def)

lemma getClient_update_client [client_simps]:
  "getClient g (update_client f h m) =
     (if g = f then map_option h (getClient f m) else getClient g m)"
  by (auto simp: getClient_def update_client_def hm.find_insert split: option.splits)

lemma getClient_set_room [client_simps]:
  "getClient g (set_room f code m) =
     (if g = f then map_option (\<lambda>c. c\<lparr>ci_roomCode := code\<rparr>) (getClient f m) else getClient g m)"
  by (simp add: set_room_def getClient_update_client)

lemma getClient_set_buffer [client_simps]:
  "getClient g (set_buffer f b m) =
     (if g = f then map_option (\<lambda>c. c\<lparr>recvBuffer := b\<rparr>) (getClient f m) else getClient g m)"
  by (simp add: set_buffer_def getClient_update_client)

lemma m_nicknames_simps [client_simps]:
  "m_nicknames empty_client_manager = {}"
  "m_nicknames (addClient f a m) = m_nicknames m"
  "m_nicknames (update_client f h m) = m_nicknames m"
  "m_nicknames (set_room f code m) = m_nicknames m"
  "m_nicknames (set_buffer f b m) = m_nicknames m"
  by (simp_all add: empty_client_manager_def addClient_def update_client_def set_room_def
      set_buffer_def split: option.splits)

lemma m_nicknames_setNickname [client_simps]:
  "m_nicknames (setNickname f n m) =
     (if getClient f m = None then m_nicknames m else insert n (m_nicknames m))"
  by (auto simp: setNickname_def getClient_def split: option.splits)

section \<open>Well-formed tables\<close>

text \<open>
  The keys are distinct and agree with the \<open>fd\<close> field; an unauthenticated client has no nickname.
\<close>

definition cm_wf :: "client_manager \<Rightarrow> bool" where
  "cm_wf m \<longleftrightarrow>
     al_distinct (m_clients m) \<and>
     (\<forall>f c. getClient f m = Some c \<longrightarrow> ci_fd c = f \<and> (isAuthenticated c \<or> nickname c = []))"

lemma al_distinct_ops:
  assumes "al_distinct (m_clients m)"
  shows "al_distinct (m_clients (addClient f a m))"
    and "al_distinct (m_clients (removeClient f m))"
    and "al_distinct (m_clients (setNickname f n m))"
    and "al_distinct (m_clients (update_client f h m))"
  using assms
  by (auto simp: addClient_def removeClient_def setNickname_def update_client_def
      hm.keys_ok_insert hm.keys_ok_erase split: option.splits)

lemma cm_wf_empty [inv_intros]: "cm_wf empty_client_manager"
  by (simp add: cm_wf_def client_simps) (simp add: empty_client_manager_def)

lemma cm_wf_addClient [inv_intros]: "cm_wf m \<Longrightarrow> cm_wf (addClient f a m)"
  by (auto simp: cm_wf_def client_simps al_distinct_ops new_client_def split: if_splits)

lemma cm_wf_removeClient [inv_intros]: "cm_wf m \<Longrightarrow> cm_wf (removeClient f m)"
  by (auto simp: cm_wf_def client_simps al_distinct_ops split: if_splits)

lemma cm_wf_setNickname [inv_intros]: "cm_wf m \<Longrightarrow> cm_wf (setNickname f n m)"
  by (auto simp: cm_wf_def client_simps al_distinct_ops split: if_splits)

lemma cm_wf_update_client:
  assumes "cm_wf m"
    and "\<And>c. ci_fd (h c) = ci_fd c"
    and "\<And>c. isAuthenticated (h c) = isAuthenticated c \<and> nickname (h c) = nickname c"
  shows "cm_wf (update_client f h m)"
  using assms by (auto simp: cm_wf_def client_simps al_distinct_ops split: if_splits) blast

lemma cm_wf_set_room [inv_intros]: "cm_wf m \<Longrightarrow> cm_wf (set_room f code m)"
  unfolding set_room_def by (rule cm_wf_update_client) simp_all

lemma cm_wf_set_buffer [inv_intros]: "cm_wf m \<Longrightarrow> cm_wf (set_buffer f b m)"
  unfolding set_buffer_def by (rule cm_wf_update_client) simp_all

lemma set_authenticated_fds:
  "cm_wf m \<Longrightarrow> set (getAllAuthenticatedClientFds e m) =
     {f. f \<noteq> e \<and> (\<exists>c. getClient f m = Some c \<and> isAuthenticated c)}"
  unfolding cm_wf_def getAllAuthenticatedClientFds_def getClient_def
  by (auto simp: al_distinct_mem image_iff)

section \<open>Nicknames\<close>

text \<open>
  The contract the nickname handler needs: \<open>nick_of\<close> is the registered nickname of a client, \<open>taken\<close> the
  test it makes. \<open>covered\<close> says that every nickname in use is marked as taken, \<open>unique\<close> that no two
  clients share one. Setting a nickname that is not taken keeps both; removing a client keeps both, but
  needs \<open>unique\<close> to keep \<open>covered\<close>: the set does not count how many clients use a name.
\<close>

locale nickname_registry =
  fixes registered :: "'m \<Rightarrow> fd \<Rightarrow> bool"
    and nick_of :: "'m \<Rightarrow> fd \<Rightarrow> string option"
    and taken :: "string \<Rightarrow> 'm \<Rightarrow> bool"
    and set_nick :: "fd \<Rightarrow> string \<Rightarrow> 'm \<Rightarrow> 'm"
    and drop_client :: "fd \<Rightarrow> 'm \<Rightarrow> 'm"
  assumes nick_of_set:
      "nick_of (set_nick f n m) = (if registered m f then (nick_of m)(f \<mapsto> n) else nick_of m)"
    and taken_set: "taken s (set_nick f n m) \<longleftrightarrow> taken s m \<or> registered m f \<and> s = n"
    and nick_of_drop: "nick_of (drop_client f m) = (nick_of m)(f := None)"
    and taken_drop: "taken s (drop_client f m) \<longleftrightarrow> taken s m \<and> nick_of m f \<noteq> Some s"
begin

definition covered :: "'m \<Rightarrow> bool" where
  "covered m \<longleftrightarrow> (\<forall>f n. nick_of m f = Some n \<longrightarrow> taken n m)"

definition unique :: "'m \<Rightarrow> bool" where
  "unique m \<longleftrightarrow> (\<forall>f g n. nick_of m f = Some n \<longrightarrow> nick_of m g = Some n \<longrightarrow> f = g)"

lemma covered_set: "covered m \<Longrightarrow> covered (set_nick f n m)"
  by (auto simp: covered_def nick_of_set taken_set split: if_splits)

lemma unique_set: "covered m \<Longrightarrow> unique m \<Longrightarrow> \<not> taken n m \<Longrightarrow> unique (set_nick f n m)"
  unfolding covered_def unique_def nick_of_set by (auto split: if_splits)

lemma covered_drop: "covered m \<Longrightarrow> unique m \<Longrightarrow> covered (drop_client f m)"
  unfolding covered_def unique_def nick_of_drop taken_drop by (auto split: if_splits)

lemma unique_drop: "unique m \<Longrightarrow> unique (drop_client f m)"
  unfolding unique_def nick_of_drop by (auto split: if_splits)

lemma taken_after_set: "registered m f \<Longrightarrow> taken n (set_nick f n m)"
  by (simp add: taken_set)

lemma not_taken_after_drop: "nick_of m f = Some n \<Longrightarrow> \<not> taken n (drop_client f m)"
  by (simp add: taken_drop)

end

definition is_registered :: "client_manager \<Rightarrow> fd \<Rightarrow> bool" where
  "is_registered m f \<longleftrightarrow> getClient f m \<noteq> None"

definition nick_of_client :: "client_manager \<Rightarrow> fd \<Rightarrow> string option" where
  "nick_of_client m f =
     (case getClient f m of
        None \<Rightarrow> None
      | Some c \<Rightarrow> if isAuthenticated c then Some (nickname c) else None)"

lemma taken_removeClient:
  "isNicknameTaken s (removeClient f m) \<longleftrightarrow> isNicknameTaken s m \<and> nick_of_client m f \<noteq> Some s"
  by (auto simp: isNicknameTaken_def removeClient_def nick_of_client_def getClient_def
      split: option.splits)

interpretation nr: nickname_registry is_registered nick_of_client isNicknameTaken setNickname removeClient
proof (unfold_locales, goal_cases)
  case (1 f n m)
  show ?case
    by (auto simp: fun_eq_iff nick_of_client_def is_registered_def client_simps split: option.splits)
next
  case (2 s f n m)
  show ?case by (auto simp: isNicknameTaken_def is_registered_def client_simps)
next
  case (3 f m)
  show ?case by (auto simp: fun_eq_iff nick_of_client_def client_simps)
next
  case (4 s f m)
  show ?case by (rule taken_removeClient)
qed

text \<open>The two invariants of the registry, over the client table itself.\<close>

definition nicks_covered :: "client_manager \<Rightarrow> bool" where
  "nicks_covered m \<longleftrightarrow> (\<forall>f c. getClient f m = Some c \<and> isAuthenticated c \<longrightarrow> nickname c \<in> m_nicknames m)"

definition nicks_unique :: "client_manager \<Rightarrow> bool" where
  "nicks_unique m \<longleftrightarrow>
     (\<forall>f g c d. getClient f m = Some c \<and> getClient g m = Some d \<and> isAuthenticated c \<and> isAuthenticated d
        \<and> nickname c = nickname d \<longrightarrow> f = g)"

lemma nick_of_client_Some:
  "nick_of_client m f = Some n \<longleftrightarrow> (\<exists>c. getClient f m = Some c \<and> isAuthenticated c \<and> nickname c = n)"
  by (auto simp: nick_of_client_def split: option.splits)

lemma nicks_covered_iff: "nicks_covered m \<longleftrightarrow> nr.covered m"
  by (auto simp: nicks_covered_def nr.covered_def nick_of_client_Some isNicknameTaken_def)

lemma nicks_unique_iff: "nicks_unique m \<longleftrightarrow> nr.unique m"
  by (auto simp: nicks_unique_def nr.unique_def nick_of_client_Some)

lemmas nicks_iff = nicks_covered_iff nicks_unique_iff

definition cm_ok :: "client_manager \<Rightarrow> bool" where
  "cm_ok m \<longleftrightarrow> cm_wf m \<and> nicks_covered m \<and> nicks_unique m"

lemma cm_ok_empty [inv_intros]: "cm_ok empty_client_manager"
  by (simp add: cm_ok_def cm_wf_empty nicks_covered_def nicks_unique_def client_simps)

lemma cm_ok_addClient [inv_intros]: "cm_ok m \<Longrightarrow> cm_ok (addClient f a m)"
  unfolding cm_ok_def
  by (auto simp: cm_wf_addClient nicks_covered_def nicks_unique_def client_simps new_client_def
      split: if_splits)

lemma cm_ok_removeClient [inv_intros]: "cm_ok m \<Longrightarrow> cm_ok (removeClient f m)"
  by (simp add: cm_ok_def cm_wf_removeClient nicks_iff nr.covered_drop nr.unique_drop)

lemma cm_ok_setNickname [inv_intros]:
  "cm_ok m \<Longrightarrow> \<not> isNicknameTaken n m \<Longrightarrow> cm_ok (setNickname f n m)"
  by (simp add: cm_ok_def cm_wf_setNickname nicks_iff nr.covered_set nr.unique_set)

lemma nick_of_client_update:
  "(\<And>c. isAuthenticated (g c) = isAuthenticated c \<and> nickname (g c) = nickname c) \<Longrightarrow>
   nick_of_client (update_client f g m) = nick_of_client m"
  by (auto simp: fun_eq_iff nick_of_client_def client_simps split: option.splits)

lemma nr_update:
  assumes "\<And>c. isAuthenticated (g c) = isAuthenticated c \<and> nickname (g c) = nickname c"
  shows "nr.covered (update_client f g m) \<longleftrightarrow> nr.covered m"
    and "nr.unique (update_client f g m) \<longleftrightarrow> nr.unique m"
  by (simp_all add: nr.covered_def nr.unique_def nick_of_client_update [OF assms] isNicknameTaken_def
      client_simps)

lemma cm_ok_set_room [inv_intros]: "cm_ok m \<Longrightarrow> cm_ok (set_room f code m)"
  using nr_update [of "\<lambda>c. c\<lparr>ci_roomCode := code\<rparr>" f m]
  by (simp add: cm_ok_def cm_wf_set_room nicks_iff) (simp add: set_room_def)

lemma cm_ok_set_buffer [inv_intros]: "cm_ok m \<Longrightarrow> cm_ok (set_buffer f b m)"
  using nr_update [of "\<lambda>c. c\<lparr>recvBuffer := b\<rparr>" f m]
  by (simp add: cm_ok_def cm_wf_set_buffer nicks_iff) (simp add: set_buffer_def)

end
