(* ===== verification/Room_Manager.thy ===== *)
theory Room_Manager
  imports Prelude
begin

text \<open>
  \<open>server/src/domain/room\<close>: class \<open>Room\<close> (members, capacity) and class \<open>RoomManager\<close> (the table of rooms
  and the room codes). Each method runs under its mutex, so it is one atomic function.

  The random codes come from \<open>static std::mt19937 gen(rd())\<close> and a uniform distribution on 0..61. The
  model takes the sequence of its outputs as the parameter \<open>draw\<close>; \<open>rng_pos\<close> counts the outputs used.
  What the standard promises of the distribution, \<open>draw i \<le> 61\<close>, is the hypothesis \<open>fair_draws\<close>.
\<close>

section \<open>Room\<close>

record room =
  roomCode :: string
  roomName :: string
  maxUserCnt :: c_int
  clients :: "fd list"

datatype join_result = SUCCESS | ROOM_FULL | ALREADY_IN

definition new_room :: "string \<Rightarrow> string \<Rightarrow> c_int \<Rightarrow> room" where
  "new_room code name maxUsers =
     \<lparr>roomCode = code, roomName = name, maxUserCnt = maxUsers, clients = []\<rparr>"

text \<open>
  \<open>clients.size() >= maxUserCnt\<close> compares a \<open>size_t\<close> with an \<open>int\<close>, so the \<open>int\<close> is converted: a negative
  capacity becomes a huge one.
\<close>

definition capacity :: "room \<Rightarrow> u64" where
  "capacity r = scast (maxUserCnt r)"

definition acceptNewUser :: "fd \<Rightarrow> room \<Rightarrow> join_result \<times> room" where
  "acceptNewUser clientFd r =
     (if (of_nat (length (clients r)) :: u64) \<ge> capacity r then (ROOM_FULL, r)
      else if clientFd \<in> set (clients r) then (ALREADY_IN, r)
      else (SUCCESS, r\<lparr>clients := clients r @ [clientFd]\<rparr>))"

definition leaveUser :: "fd \<Rightarrow> room \<Rightarrow> room" where
  "leaveUser clientFd r = r\<lparr>clients := remove1 clientFd (clients r)\<rparr>"

section \<open>RoomManager\<close>

record room_manager =
  rooms :: "(string \<times> room) list"
  rng_pos :: nat

definition empty_room_manager :: room_manager where
  "empty_room_manager = \<lparr>rooms = [], rng_pos = 0\<rparr>"

definition MAX_ROOM_CNT :: c_int where "MAX_ROOM_CNT = 100"

definition room_chars :: string where
  "room_chars = ''abcdefghijklmnopqrstuvwxyz'' @ ''ABCDEFGHIJKLMNOPQRSTUVWXYZ'' @ ''0123456789''"

definition generateRoomCode :: "(nat \<Rightarrow> nat) \<Rightarrow> nat \<Rightarrow> string \<times> nat" where
  "generateRoomCode draw pos = (map (\<lambda>i. room_chars ! draw (pos + i)) [0..<8], pos + 8)"

text \<open>The \<open>do ... while\<close> of \<open>addRoom\<close>: at most 100 codes are tried.\<close>

function addRoom_loop ::
  "(nat \<Rightarrow> nat) \<Rightarrow> (string \<times> room) list \<Rightarrow> nat \<Rightarrow> nat \<Rightarrow> string option \<times> nat" where
  "addRoom_loop draw rs attempts pos =
     (case generateRoomCode draw pos of
        (code, pos') \<Rightarrow>
          if Suc attempts > 100 then (None, pos')
          else if map_of rs code \<noteq> None then addRoom_loop draw rs (Suc attempts) pos'
          else (Some code, pos'))"
  by pat_completeness auto
termination
  by (relation "measure (\<lambda>(draw, rs, attempts, pos). 101 - attempts)") auto

declare addRoom_loop.simps [simp del]

text \<open>The result is the room code, or the empty string on failure.\<close>

definition addRoom ::
  "(nat \<Rightarrow> nat) \<Rightarrow> string \<Rightarrow> c_int \<Rightarrow> room_manager \<Rightarrow> string \<times> room_manager" where
  "addRoom draw name maxUsers m =
     (if (of_nat (length (rooms m)) :: u64) \<ge> scast MAX_ROOM_CNT then ([], m)
      else (case addRoom_loop draw (rooms m) 0 (rng_pos m) of
              (None, pos) \<Rightarrow> ([], m\<lparr>rng_pos := pos\<rparr>)
            | (Some code, pos) \<Rightarrow>
                (code, m\<lparr>rooms := AList.update code (new_room code name maxUsers) (rooms m),
                         rng_pos := pos\<rparr>)))"

definition removeRoom :: "string \<Rightarrow> room_manager \<Rightarrow> room_manager" where
  "removeRoom code m = m\<lparr>rooms := AList.delete code (rooms m)\<rparr>"

definition joinRoom :: "fd \<Rightarrow> string \<Rightarrow> room_manager \<Rightarrow> bool \<times> room_manager" where
  "joinRoom clientFd code m =
     (case map_of (rooms m) code of
        None \<Rightarrow> (False, m)
      | Some r \<Rightarrow>
          (case acceptNewUser clientFd r of
             (res, r') \<Rightarrow> (res = SUCCESS, m\<lparr>rooms := AList.update code r' (rooms m)\<rparr>)))"

definition leaveRoom :: "fd \<Rightarrow> string \<Rightarrow> room_manager \<Rightarrow> room_manager" where
  "leaveRoom clientFd code m =
     (case map_of (rooms m) code of
        None \<Rightarrow> m
      | Some r \<Rightarrow>
          (let r' = leaveUser clientFd r;
               m' = m\<lparr>rooms := AList.update code r' (rooms m)\<rparr>
           in if length (clients r') = 0 then m'\<lparr>rooms := AList.delete code (rooms m')\<rparr> else m'))"

definition getRoom :: "string \<Rightarrow> room_manager \<Rightarrow> room option" where
  "getRoom code m = map_of (rooms m) code"

text \<open>What the rest of the server sees of a room: its list of members.\<close>

definition members :: "room_manager \<Rightarrow> string \<Rightarrow> fd list option" where
  "members m code = map_option clients (getRoom code m)"

section \<open>The interface the handlers rely on\<close>

text \<open>
  A registry of rooms, seen through the members of each room. The laws say what a join and a leave do to
  the room they name and that they touch no other room.
\<close>

locale room_registry =
  fixes mems :: "'m \<Rightarrow> string \<Rightarrow> fd list option"
    and join :: "fd \<Rightarrow> string \<Rightarrow> 'm \<Rightarrow> bool \<times> 'm"
    and leave :: "fd \<Rightarrow> string \<Rightarrow> 'm \<Rightarrow> 'm"
  assumes join_True:
      "join f c m = (True, m') \<Longrightarrow>
         \<exists>xs. mems m c = Some xs \<and> f \<notin> set xs \<and> mems m' = (mems m)(c \<mapsto> xs @ [f])"
    and join_False: "join f c m = (False, m') \<Longrightarrow> mems m' = mems m"
    and leave_mems:
      "mems (leave f c m) =
         (case mems m c of
            None \<Rightarrow> mems m
          | Some xs \<Rightarrow> (mems m)(c := if remove1 f xs = [] then None else Some (remove1 f xs)))"
begin

lemma join_member: "join f c m = (True, m') \<Longrightarrow> \<exists>xs. mems m' c = Some xs \<and> f \<in> set xs"
  by (auto dest: join_True)

lemma join_other_room: "join f c m = (b, m') \<Longrightarrow> c' \<noteq> c \<Longrightarrow> mems m' c' = mems m c'"
  by (cases b) (auto dest: join_True join_False)

lemma join_keeps_member:
  assumes j: "join f c m = (b, m')" and x: "mems m c' = Some xs" and g: "g \<in> set xs"
  shows "\<exists>ys. mems m' c' = Some ys \<and> g \<in> set ys"
proof (cases b)
  case True
  with j obtain zs where "mems m c = Some zs" "mems m' = (mems m)(c \<mapsto> zs @ [f])"
    using join_True [of f c m m'] by auto
  then show ?thesis using x g by (cases "c' = c") auto
next
  case False
  with j have "mems m' = mems m" using join_False [of f c m m'] by simp
  then show ?thesis using x g by simp
qed

lemma leave_other_room: "c' \<noteq> c \<Longrightarrow> mems (leave f c m) c' = mems m c'"
  by (simp add: leave_mems split: option.splits)

lemma leave_not_member:
  assumes "mems m c = Some xs" and "distinct xs"
  shows "case mems (leave f c m) c of None \<Rightarrow> True | Some ys \<Rightarrow> f \<notin> set ys"
  using assms by (simp add: leave_mems)

lemma leave_keeps_member:
  assumes x: "mems m c' = Some xs" and g: "g \<in> set xs" and other: "g \<noteq> f \<or> c' \<noteq> c"
  shows "\<exists>ys. mems (leave f c m) c' = Some ys \<and> g \<in> set ys"
proof (cases "c' = c")
  case True
  with g other have "g \<in> set (remove1 f xs)" by simp
  moreover from this have "remove1 f xs \<noteq> []" by auto
  ultimately show ?thesis using x True by (simp add: leave_mems)
next
  case False
  then show ?thesis using x g by (simp add: leave_other_room)
qed

lemma leave_never_empty:
  "mems (leave f c m) c \<noteq> Some []"
  if "mems m c \<noteq> Some []"
  using that by (cases "mems m c") (auto simp: leave_mems)

end

lemma members_update:
  "map_of (AList.update c r rs) c' = (if c' = c then Some r else map_of rs c')"
  by (simp add: hm.find_insert)

lemma joinRoom_True:
  "joinRoom f c m = (True, m') \<Longrightarrow>
     \<exists>xs. members m c = Some xs \<and> f \<notin> set xs \<and> members m' = (members m)(c \<mapsto> xs @ [f])"
  by (auto simp: joinRoom_def acceptNewUser_def members_def getRoom_def members_update fun_eq_iff
      split: option.splits if_splits)

lemma joinRoom_False: "joinRoom f c m = (False, m') \<Longrightarrow> members m' = members m"
  by (auto simp: joinRoom_def acceptNewUser_def members_def getRoom_def members_update fun_eq_iff
      split: option.splits if_splits)

lemma leaveRoom_members:
  "members (leaveRoom f c m) =
     (case members m c of
        None \<Rightarrow> members m
      | Some xs \<Rightarrow> (members m)(c := if remove1 f xs = [] then None else Some (remove1 f xs)))"
  by (auto simp: leaveRoom_def leaveUser_def members_def getRoom_def members_update hm.find_erase
      Let_def fun_eq_iff split: option.splits)

interpretation rr: room_registry members joinRoom leaveRoom
  by unfold_locales (simp_all add: joinRoom_True joinRoom_False leaveRoom_members)

lemmas registry_facts =
  rr.join_member rr.join_other_room rr.join_keeps_member rr.leave_other_room
  rr.leave_not_member rr.leave_keeps_member

section \<open>Capacity arithmetic\<close>

lemma uint_capacity: "uint (capacity r) = sint (maxUserCnt r) mod 2 ^ 64"
  unfolding capacity_def scast_eq by (simp only: unsigned_of_int) (simp add: take_bit_eq_mod)

lemma sint_c_int_bounds: "- (2 ^ 31) \<le> sint (k :: c_int) \<and> sint k < 2 ^ 31"
  using sint_range_size [of k] by (simp add: word_size)

lemma unat_capacity:
  "unat (capacity r) =
     (if 0 \<le> sint (maxUserCnt r) then nat (sint (maxUserCnt r))
      else nat (2 ^ 64 + sint (maxUserCnt r)))"
proof -
  have "sint (maxUserCnt r) mod 2 ^ 64 =
      (if 0 \<le> sint (maxUserCnt r) then sint (maxUserCnt r) else 2 ^ 64 + sint (maxUserCnt r))"
    using sint_c_int_bounds [of "maxUserCnt r"]
  proof (cases "0 \<le> sint (maxUserCnt r)")
    case True
    then show ?thesis using sint_c_int_bounds [of "maxUserCnt r"] by simp
  next
    case False
    have "sint (maxUserCnt r) mod 2 ^ 64 = (2 ^ 64 + sint (maxUserCnt r)) mod 2 ^ 64" by simp
    also have "\<dots> = 2 ^ 64 + sint (maxUserCnt r)"
      using False sint_c_int_bounds [of "maxUserCnt r"] by (intro mod_pos_pos_trivial) auto
    finally show ?thesis using False by simp
  qed
  then show ?thesis
    using uint_capacity [of r] by (simp add: unat_eq_nat_uint)
qed

lemma capacity_eq_0: "unat (capacity r) = 0 \<longleftrightarrow> maxUserCnt r = 0"
  using sint_c_int_bounds [of "maxUserCnt r"] signed_eq_0_iff [of "maxUserCnt r"]
  unfolding unat_capacity by auto

lemma of_nat_u64_ge:
  "n < 2 ^ 64 \<Longrightarrow> (of_nat n :: u64) \<ge> w \<longleftrightarrow> unat w \<le> n"
  by (simp add: word_le_nat_alt unat_of_nat)

lemma room_limit: "scast MAX_ROOM_CNT = (100 :: u64)"
  by (simp add: MAX_ROOM_CNT_def)

section \<open>Invariant\<close>

definition room_ok :: "room \<Rightarrow> bool" where
  "room_ok r \<longleftrightarrow> distinct (clients r) \<and> length (clients r) \<le> unat (capacity r)"

definition rm_ok :: "room_manager \<Rightarrow> bool" where
  "rm_ok m \<longleftrightarrow>
     al_distinct (rooms m) \<and> length (rooms m) \<le> 100 \<and>
     (\<forall>code r. map_of (rooms m) code = Some r \<longrightarrow> roomCode r = code \<and> code \<noteq> [] \<and> room_ok r)"

lemma capacity_update [simp]: "capacity (r\<lparr>clients := xs\<rparr>) = capacity r"
  by (simp add: capacity_def)

lemma room_ok_length: "room_ok r \<Longrightarrow> length (clients r) < 2 ^ 64"
  using unsigned_less [of "capacity r", where ?'a = nat] by (simp add: room_ok_def)

lemma room_ok_new: "room_ok (new_room c n k)"
  by (simp add: room_ok_def new_room_def)

lemma room_ok_accept: "room_ok r \<Longrightarrow> room_ok (snd (acceptNewUser f r))"
  using of_nat_u64_ge [OF room_ok_length, of r "capacity r"]
  by (auto simp: acceptNewUser_def room_ok_def Suc_le_eq)

lemma room_ok_leave: "room_ok r \<Longrightarrow> room_ok (leaveUser f r)"
  using length_remove1 [of f "clients r"]
  by (auto simp: room_ok_def leaveUser_def split: if_splits)

lemma roomCode_ops [simp]:
  "roomCode (new_room c n k) = c"
  "roomCode (snd (acceptNewUser f r)) = roomCode r"
  "roomCode (leaveUser f r) = roomCode r"
  by (simp_all add: new_room_def acceptNewUser_def leaveUser_def)

lemma rm_ok_update:
  assumes ok: "rm_ok m" and r: "room_ok r" "roomCode r = code" "code \<noteq> []"
    and room: "map_of (rooms m) code \<noteq> None \<or> length (rooms m) < 100"
  shows "rm_ok (m\<lparr>rooms := AList.update code r (rooms m), rng_pos := p\<rparr>)"
  using assms
  by (auto simp: rm_ok_def hm.find_insert hm.keys_ok_insert length_AList_update split: if_splits)

lemma rm_ok_delete: "rm_ok m \<Longrightarrow> rm_ok (m\<lparr>rooms := AList.delete code (rooms m)\<rparr>)"
  using hm.size_erase_le [of "rooms m" code]
  by (auto simp: rm_ok_def hm.find_erase hm.keys_ok_erase split: if_splits)

lemma rm_ok_empty: "rm_ok empty_room_manager"
  by (simp add: rm_ok_def empty_room_manager_def)

lemma length_generateRoomCode: "generateRoomCode draw p = (c, p') \<Longrightarrow> length c = 8"
  by (auto simp: generateRoomCode_def)

lemma addRoom_loop_Some:
  "addRoom_loop draw rs a p = (Some c, p') \<Longrightarrow>
     map_of rs c = None \<and> (\<exists>q. c = fst (generateRoomCode draw q))"
proof (induction draw rs a p rule: addRoom_loop.induct)
  case (1 draw rs a p)
  obtain d q where g: "generateRoomCode draw p = (d, q)" by force
  consider "map_of rs d = None" "\<not> Suc a > 100" | "map_of rs d \<noteq> None" "\<not> Suc a > 100"
    using "1.prems" g by (auto simp: addRoom_loop.simps [of draw rs a p] split: if_splits)
  then show ?case
  proof cases
    case 1
    with "1.prems" g have "c = d" by (simp add: addRoom_loop.simps [of draw rs a p])
    moreover have "d = fst (generateRoomCode draw p)" using g by simp
    ultimately show ?thesis using 1 by blast
  next
    case 2
    with "1.prems" g have "addRoom_loop draw rs (Suc a) q = (Some c, p')"
      by (simp add: addRoom_loop.simps [of draw rs a p])
    with "1.IH" [OF g [symmetric]] 2 show ?thesis by simp
  qed
qed

lemma rm_ok_addRoom [inv_intros]: "rm_ok m \<Longrightarrow> rm_ok (snd (addRoom draw n k m))"
proof -
  assume ok: "rm_ok m"
  obtain co p where l: "addRoom_loop draw (rooms m) 0 (rng_pos m) = (co, p)" by force
  show ?thesis
  proof (cases "(of_nat (length (rooms m)) :: u64) \<ge> scast MAX_ROOM_CNT")
    case True
    with ok show ?thesis by (simp add: addRoom_def)
  next
    case few: False
    have "length (rooms m) < 2 ^ 64" using ok by (simp add: rm_ok_def)
    from of_nat_u64_ge [OF this, of "100"] few have len: "length (rooms m) < 100"
      by (simp add: room_limit)
    show ?thesis
    proof (cases co)
      case None
      with ok few l show ?thesis by (simp add: addRoom_def rm_ok_def)
    next
      case (Some c)
      from addRoom_loop_Some [OF l [unfolded Some]] have "c \<noteq> []"
        by (auto dest: length_generateRoomCode simp: generateRoomCode_def)
      with rm_ok_update [OF ok room_ok_new [of c n k], where code = c and p = p] len
      have "rm_ok (m\<lparr>rooms := AList.update c (new_room c n k) (rooms m), rng_pos := p\<rparr>)"
        by simp
      with few l Some show ?thesis by (simp add: addRoom_def)
    qed
  qed
qed

lemma rm_ok_joinRoom [inv_intros]: "rm_ok m \<Longrightarrow> rm_ok (snd (joinRoom f c m))"
proof (cases "map_of (rooms m) c")
  case None
  assume "rm_ok m"
  with None show ?thesis by (simp add: joinRoom_def)
next
  case (Some r)
  assume ok: "rm_ok m"
  with Some have "room_ok r" "roomCode r = c" "c \<noteq> []" by (auto simp: rm_ok_def)
  with rm_ok_update [OF ok room_ok_accept, where code = c and p = "rng_pos m"] Some
  have "rm_ok (m\<lparr>rooms := AList.update c (snd (acceptNewUser f r)) (rooms m)\<rparr>)"
    by simp
  with Some show ?thesis by (simp add: joinRoom_def case_prod_beta)
qed

lemma rm_ok_leaveRoom [inv_intros]: "rm_ok m \<Longrightarrow> rm_ok (leaveRoom f c m)"
proof (cases "map_of (rooms m) c")
  case None
  assume "rm_ok m"
  with None show ?thesis by (simp add: leaveRoom_def)
next
  case (Some r)
  assume ok: "rm_ok m"
  with Some have "room_ok r" "roomCode r = c" "c \<noteq> []" by (auto simp: rm_ok_def)
  with rm_ok_update [OF ok, of "leaveUser f r" c "rng_pos m"] Some
  have 1: "rm_ok (m\<lparr>rooms := AList.update c (leaveUser f r) (rooms m)\<rparr>)"
    by (simp add: room_ok_leave)
  with rm_ok_delete [OF 1, of c] Some show ?thesis
    by (simp add: leaveRoom_def Let_def)
qed

lemma rm_ok_removeRoom [inv_intros]: "rm_ok m \<Longrightarrow> rm_ok (removeRoom c m)"
  by (simp add: removeRoom_def rm_ok_delete)

section \<open>Properties\<close>

text \<open>What \<open>acceptNewUser\<close> promises, with the capacity read as the \<open>int\<close> the caller gave.\<close>

lemma accept_limit:
  assumes "room_ok r"
  shows "(of_nat (length (clients r)) :: u64) \<ge> capacity r \<longleftrightarrow>
           0 \<le> sint (maxUserCnt r) \<and> nat (sint (maxUserCnt r)) \<le> length (clients r)
           \<or> sint (maxUserCnt r) < 0 \<and> nat (2 ^ 64 + sint (maxUserCnt r)) \<le> length (clients r)"
  unfolding of_nat_u64_ge [OF room_ok_length [OF assms]] unat_capacity by auto

text \<open>
  C23. Admission to a room. With a capacity that is not negative a user is turned away exactly when the
  room holds that many members, is told so when already in, and otherwise is appended to the members;
  the room keeps its invariant (no member twice, never more members than the capacity).
\<close>

theorem acceptNewUser_capacity:
  assumes "room_ok r" and "0 \<le> sint (maxUserCnt r)"
  shows "acceptNewUser f r =
           (if nat (sint (maxUserCnt r)) \<le> length (clients r) then (ROOM_FULL, r)
            else if f \<in> set (clients r) then (ALREADY_IN, r)
            else (SUCCESS, r\<lparr>clients := clients r @ [f]\<rparr>))
         \<and> room_ok (snd (acceptNewUser f r))
         \<and> length (clients (snd (acceptNewUser f r))) \<le> nat (sint (maxUserCnt r))"
proof -
  have ok: "room_ok (snd (acceptNewUser f r))" using assms(1) by (rule room_ok_accept)
  have cap: "capacity (snd (acceptNewUser f r)) = capacity r" by (simp add: acceptNewUser_def)
  from ok have "length (clients (snd (acceptNewUser f r))) \<le> nat (sint (maxUserCnt r))"
    unfolding room_ok_def cap using assms(2) by (simp add: unat_capacity)
  moreover have "acceptNewUser f r =
           (if nat (sint (maxUserCnt r)) \<le> length (clients r) then (ROOM_FULL, r)
            else if f \<in> set (clients r) then (ALREADY_IN, r)
            else (SUCCESS, r\<lparr>clients := clients r @ [f]\<rparr>))"
    using assms(2) unfolding acceptNewUser_def accept_limit [OF assms(1)] by simp
  ultimately show ?thesis using ok by blast
qed

theorem acceptNewUser_capacity_witness:
  "acceptNewUser 4 (new_room ''r'' ''n'' 2) = (SUCCESS, (new_room ''r'' ''n'' 2)\<lparr>clients := [4]\<rparr>)"
  using acceptNewUser_capacity [of "new_room ''r'' ''n'' 2" 4, OF room_ok_new]
  by (simp add: new_room_def)

text \<open>
  A negative capacity, which \<open>CREATE_ROOM\<close> accepts, is no limit at all: the comparison with
  \<open>clients.size()\<close> converts it to an unsigned number, so every user who is not in the room gets in as long as
  there are fewer than \<open>2 ^ 63\<close> members.
\<close>

theorem negative_capacity_unlimited:
  assumes "sint (maxUserCnt r) < 0" and "length (clients r) < 2 ^ 63" and "f \<notin> set (clients r)"
  shows "acceptNewUser f r = (SUCCESS, r\<lparr>clients := clients r @ [f]\<rparr>)"
proof -
  have "2 ^ 63 \<le> unat (capacity r)"
    using assms(1) sint_c_int_bounds [of "maxUserCnt r"] by (simp add: unat_capacity le_nat_iff)
  with assms(2) have "\<not> (of_nat (length (clients r)) :: u64) \<ge> capacity r"
    using of_nat_u64_ge [of "length (clients r)" "capacity r"] by simp
  with assms(3) show ?thesis by (simp add: acceptNewUser_def)
qed

theorem negative_capacity_unlimited_witness:
  "acceptNewUser 9 \<lparr>roomCode = ''r'', roomName = ''n'', maxUserCnt = -1, clients = [4, 5, 6]\<rparr> =
     (SUCCESS, \<lparr>roomCode = ''r'', roomName = ''n'', maxUserCnt = -1, clients = [4, 5, 6, 9]\<rparr>)"
  using negative_capacity_unlimited
    [of "\<lparr>roomCode = ''r'', roomName = ''n'', maxUserCnt = -1, clients = [4, 5, 6]\<rparr>" 9] by simp

subsection \<open>Creating a room\<close>

definition candidate_codes :: "(nat \<Rightarrow> nat) \<Rightarrow> nat \<Rightarrow> nat \<Rightarrow> string list" where
  "candidate_codes dr pos n = map (\<lambda>i. fst (generateRoomCode dr (pos + 8 * i))) [0..<n]"

lemma candidate_codes_Suc:
  "candidate_codes dr pos (Suc n) =
     fst (generateRoomCode dr pos) # candidate_codes dr (pos + 8) n"
  by (simp add: candidate_codes_def upt_conv_Cons map_Suc_upt [symmetric] ac_simps
      del: upt_Suc map_Suc_upt)

lemma addRoom_loop_find:
  "a \<le> 100 \<Longrightarrow> fst (addRoom_loop dr rs a p) =
     find (\<lambda>c. map_of rs c = None) (candidate_codes dr p (100 - a))"
proof (induction dr rs a p rule: addRoom_loop.induct)
  case (1 dr rs a p)
  obtain d q where g: "generateRoomCode dr p = (d, q)" by force
  then have q: "q = p + 8" by (simp add: generateRoomCode_def)
  show ?case
  proof (cases "a = 100")
    case True
    then show ?thesis
      using g by (simp add: addRoom_loop.simps [of dr rs 100 p] candidate_codes_def)
  next
    case False
    with "1.prems" have "100 - a = Suc (100 - Suc a)" "Suc a \<le> 100" by simp_all
    then show ?thesis
      using "1.IH" [OF g [symmetric]] g q
      by (auto simp: addRoom_loop.simps [of dr rs a p] candidate_codes_Suc)
  qed
qed

lemma AList_update_fresh: "map_of m k = None \<Longrightarrow> AList.update k v m = m @ [(k, v)]"
  by (induction m) (auto split: if_splits)

text \<open>
  C24. Creating a room. With 100 rooms the table is left alone and the answer is the empty string;
  otherwise the new room's code is the first of the next 100 random codes that is not in use, the room is
  empty and is added to the table, and if all 100 are in use nothing is added.
\<close>

theorem addRoom_first_free_code:
  assumes "rm_ok m"
  shows "(fst (addRoom dr n k m), rooms (snd (addRoom dr n k m))) =
           (if length (rooms m) = 100 then ([], rooms m)
            else case find (\<lambda>c. map_of (rooms m) c = None) (candidate_codes dr (rng_pos m) 100) of
                   None \<Rightarrow> ([], rooms m)
                 | Some c \<Rightarrow> (c, rooms m @ [(c, new_room c n k)]))"
proof -
  have le: "length (rooms m) \<le> 100" using assms by (simp add: rm_ok_def)
  then have "length (rooms m) < 2 ^ 64" by simp
  from of_nat_u64_ge [OF this, of 100] le
  have full: "(of_nat (length (rooms m)) :: u64) \<ge> scast MAX_ROOM_CNT \<longleftrightarrow> length (rooms m) = 100"
    by (auto simp: room_limit)
  obtain co p where l: "addRoom_loop dr (rooms m) 0 (rng_pos m) = (co, p)" by force
  with addRoom_loop_find [of 0 dr "rooms m" "rng_pos m"]
  have co: "find (\<lambda>c. map_of (rooms m) c = None) (candidate_codes dr (rng_pos m) 100) = co" by simp
  show ?thesis
  proof (cases co)
    case None
    with full l co show ?thesis by (simp add: addRoom_def)
  next
    case (Some c)
    with addRoom_loop_Some [of dr "rooms m" 0 "rng_pos m" c p] l
    have "map_of (rooms m) c = None" by simp
    with full l co Some show ?thesis by (simp add: addRoom_def AList_update_fresh)
  qed
qed

theorem addRoom_first_free_code_witness:
  "fst (addRoom (\<lambda>i. i mod 62) ''n'' 3 empty_room_manager) = ''abcdefgh''"
proof -
  have c: "candidate_codes (\<lambda>i. i mod 62) 0 100 = ''abcdefgh'' # candidate_codes (\<lambda>i. i mod 62) 8 99"
    using candidate_codes_Suc [of "\<lambda>i. i mod 62" 0 99]
    by (simp add: generateRoomCode_def room_chars_def upt_rec)
  show ?thesis
    using addRoom_first_free_code [OF rm_ok_empty, of "\<lambda>i. i mod 62" "''n''" 3]
    by (simp add: empty_room_manager_def c)
qed

lemma length_room_chars: "length room_chars = 62"
  by (simp add: room_chars_def)

definition fair_draws :: "(nat \<Rightarrow> nat) \<Rightarrow> bool" where
  "fair_draws dr \<longleftrightarrow> (\<forall>i. dr i \<le> 61)"

lemma addRoom_result:
  assumes "addRoom dr n k m = (c, m')" and "c \<noteq> []"
  shows "getRoom c m = None \<and> getRoom c m' = Some (new_room c n k)
    \<and> (\<forall>c'. c' \<noteq> c \<longrightarrow> getRoom c' m' = getRoom c' m) \<and> (\<exists>q. c = fst (generateRoomCode dr q))"
proof -
  obtain co p where l: "addRoom_loop dr (rooms m) 0 (rng_pos m) = (co, p)" by force
  with assms have co: "co = Some c"
    and m': "m' = m\<lparr>rooms := AList.update c (new_room c n k) (rooms m), rng_pos := p\<rparr>"
    by (auto simp: addRoom_def split: if_splits option.splits)
  from addRoom_loop_Some [OF l [unfolded co]] m' show ?thesis
    by (simp add: getRoom_def members_update)
qed

text \<open>
  Every room code handed out is eight letters or digits, was not in use before, and names a room in
  the table afterwards.
\<close>

theorem addRoom_code:
  assumes "fair_draws dr" and "rm_ok m" and "addRoom dr n k m = (c, m')" and "c \<noteq> []"
  shows "length c = 8 \<and> set c \<subseteq> set room_chars \<and> getRoom c m = None
         \<and> getRoom c m' = Some (new_room c n k)"
proof -
  from addRoom_result [OF assms(3,4)] obtain q where c: "c = fst (generateRoomCode dr q)"
    and room: "getRoom c m = None" "getRoom c m' = Some (new_room c n k)" by blast
  have "room_chars ! dr i \<in> set room_chars" for i
    using assms(1) [unfolded fair_draws_def, rule_format, of i]
    by (intro nth_mem) (simp add: length_room_chars)
  with c have "length c = 8 \<and> set c \<subseteq> set room_chars" by (auto simp: generateRoomCode_def)
  with room show ?thesis by blast
qed

theorem addRoom_code_witness:
  "length (fst (addRoom (\<lambda>i. i mod 62) ''n'' 3 empty_room_manager)) = 8"
proof -
  obtain c m' where a: "addRoom (\<lambda>i. i mod 62) ''n'' 3 empty_room_manager = (c, m')" by force
  have fair: "fair_draws (\<lambda>i. i mod 62)" by (simp add: fair_draws_def less_Suc_eq_le [symmetric])
  obtain co p where l: "addRoom_loop (\<lambda>i. i mod 62) [] 0 0 = (co, p)" by force
  have "co = Some (fst (generateRoomCode (\<lambda>i. i mod 62) 0))"
    using l by (subst (asm) addRoom_loop.simps) (auto split: prod.splits)
  with a l have "c \<noteq> []"
    by (auto simp: addRoom_def empty_room_manager_def room_limit generateRoomCode_def)
  from addRoom_code [OF fair rm_ok_empty a this] show ?thesis by (simp add: a)
qed

end
