(* ===== verification/Protocol.thy ===== *)
theory Protocol
  imports Prelude
begin

unbundle bit_operations_syntax

text \<open>
  \<open>server/include/network/Protocol.h\<close> (for the client's copy see \<open>Client_Copies\<close>): the message types, the
  packed header, the packet, and its image on the wire.

  \<open>enum class PacketType : uint16_t\<close> can hold any 16-bit value, since the receivers cast whatever
  arrives; \<open>Other_Type\<close> stands for the values that are no enumerator.

  The bytes of \<open>payload\<close> that were never written are not modelled: \<open>payload\<close> is the list of the
  bytes copied into the array, and \<open>wf_packet\<close> says that \<open>header.size\<close> counts exactly them and that
  they fit the array. Every packet the program builds is shown to satisfy it.

  \<open>htons\<close> and \<open>ntohs\<close> swap the two bytes, as on the little-endian Linux targets of the program, and a
  header field in memory is stored low byte first.
\<close>

section \<open>Constants and packet types\<close>

definition RECV_BUFFER_SIZE :: nat where "RECV_BUFFER_SIZE = 4096"
definition MAX_NICKNAME_LEN :: nat where "MAX_NICKNAME_LEN = 32"
definition MAX_PAYLOAD_SIZE :: nat where "MAX_PAYLOAD_SIZE = 1024"

datatype packet_type =
    NICKNAME_REQUEST
  | MESSAGE_SEND
  | CREATE_ROOM
  | EXIT_ROOM
  | JOIN_ROOM
  | NICKNAME_RESPONSE_OK
  | NICKNAME_RESPONSE_FAIL
  | ROOM_CREATE_OK
  | ROOM_CREATE_FAIL
  | ROOM_EXIT_OK
  | ROOM_EXIT_FAIL
  | ROOM_JOIN_OK
  | ROOM_JOIN_FAIL
  | ROOM_USER_JOIN
  | ROOM_USER_EXIT
  | MESSAGE_CHAT
  | MESSAGE_SYSTEM
  | Other_Type u16

fun type_code :: "packet_type \<Rightarrow> u16" where
  "type_code NICKNAME_REQUEST = 101"
| "type_code MESSAGE_SEND = 201"
| "type_code CREATE_ROOM = 301"
| "type_code EXIT_ROOM = 302"
| "type_code JOIN_ROOM = 303"
| "type_code NICKNAME_RESPONSE_OK = 1001"
| "type_code NICKNAME_RESPONSE_FAIL = 1002"
| "type_code ROOM_CREATE_OK = 3011"
| "type_code ROOM_CREATE_FAIL = 3012"
| "type_code ROOM_EXIT_OK = 3021"
| "type_code ROOM_EXIT_FAIL = 3022"
| "type_code ROOM_JOIN_OK = 3031"
| "type_code ROOM_JOIN_FAIL = 3032"
| "type_code ROOM_USER_JOIN = 3041"
| "type_code ROOM_USER_EXIT = 3042"
| "type_code MESSAGE_CHAT = 1101"
| "type_code MESSAGE_SYSTEM = 1102"
| "type_code (Other_Type w) = w"

definition enumerators :: "packet_type list" where
  "enumerators =
     [NICKNAME_REQUEST, MESSAGE_SEND, CREATE_ROOM, EXIT_ROOM, JOIN_ROOM,
      NICKNAME_RESPONSE_OK, NICKNAME_RESPONSE_FAIL, ROOM_CREATE_OK, ROOM_CREATE_FAIL,
      ROOM_EXIT_OK, ROOM_EXIT_FAIL, ROOM_JOIN_OK, ROOM_JOIN_FAIL, ROOM_USER_JOIN,
      ROOM_USER_EXIT, MESSAGE_CHAT, MESSAGE_SYSTEM]"

text \<open>The cast \<open>(PacketType) w\<close>.\<close>

definition packet_type_of :: "u16 \<Rightarrow> packet_type" where
  "packet_type_of w =
     (case filter (\<lambda>t. type_code t = w) enumerators of [] \<Rightarrow> Other_Type w | t # _ \<Rightarrow> t)"

text \<open>The values a cast can produce: \<open>Other_Type\<close> never carries an enumerator's code.\<close>

definition canonical_type :: "packet_type \<Rightarrow> bool" where
  "canonical_type t \<longleftrightarrow> packet_type_of (type_code t) = t"

lemma type_code_packet_type_of [simp]: "type_code (packet_type_of w) = w"
proof (cases "filter (\<lambda>t. type_code t = w) enumerators")
  case Nil
  then show ?thesis by (simp add: packet_type_of_def)
next
  case (Cons t ts)
  have "t \<in> set (filter (\<lambda>t. type_code t = w) enumerators)" unfolding Cons by simp
  then have "type_code t = w" by simp
  then show ?thesis unfolding packet_type_of_def Cons by simp
qed

lemma canonical_packet_type_of [simp]: "canonical_type (packet_type_of w)"
  by (simp add: canonical_type_def)

lemma canonical_enumerators: "\<forall>t \<in> set enumerators. canonical_type t"
  by (simp add: canonical_type_def packet_type_of_def enumerators_def)

lemma canonical_enumerator [simp]:
  "t \<in> set enumerators \<Longrightarrow> canonical_type t"
  using canonical_enumerators by blast

lemma mem_enumerators [simp]: "t \<in> set enumerators \<longleftrightarrow> (\<forall>w. t \<noteq> Other_Type w)"
  by (cases t) (simp_all add: enumerators_def)

section \<open>Header and packet\<close>

record packet_header =
  ptype :: packet_type
  psize :: u16

record packet =
  header :: packet_header
  payload :: string

definition mk_packet :: "packet_type \<Rightarrow> u16 \<Rightarrow> string \<Rightarrow> packet" where
  "mk_packet t n pl = \<lparr>header = \<lparr>ptype = t, psize = n\<rparr>, payload = pl\<rparr>"

abbreviation pkt_type :: "packet \<Rightarrow> packet_type" where
  "pkt_type p \<equiv> ptype (header p)"

abbreviation pkt_size :: "packet \<Rightarrow> nat" where
  "pkt_size p \<equiv> unat (psize (header p))"

definition wf_packet :: "packet \<Rightarrow> bool" where
  "wf_packet p \<longleftrightarrow> pkt_size p = length (payload p) \<and> length (payload p) \<le> MAX_PAYLOAD_SIZE"

text \<open>\<open>std::string(packet.payload, packet.header.size)\<close>.\<close>

definition payload_str :: "packet \<Rightarrow> string" where
  "payload_str p = take (pkt_size p) (payload p)"

lemma mk_packet_sel [simp, packet_simps]:
  "header (mk_packet t n pl) = \<lparr>ptype = t, psize = n\<rparr>"
  "payload (mk_packet t n pl) = pl"
  by (simp_all add: mk_packet_def)

lemma payload_str_wf: "wf_packet p \<Longrightarrow> payload_str p = payload p"
  by (simp add: payload_str_def wf_packet_def)

lemma unat_of_nat_u16: "n < 65536 \<Longrightarrow> unat (of_nat n :: u16) = n"
  by (simp add: unat_of_nat)

lemma wf_mk_packet [intro]:
  "length pl \<le> MAX_PAYLOAD_SIZE \<Longrightarrow> n = of_nat (length pl) \<Longrightarrow> wf_packet (mk_packet t n pl)"
  by (simp add: wf_packet_def MAX_PAYLOAD_SIZE_def unat_of_nat_u16)

text \<open>
  The two ways the program fills a packet: \<open>memcpy\<close> of a whole string, and of a string cut at the size
  of the array (\<open>std::min(len, (size_t)MAX_PAYLOAD_SIZE)\<close>).
\<close>

definition text_packet :: "packet_type \<Rightarrow> string \<Rightarrow> packet" where
  "text_packet t s = mk_packet t (of_nat (length s)) s"

definition clipped_packet :: "packet_type \<Rightarrow> string \<Rightarrow> packet" where
  "clipped_packet t s =
     (let n = min (length s) MAX_PAYLOAD_SIZE in mk_packet t (of_nat n) (take n s))"

lemma pkt_type_text [simp, packet_simps]: "pkt_type (text_packet t s) = t"
  by (simp add: text_packet_def)

lemma pkt_type_clipped [simp, packet_simps]: "pkt_type (clipped_packet t s) = t"
  by (simp add: clipped_packet_def Let_def)

lemma wf_text_packet: "length s \<le> MAX_PAYLOAD_SIZE \<Longrightarrow> wf_packet (text_packet t s)"
  by (auto simp: text_packet_def)

lemma wf_clipped_packet [simp]: "wf_packet (clipped_packet t s)"
  by (auto simp: clipped_packet_def Let_def)

lemma payload_str_text: "length s \<le> MAX_PAYLOAD_SIZE \<Longrightarrow> payload_str (text_packet t s) = s"
  by (simp add: payload_str_wf wf_text_packet) (simp add: text_packet_def)

lemma payload_str_clipped:
  "payload_str (clipped_packet t s) = take MAX_PAYLOAD_SIZE s"
  by (simp add: payload_str_wf) (simp add: clipped_packet_def Let_def min_def)

section \<open>Byte order and the wire image\<close>

definition htons :: "u16 \<Rightarrow> u16" where
  "htons w = push_bit 8 w OR drop_bit 8 w"

definition ntohs :: "u16 \<Rightarrow> u16" where
  "ntohs w = push_bit 8 w OR drop_bit 8 w"

text \<open>A \<open>uint16_t\<close> in memory, and read back from two bytes of memory.\<close>

definition store16 :: "u16 \<Rightarrow> string" where
  "store16 w = [char_of (unat w), char_of (unat w div 256)]"

definition load16 :: "char \<Rightarrow> char \<Rightarrow> u16" where
  "load16 b0 b1 = of_nat (of_char b0 + 256 * of_char b1)"

definition HEADER_SIZE :: nat where "HEADER_SIZE = 4"

text \<open>The header as \<open>PacketSender::send\<close> and \<open>NetworkClient::Send\<close> lay it out before \<open>::send\<close>.\<close>

definition header_bytes :: "packet_header \<Rightarrow> string" where
  "header_bytes h = store16 (htons (type_code (ptype h))) @ store16 (htons (psize h))"

text \<open>The \<open>sizeof(PacketHeader) + packet.header.size\<close> bytes that start at \<open>&send_packet\<close>.\<close>

definition packet_bytes :: "packet \<Rightarrow> string" where
  "packet_bytes p = take (HEADER_SIZE + pkt_size p) (header_bytes (header p) @ payload p)"

text \<open>The two header fields read from the first four bytes of a buffer, after \<open>ntohs\<close>.\<close>

definition read_size :: "string \<Rightarrow> u16" where
  "read_size buf = ntohs (load16 (buf ! 2) (buf ! 3))"

definition read_type :: "string \<Rightarrow> packet_type" where
  "read_type buf = packet_type_of (ntohs (load16 (buf ! 0) (buf ! 1)))"

subsection \<open>Byte order\<close>

lemma unat_u16_less: "unat (w::u16) < 65536"
  using unsigned_less [of w, where ?'a = nat] by simp

lemma ntohs_eq_htons: "ntohs w = htons w"
  by (simp add: ntohs_def htons_def)

lemma ntohs_htons [simp]: "ntohs (htons w) = w"
  unfolding ntohs_def htons_def
  by (rule bit_eqI) (auto simp: bit_simps)

lemma ntohs_eq_add: "ntohs w = push_bit 8 w + drop_bit 8 w"
  unfolding ntohs_def
  by (rule disjunctive_add [symmetric]) (auto simp: bit_simps dest: bit_imp_le_length)

lemma unat_ntohs: "unat (ntohs w) = 256 * (unat w mod 256) + unat w div 256"
proof -
  have 1: "unat (push_bit 8 w) = 256 * (unat w mod 256)"
    by (simp add: push_bit_eq_mult unat_word_ariths mult_mod_right mult.commute)
  have 2: "unat (drop_bit 8 w) = unat w div 256"
    by (simp only: unat_drop_bit_eq) (simp add: drop_bit_eq_div)
  have "unat w div 256 < 256" using unat_u16_less [of w] by (simp add: div_less_iff_less_mult)
  moreover have "256 * (unat w mod 256) \<le> 256 * 255" by (simp add: less_Suc_eq_le flip: Suc_le_eq)
  ultimately have "256 * (unat w mod 256) + unat w div 256 < 65536" by simp
  then show ?thesis
    by (simp add: ntohs_eq_add unat_word_ariths 1 2)
qed

lemma unat_load16: "unat (load16 b0 b1) = of_char b0 + 256 * of_char b1"
proof -
  have "(of_char b0 :: nat) < 256" "(of_char b1 :: nat) < 256" by simp_all
  then have "of_char b0 + 256 * of_char b1 < (65536 :: nat)" by linarith
  then show ?thesis unfolding load16_def unat_of_nat by simp
qed

lemma load16_store16: "store16 w = [b0, b1] \<Longrightarrow> load16 b0 b1 = w"
proof -
  assume "store16 w = [b0, b1]"
  then have "load16 b0 b1 = of_nat (unat w mod 256 + 256 * (unat w div 256 mod 256))"
    by (auto simp: store16_def load16_def)
  also have "unat w div 256 mod 256 = unat w div 256"
    using unat_u16_less [of w] by (simp add: div_less_iff_less_mult)
  finally show ?thesis by simp
qed

text \<open>On the wire a field is big endian: its high byte comes first.\<close>

lemma unat_ntohs_load16: "unat (ntohs (load16 b0 b1)) = 256 * of_char b0 + of_char b1"
  by (simp add: unat_ntohs unat_load16)

subsection \<open>The wire image of a packet\<close>

lemma length_header_bytes [simp]: "length (header_bytes h) = HEADER_SIZE"
  by (simp add: header_bytes_def store16_def HEADER_SIZE_def)

lemma packet_bytes_wf:
  "wf_packet p \<Longrightarrow> packet_bytes p = header_bytes (header p) @ payload p"
  by (simp add: packet_bytes_def wf_packet_def)

lemma length_packet_bytes: "wf_packet p \<Longrightarrow> length (packet_bytes p) = HEADER_SIZE + pkt_size p"
  by (simp add: packet_bytes_wf wf_packet_def)

lemma load16_nth_store16: "load16 (store16 w ! 0) (store16 w ! 1) = w"
  by (rule load16_store16) (simp add: store16_def)

lemma read_type_header [simp]:
  "read_type (header_bytes h @ rest) = packet_type_of (type_code (ptype h))"
  using load16_nth_store16 [of "htons (type_code (ptype h))"]
  by (simp add: read_type_def header_bytes_def store16_def)

lemma read_size_header [simp]: "read_size (header_bytes h @ rest) = psize h"
  using load16_nth_store16 [of "htons (psize h)"]
  by (simp add: read_size_def header_bytes_def store16_def)

text \<open>
  The byte order of the protocol: whatever the type and the size of a packet, the first two bytes
  on the wire are the type and the next two the size, high byte first, and the receiver's reads
  (\<open>ntohs\<close> of the packed fields) return the values the sender put in.
\<close>

theorem wire_header_big_endian:
  shows "map of_char (header_bytes h) =
           [unat (type_code (ptype h)) div 256, unat (type_code (ptype h)) mod 256,
            unat (psize h) div 256, unat (psize h) mod 256]
         \<and> type_code (read_type (header_bytes h @ rest)) = type_code (ptype h)
         \<and> read_size (header_bytes h @ rest) = psize h"
proof -
  have bytes: "map of_char (store16 (htons w)) = [unat w div 256, unat w mod 256]" for w :: u16
  proof -
    have n: "unat (htons w) = 256 * (unat w mod 256) + unat w div 256"
      using unat_ntohs [of w] by (simp add: ntohs_eq_htons)
    have "unat w div 256 < 256" using unat_u16_less [of w] by (simp add: div_less_iff_less_mult)
    then show ?thesis by (simp add: store16_def n)
  qed
  have "(map of_char (header_bytes h) :: nat list) =
      map of_char (store16 (htons (type_code (ptype h)))) @ map of_char (store16 (htons (psize h)))"
    by (simp add: header_bytes_def)
  then show ?thesis by (simp add: bytes)
qed

end
