(* ===== verification/Packet_Sender.thy ===== *)
theory Packet_Sender
  imports Protocol
begin

text \<open>
  \<open>server/src/network/PacketSender.cpp\<close>: \<open>PacketSender::send\<close> turns a packet into bytes and calls the
  kernel's \<open>::send\<close> until all of them are accepted.

  The kernel's answers are the argument of the loop, one per call: \<open>Sent n\<close> for \<open>n\<close> bytes accepted,
  \<open>Would_Block\<close> for \<open>EAGAIN\<close>/\<open>EWOULDBLOCK\<close>, \<open>Send_Failed\<close> for any other error. The loop asks again
  for as long as it is told to wait, so an answer list that ends early leaves it \<open>Still_Sending\<close>. The
  documented behaviour of \<open>::send\<close>, never to accept more than it was offered, is \<open>kernel_ok\<close>.
\<close>

datatype send_answer = Sent nat | Would_Block | Send_Failed

datatype send_status = Sent_All | Send_Aborted | Still_Sending

text \<open>The status, and the bytes the kernel has accepted.\<close>

fun send_loop :: "string \<Rightarrow> nat \<Rightarrow> send_answer list \<Rightarrow> send_status \<times> string" where
  "send_loop buffer total_sent [] =
     (if total_sent < length buffer then (Still_Sending, []) else (Sent_All, []))"
| "send_loop buffer total_sent (a # as) =
     (if total_sent < length buffer then
        (case a of
           Would_Block \<Rightarrow> send_loop buffer total_sent as
         | Send_Failed \<Rightarrow> (Send_Aborted, [])
         | Sent n \<Rightarrow>
             (case send_loop buffer (total_sent + n) as of
                (st, out) \<Rightarrow> (st, take n (drop total_sent buffer) @ out)))
      else (Sent_All, []))"

definition packet_send :: "packet \<Rightarrow> send_answer list \<Rightarrow> send_status \<times> string" where
  "packet_send p as = send_loop (packet_bytes p) 0 as"

fun kernel_ok :: "nat \<Rightarrow> send_answer list \<Rightarrow> bool" where
  "kernel_ok left [] \<longleftrightarrow> True"
| "kernel_ok left (Sent n # as) \<longleftrightarrow> n \<le> left \<and> kernel_ok (left - n) as"
| "kernel_ok left (Would_Block # as) \<longleftrightarrow> kernel_ok left as"
| "kernel_ok left (Send_Failed # as) \<longleftrightarrow> kernel_ok left as"

fun accepted :: "send_answer list \<Rightarrow> nat" where
  "accepted [] = 0"
| "accepted (Sent n # as) = n + accepted as"
| "accepted (a # as) = accepted as"

lemma send_loop_done: "length buffer \<le> t \<Longrightarrow> send_loop buffer t as = (Sent_All, [])"
  by (cases as) simp_all

text \<open>The pieces of a buffer, for this loop and the client's.\<close>

lemma chunk_take: "take n (drop t buffer) @ take m (drop (t + n) buffer) = take (n + m) (drop t buffer)"
  using take_add [of n m "drop t buffer"] by (simp add: add.commute)

lemma chunk_drop: "take n (drop t buffer) @ drop (t + n) buffer = drop t buffer"
  by (metis append_take_drop_id drop_drop add.commute)

lemma send_loop_prefix:
  assumes "kernel_ok (length buffer - t) as" and "t \<le> length buffer"
  shows "\<exists>n. snd (send_loop buffer t as) = take n (drop t buffer) \<and>
           (fst (send_loop buffer t as) = Sent_All \<longrightarrow> snd (send_loop buffer t as) = drop t buffer)"
  using assms
proof (induction buffer t as rule: send_loop.induct)
  case (1 buffer t)
  then show ?case by (auto intro: exI [of _ 0])
next
  case (2 buffer t a as)
  show ?case
  proof (cases "t < length buffer")
    case False
    then show ?thesis by (auto intro: exI [of _ 0])
  next
    case True
    show ?thesis
    proof (cases a)
      case (Sent n)
      obtain st out where l: "send_loop buffer (t + n) as = (st, out)" by force
      from 2 True Sent have k: "kernel_ok (length buffer - (t + n)) as" by simp
      from 2 True Sent have k2: "t + n \<le> length buffer" by simp linarith
      from "2.IH"(1) [OF True Sent k k2] obtain m where
        ih: "snd (send_loop buffer (t + n) as) = take m (drop (t + n) buffer)"
          "fst (send_loop buffer (t + n) as) = Sent_All \<longrightarrow>
             snd (send_loop buffer (t + n) as) = drop (t + n) buffer" by blast
      from ih l have m: "out = take m (drop (t + n) buffer)" by simp
      from ih l have all: "st = Sent_All \<longrightarrow> out = drop (t + n) buffer" by simp
      have "take n (drop t buffer) @ out = take (n + m) (drop t buffer)"
        and "st = Sent_All \<longrightarrow> take n (drop t buffer) @ out = drop t buffer"
        using m all chunk_take chunk_drop by auto
      with True Sent l show ?thesis by auto
    next
      case Would_Block
      with 2 True show ?thesis by simp
    next
      case Send_Failed
      with True show ?thesis by (auto intro: exI [of _ 0])
    qed
  qed
qed

lemma send_loop_complete:
  assumes "Send_Failed \<notin> set as" and "length buffer - t \<le> accepted as"
  shows "fst (send_loop buffer t as) = Sent_All"
  using assms
proof (induction buffer t as rule: send_loop.induct)
  case (1 buffer t)
  then show ?case by simp
next
  case (2 buffer t a as)
  show ?case
  proof (cases "t < length buffer")
    case False
    then show ?thesis by simp
  next
    case True
    with 2 show ?thesis by (cases a) (auto split: prod.splits)
  qed
qed

section \<open>Two workers on one socket\<close>

text \<open>
  Nothing serialises two calls of \<open>send\<close> for the same client: each worker's loop makes its own
  \<open>::send\<close> calls. A run of the two loops is an interleaving of their calls; each call moves a chunk.
\<close>

inductive two_senders ::
  "string \<Rightarrow> string \<Rightarrow> string \<Rightarrow> bool" where
  both_done: "two_senders [] [] []"
| first_sends: "xs \<noteq> [] \<Longrightarrow> two_senders a b out \<Longrightarrow> two_senders (xs @ a) b (xs @ out)"
| second_sends: "ys \<noteq> [] \<Longrightarrow> two_senders a b out \<Longrightarrow> two_senders a (ys @ b) (ys @ out)"

end
