(* ===== verification/Handlers.thy ===== *)
theory Handlers
  imports Json_Parser Json_Dump Client_Manager Room_Manager Packet_Sender
begin

text \<open>
  \<open>server/src/domain/handler\<close>: the packet handlers and their dispatch, with the two operations of
  \<open>Server\<close> they call, \<open>sendPacket\<close> and \<open>broadcastPacketForRoom\<close>.

  A handler runs on a worker thread to its end; the model is the state change of the whole call. What is
  sent is recorded in \<open>sends\<close>, in the order of the calls of \<open>PacketSender::send\<close> (the bytes of one such
  call are the subject of \<open>Packet_Sender\<close>). \<open>Logger\<close> calls are dropped.

  The parameters a handler depends on are the record \<open>platform\<close>: the outputs of the random generator, the
  text of a double, the value of an out-of-range conversion of a double. The formatted local time of a
  chat message is the argument \<open>now\<close>.
\<close>

section \<open>Server state and sending\<close>

record platform =
  draw :: "nat \<Rightarrow> nat"
  dtoa :: "u64 \<Rightarrow> string"
  oor :: "u64 \<Rightarrow> c_int"

record server =
  client_mgr :: client_manager
  room_mgr :: room_manager
  sends :: "(fd \<times> packet) list"

definition sendPacket :: "fd \<Rightarrow> packet \<Rightarrow> server \<Rightarrow> server" where
  "sendPacket client_fd p s = s\<lparr>sends := sends s @ [(client_fd, p)]\<rparr>"

definition broadcastPacketForRoom :: "packet \<Rightarrow> string \<Rightarrow> fd \<Rightarrow> server \<Rightarrow> server" where
  "broadcastPacketForRoom p code exclude_fd s =
     (case getRoom code (room_mgr s) of
        None \<Rightarrow> s
      | Some room \<Rightarrow>
          fold (\<lambda>f s. if f \<noteq> exclude_fd then sendPacket f p s else s) (clients room) s)"

definition broadcastPacket :: "packet \<Rightarrow> fd \<Rightarrow> server \<Rightarrow> server" where
  "broadcastPacket p exclude_fd s =
     fold (\<lambda>f s. sendPacket f p s) (getAllAuthenticatedClientFds exclude_fd (client_mgr s)) s"

text \<open>
  The shape of the handlers that answer: the body either produces the response packet (an early
  \<open>sendPacket; return\<close> or the response sent after the \<open>try\<close> block) or throws; the state changes made
  before a throw stay.
\<close>

definition error_packet :: "packet_type \<Rightarrow> string \<Rightarrow> json_error \<Rightarrow> packet" where
  "error_packet t prefix e = clipped_packet t (prefix @ what e)"

definition respond ::
  "fd \<Rightarrow> packet_type \<Rightarrow> string \<Rightarrow> (json_error + packet) \<times> server \<Rightarrow> server" where
  "respond client_fd fail_type prefix r =
     (case r of
        (Inr p, s) \<Rightarrow> sendPacket client_fd p s
      | (Inl e, s) \<Rightarrow> sendPacket client_fd (error_packet fail_type prefix e) s)"

text \<open>\<open>json_data.contains(key) && json_data[key].is_...()\<close>.\<close>

definition has_field :: "(json \<Rightarrow> bool) \<Rightarrow> string \<Rightarrow> json \<Rightarrow> json_error + bool" where
  "has_field is_kind key j =
     (if \<not> contains j key then Inr False
      else (case json_at j key of Inl e \<Rightarrow> Inl e | Inr v \<Rightarrow> Inr (is_kind v)))"

text \<open>\<open>std::string x = json_data[key]\<close> and \<open>int x = json_data[key]\<close>.\<close>

definition string_field :: "string \<Rightarrow> json \<Rightarrow> json_error + string" where
  "string_field key j = (case json_at j key of Inl e \<Rightarrow> Inl e | Inr v \<Rightarrow> get_string v)"

definition int_field :: "(u64 \<Rightarrow> c_int) \<Rightarrow> string \<Rightarrow> json \<Rightarrow> json_error + c_int" where
  "int_field out_of_range key j = (case json_at j key of Inl e \<Rightarrow> Inl e | Inr v \<Rightarrow> get_int out_of_range v)"

text \<open>\<open>json x; x[k1] = v1; ...; x.dump()\<close>.\<close>

definition dump_fields :: "(u64 \<Rightarrow> string) \<Rightarrow> (string \<times> json) list \<Rightarrow> json_error + string" where
  "dump_fields dt kvs = (case json_puts kvs JNull of Inl e \<Rightarrow> Inl e | Inr j \<Rightarrow> dump_json dt j)"

section \<open>NicknameHandler\<close>

definition nickname_body :: "fd \<Rightarrow> packet \<Rightarrow> server \<Rightarrow> (json_error + packet) \<times> server" where
  "nickname_body client_fd p s =
     (case json_parse (payload_str p) of
        Inl e \<Rightarrow> (Inl e, s)
      | Inr json_data \<Rightarrow>
          (case has_field is_string ''nickname'' json_data of
             Inl e \<Rightarrow> (Inl e, s)
           | Inr False \<Rightarrow>
               (Inr (text_packet NICKNAME_RESPONSE_FAIL
                  ''Invalid JSON format: missing 'nickname' field.''), s)
           | Inr True \<Rightarrow>
               (case string_field ''nickname'' json_data of
                  Inl e \<Rightarrow> (Inl e, s)
                | Inr nick \<Rightarrow>
                    if isNicknameTaken nick (client_mgr s)
                    then (Inr (text_packet NICKNAME_RESPONSE_FAIL ''Duplicated nickname.''), s)
                    else (Inr (mk_packet NICKNAME_RESPONSE_OK 0 []),
                          s\<lparr>client_mgr := setNickname client_fd nick (client_mgr s)\<rparr>))))"

definition nickname_handle :: "fd \<Rightarrow> packet \<Rightarrow> server \<Rightarrow> server" where
  "nickname_handle client_fd p s =
     respond client_fd NICKNAME_RESPONSE_FAIL ''JSON parse error: '' (nickname_body client_fd p s)"

section \<open>MessageHandler\<close>

definition chat_fields :: "fd \<Rightarrow> client_info \<Rightarrow> json \<Rightarrow> string \<Rightarrow> (string \<times> json) list" where
  "chat_fields client_fd sender_info msg now =
     [(''sender_fd'', json_of_fd client_fd), (''sender_ip'', JString (ip sender_info)),
      (''sender_nickname'', JString (nickname sender_info)), (''message'', msg),
      (''timestamp'', JString now)]"

text \<open>Both \<open>catch\<close> clauses only log.\<close>

definition message_handle :: "platform \<Rightarrow> string \<Rightarrow> fd \<Rightarrow> packet \<Rightarrow> server \<Rightarrow> server" where
  "message_handle pf now client_fd p s =
     (case getClient client_fd (client_mgr s) of
        None \<Rightarrow> s
      | Some sender_info \<Rightarrow>
          if \<not> isAuthenticated sender_info then s
          else if ci_roomCode sender_info = [] then s
          else
            (case json_parse (payload_str p) of
               Inl e \<Rightarrow> s
             | Inr client_json \<Rightarrow>
                 (case json_at client_json ''message'' of
                    Inl e \<Rightarrow> s
                  | Inr msg \<Rightarrow>
                      (case dump_fields (dtoa pf) (chat_fields client_fd sender_info msg now) of
                         Inl e \<Rightarrow> s
                       | Inr json_string \<Rightarrow>
                           if length json_string > MAX_PAYLOAD_SIZE then s
                           else broadcastPacketForRoom (text_packet MESSAGE_CHAT json_string)
                                  (ci_roomCode sender_info) client_fd s))))"

section \<open>RoomHandler\<close>

text \<open>The part of \<open>handleCreateRoom\<close> after the checks.\<close>

definition create_room ::
  "platform \<Rightarrow> fd \<Rightarrow> string \<Rightarrow> c_int \<Rightarrow> server \<Rightarrow> (json_error + packet) \<times> server" where
  "create_room pf client_fd name maxUsers s =
     (case addRoom (draw pf) name maxUsers (room_mgr s) of
        (code, rm) \<Rightarrow>
          let s1 = s\<lparr>room_mgr := rm\<rparr> in
          if code = []
          then (Inr (text_packet ROOM_CREATE_FAIL
                  ''Failed to create room. Maximum room count reached.''), s1)
          else
            let s2 = (case getClient client_fd (client_mgr s1) of
                        None \<Rightarrow> s1
                      | Some client \<Rightarrow>
                          (case joinRoom client_fd code (room_mgr s1) of
                             (joined, rm') \<Rightarrow>
                               if joined
                               then s1\<lparr>room_mgr := rm',
                                       client_mgr := set_room client_fd code (client_mgr s1)\<rparr>
                               else s1\<lparr>room_mgr := rm'\<rparr>))
            in (case dump_fields (dtoa pf) [(''roomCode'', JString code)] of
                  Inl e \<Rightarrow> (Inl e, s2)
                | Inr str \<Rightarrow> (Inr (clipped_packet ROOM_CREATE_OK str), s2)))"

definition create_body :: "platform \<Rightarrow> fd \<Rightarrow> packet \<Rightarrow> server \<Rightarrow> (json_error + packet) \<times> server" where
  "create_body pf client_fd p s =
     (case json_parse (payload_str p) of
        Inl e \<Rightarrow> (Inl e, s)
      | Inr json_data \<Rightarrow>
          (case has_field is_string ''roomName'' json_data of
             Inl e \<Rightarrow> (Inl e, s)
           | Inr False \<Rightarrow>
               (Inr (text_packet ROOM_CREATE_FAIL
                  ''Invalid JSON format: missing 'roomName' field.''), s)
           | Inr True \<Rightarrow>
               (case has_field is_number ''maxUsers'' json_data of
                  Inl e \<Rightarrow> (Inl e, s)
                | Inr False \<Rightarrow>
                    (Inr (text_packet ROOM_CREATE_FAIL
                       ''Invalid JSON format: missing 'maxUsers' field.''), s)
                | Inr True \<Rightarrow>
                    (case string_field ''roomName'' json_data of
                       Inl e \<Rightarrow> (Inl e, s)
                     | Inr name \<Rightarrow>
                         (case int_field (oor pf) ''maxUsers'' json_data of
                            Inl e \<Rightarrow> (Inl e, s)
                          | Inr maxUsers \<Rightarrow> create_room pf client_fd name maxUsers s)))))"

definition handleCreateRoom :: "platform \<Rightarrow> fd \<Rightarrow> packet \<Rightarrow> server \<Rightarrow> server" where
  "handleCreateRoom pf client_fd p s =
     respond client_fd ROOM_CREATE_FAIL ''JSON parse error: '' (create_body pf client_fd p s)"

text \<open>The payload of \<open>ROOM_USER_JOIN\<close> and \<open>ROOM_USER_EXIT\<close>.\<close>

definition user_fields :: "fd \<Rightarrow> client_info \<Rightarrow> (string \<times> json) list" where
  "user_fields client_fd client =
     [(''clientFd'', json_of_fd client_fd),
      (''nickname'', JString (if nickname client = [] then ''Anonymous'' else nickname client))]"

text \<open>The part of \<open>handleJoinRoom\<close> after the checks of the request.\<close>

definition join_room :: "platform \<Rightarrow> fd \<Rightarrow> string \<Rightarrow> server \<Rightarrow> (json_error + packet) \<times> server" where
  "join_room pf client_fd code s =
     (case getClient client_fd (client_mgr s) of
        None \<Rightarrow> (Inr (text_packet ROOM_JOIN_FAIL ''Client not found.''), s)
      | Some client \<Rightarrow>
          if ci_roomCode client \<noteq> []
          then (Inr (text_packet ROOM_JOIN_FAIL ''Already in another room. Please exit first.''), s)
          else
            (case joinRoom client_fd code (room_mgr s) of
               (success, rm) \<Rightarrow>
                 let s1 = s\<lparr>room_mgr := rm\<rparr> in
                 if \<not> success
                 then (Inr (text_packet ROOM_JOIN_FAIL
                         ''Failed to join room. Room not found or full.''), s1)
                 else
                   let s2 = s1\<lparr>client_mgr := set_room client_fd code (client_mgr s1)\<rparr> in
                   (case dump_fields (dtoa pf) [(''roomCode'', JString code)] of
                      Inl e \<Rightarrow> (Inl e, s2)
                    | Inr str \<Rightarrow>
                        (case dump_fields (dtoa pf) (user_fields client_fd client) of
                           Inl e \<Rightarrow> (Inl e, s2)
                         | Inr bstr \<Rightarrow>
                             (Inr (clipped_packet ROOM_JOIN_OK str),
                              broadcastPacketForRoom (clipped_packet ROOM_USER_JOIN bstr)
                                code client_fd s2)))))"

definition join_body :: "platform \<Rightarrow> fd \<Rightarrow> packet \<Rightarrow> server \<Rightarrow> (json_error + packet) \<times> server" where
  "join_body pf client_fd p s =
     (case json_parse (payload_str p) of
        Inl e \<Rightarrow> (Inl e, s)
      | Inr json_data \<Rightarrow>
          (case has_field is_string ''roomCode'' json_data of
             Inl e \<Rightarrow> (Inl e, s)
           | Inr False \<Rightarrow>
               (Inr (text_packet ROOM_JOIN_FAIL
                  ''Invalid JSON format: missing 'roomCode' field.''), s)
           | Inr True \<Rightarrow>
               (case string_field ''roomCode'' json_data of
                  Inl e \<Rightarrow> (Inl e, s)
                | Inr code \<Rightarrow> join_room pf client_fd code s)))"

definition handleJoinRoom :: "platform \<Rightarrow> fd \<Rightarrow> packet \<Rightarrow> server \<Rightarrow> server" where
  "handleJoinRoom pf client_fd p s =
     respond client_fd ROOM_JOIN_FAIL ''JSON parse error: '' (join_body pf client_fd p s)"

text \<open>The request's payload is not looked at.\<close>

definition exit_body :: "platform \<Rightarrow> fd \<Rightarrow> packet \<Rightarrow> server \<Rightarrow> (json_error + packet) \<times> server" where
  "exit_body pf client_fd p s =
     (case getClient client_fd (client_mgr s) of
        None \<Rightarrow> (Inr (text_packet ROOM_EXIT_FAIL ''Client not found.''), s)
      | Some client \<Rightarrow>
          if ci_roomCode client = []
          then (Inr (text_packet ROOM_EXIT_FAIL ''Not in any room.''), s)
          else
            let code = ci_roomCode client in
            (case dump_fields (dtoa pf) (user_fields client_fd client) of
               Inl e \<Rightarrow> (Inl e, s)
             | Inr str \<Rightarrow>
                 let s1 = broadcastPacketForRoom (clipped_packet ROOM_USER_EXIT str) code client_fd s;
                     s2 = s1\<lparr>room_mgr := leaveRoom client_fd code (room_mgr s1)\<rparr>;
                     s3 = s2\<lparr>client_mgr := set_room client_fd [] (client_mgr s2)\<rparr>
                 in (Inr (mk_packet ROOM_EXIT_OK 0 []), s3)))"

definition handleExitRoom :: "platform \<Rightarrow> fd \<Rightarrow> packet \<Rightarrow> server \<Rightarrow> server" where
  "handleExitRoom pf client_fd p s =
     respond client_fd ROOM_EXIT_FAIL ''Error: '' (exit_body pf client_fd p s)"

definition room_handle :: "platform \<Rightarrow> fd \<Rightarrow> packet \<Rightarrow> server \<Rightarrow> server" where
  "room_handle pf client_fd p s =
     (case pkt_type p of
        CREATE_ROOM \<Rightarrow> handleCreateRoom pf client_fd p s
      | EXIT_ROOM \<Rightarrow> handleExitRoom pf client_fd p s
      | JOIN_ROOM \<Rightarrow> handleJoinRoom pf client_fd p s
      | _ \<Rightarrow> s)"

section \<open>PacketHandler\<close>

datatype handler_kind = NicknameHandler | MessageHandler | RoomHandler

definition m_handlers :: "(packet_type \<times> handler_kind) list" where
  "m_handlers =
     [(NICKNAME_REQUEST, NicknameHandler), (MESSAGE_SEND, MessageHandler),
      (CREATE_ROOM, RoomHandler), (JOIN_ROOM, RoomHandler), (EXIT_ROOM, RoomHandler)]"

definition packet_handle :: "platform \<Rightarrow> string \<Rightarrow> fd \<Rightarrow> packet \<Rightarrow> server \<Rightarrow> server" where
  "packet_handle pf now client_fd p s =
     (case map_of m_handlers (pkt_type p) of
        None \<Rightarrow> s
      | Some NicknameHandler \<Rightarrow> nickname_handle client_fd p s
      | Some MessageHandler \<Rightarrow> message_handle pf now client_fd p s
      | Some RoomHandler \<Rightarrow> room_handle pf client_fd p s)"

end
