(* ===== verification/Handler_Facts.thy ===== *)
theory Handler_Facts
  imports Handlers
begin

text \<open>
  What the handlers do to the server: the sends of a broadcast, the shape of a request's effect, the
  invariant that ties the clients' room codes to the rooms' member lists, and well-formedness of every
  packet sent.
\<close>

section \<open>Sending\<close>

lemma sendPacket_fields [simp]:
  "client_mgr (sendPacket f p s) = client_mgr s"
  "room_mgr (sendPacket f p s) = room_mgr s"
  "sends (sendPacket f p s) = sends s @ [(f, p)]"
  by (simp_all add: sendPacket_def)

lemma fold_send:
  "fold (\<lambda>f s. if f \<noteq> e then sendPacket f p s else s) fs s =
     s\<lparr>sends := sends s @ map (\<lambda>f. (f, p)) (filter (\<lambda>f. f \<noteq> e) fs)\<rparr>"
  by (induction fs arbitrary: s) (simp_all add: sendPacket_def)

definition room_members :: "server \<Rightarrow> string \<Rightarrow> fd list" where
  "room_members s code = (case members (room_mgr s) code of None \<Rightarrow> [] | Some xs \<Rightarrow> xs)"

lemma broadcast_eq:
  "broadcastPacketForRoom p code e s =
     s\<lparr>sends := sends s @ map (\<lambda>f. (f, p)) (filter (\<lambda>f. f \<noteq> e) (room_members s code))\<rparr>"
  by (simp add: broadcastPacketForRoom_def fold_send room_members_def members_def split: option.splits)

lemma broadcast_fields [simp]:
  "client_mgr (broadcastPacketForRoom p code e s) = client_mgr s"
  "room_mgr (broadcastPacketForRoom p code e s) = room_mgr s"
  "sends (broadcastPacketForRoom p code e s) =
     sends s @ map (\<lambda>f. (f, p)) (filter (\<lambda>f. f \<noteq> e) (room_members s code))"
  by (simp_all add: broadcast_eq)

lemma respond_eq:
  "respond f t prefix (r, s) =
     sendPacket f (case r of Inr p \<Rightarrow> p | Inl e \<Rightarrow> error_packet t prefix e) s"
  by (simp add: respond_def split: sum.splits)

lemma respond_fields [simp]:
  "client_mgr (respond f t prefix r) = client_mgr (snd r)"
  "room_mgr (respond f t prefix r) = room_mgr (snd r)"
  by (cases r; simp add: respond_eq)+

lemma sends_respond:
  "sends (respond f t prefix r) =
     sends (snd r) @ [(f, case fst r of Inr p \<Rightarrow> p | Inl e \<Rightarrow> error_packet t prefix e)]"
  by (cases r) (simp add: respond_eq)

section \<open>What each body does\<close>

text \<open>
  A request either leaves the managers alone or performs one operation; the lemmas below list the cases,
  so that the proofs that follow never open the parsing again.
\<close>

lemma has_field_string:
  "has_field is_string k j = Inr True \<Longrightarrow> \<exists>m s. j = JObject m \<and> map_of m k = Some (JString s)"
  by (cases j) (auto simp: has_field_def contains_def json_at_def elim!: is_string.elims split: if_splits)

lemma string_field_object:
  "map_of m k = Some (JString s) \<Longrightarrow> string_field k (JObject m) = Inr s"
  by (simp add: string_field_def json_at_def get_string_def)

lemma nickname_body_cases:
  assumes "nickname_body f p s = (r, s')"
  obtains (refused) "s' = s"
    and "\<And>q. r = Inr q \<Longrightarrow> pkt_type q = NICKNAME_RESPONSE_FAIL \<and> wf_packet q"
  | (set) n m where "json_parse (payload_str p) = Inr (JObject m)"
    and "map_of m ''nickname'' = Some (JString n)"
    and "\<not> isNicknameTaken n (client_mgr s)"
    and "s' = s\<lparr>client_mgr := setNickname f n (client_mgr s)\<rparr>"
    and "r = Inr (mk_packet NICKNAME_RESPONSE_OK 0 [])"
proof (cases "\<exists>j. json_parse (payload_str p) = Inr j \<and> has_field is_string ''nickname'' j = Inr True")
  case True
  then obtain x where x: "json_parse (payload_str p) = Inr x"
    and hx: "has_field is_string ''nickname'' x = Inr True" by blast
  from has_field_string [OF hx] obtain m n where xm: "x = JObject m"
    and n: "map_of m ''nickname'' = Some (JString n)" by blast
  from x xm have j: "json_parse (payload_str p) = Inr (JObject m)" by simp
  from hx xm have h: "has_field is_string ''nickname'' (JObject m) = Inr True" by simp
  show thesis
  proof (cases "isNicknameTaken n (client_mgr s)")
    case True
    with assms j n h show thesis
      by (intro refused) (auto simp: nickname_body_def string_field_object wf_text_packet MAX_PAYLOAD_SIZE_def)
  next
    case False
    with assms j n h show thesis
      by (intro set) (auto simp: nickname_body_def string_field_object)
  qed
next
  case False
  with assms show thesis
    by (intro refused)
      (auto simp: nickname_body_def wf_text_packet MAX_PAYLOAD_SIZE_def split: sum.splits bool.splits)
qed

lemma create_room_cases:
  assumes "create_room pf f n k s = (r, s')"
  obtains (full) rm where "addRoom (draw pf) n k (room_mgr s) = ([], rm)"
    and "s' = s\<lparr>room_mgr := rm\<rparr>"
    and "r = Inr (text_packet ROOM_CREATE_FAIL ''Failed to create room. Maximum room count reached.'')"
  | (made) code rm where "addRoom (draw pf) n k (room_mgr s) = (code, rm)" and "code \<noteq> []"
    and "getClient f (client_mgr s) = None \<or> fst (joinRoom f code rm) = False"
    and "s' = s\<lparr>room_mgr := (if getClient f (client_mgr s) = None then rm else snd (joinRoom f code rm))\<rparr>"
    and "\<And>q. r = Inr q \<Longrightarrow> pkt_type q = ROOM_CREATE_OK \<and> wf_packet q"
  | (joined) code rm rm' where "addRoom (draw pf) n k (room_mgr s) = (code, rm)" and "code \<noteq> []"
    and "getClient f (client_mgr s) \<noteq> None" and "joinRoom f code rm = (True, rm')"
    and "s' = s\<lparr>room_mgr := rm', client_mgr := set_room f code (client_mgr s)\<rparr>"
    and "\<And>q. r = Inr q \<Longrightarrow> pkt_type q = ROOM_CREATE_OK \<and> wf_packet q"
proof -
  obtain code rm where a: "addRoom (draw pf) n k (room_mgr s) = (code, rm)" by force
  obtain b rm' where j: "joinRoom f code rm = (b, rm')" by force
  show thesis
  proof (cases "code = []")
    case True
    with a assms show thesis by (intro full) (auto simp: create_room_def)
  next
    case code: False
    show thesis
    proof (cases "getClient f (client_mgr s) = None \<or> \<not> b")
      case True
      with a j code assms show thesis
        by (intro made) (auto simp: create_room_def Let_def split: sum.splits option.splits)
    next
      case False
      with a j code assms show thesis
        by (intro joined) (auto simp: create_room_def Let_def split: sum.splits option.splits)
    qed
  qed
qed

lemma create_body_cases:
  assumes "create_body pf f p s = (r, s')"
  obtains (refused) "s' = s"
    and "\<And>q. r = Inr q \<Longrightarrow> pkt_type q = ROOM_CREATE_FAIL \<and> wf_packet q"
  | (accepted) n k where "create_room pf f n k s = (r, s')"
  using assms
  by (auto simp: create_body_def wf_text_packet MAX_PAYLOAD_SIZE_def split: sum.splits bool.splits)

lemma join_room_cases:
  assumes "join_room pf f code s = (r, s')"
  obtains (refused) "s' = s \<or> s' = s\<lparr>room_mgr := snd (joinRoom f code (room_mgr s))\<rparr>
        \<and> \<not> fst (joinRoom f code (room_mgr s))"
    and "\<And>q. r = Inr q \<Longrightarrow> pkt_type q = ROOM_JOIN_FAIL \<and> wf_packet q" and "\<exists>q. r = Inr q"
  | (joined) c rm s2 where "getClient f (client_mgr s) = Some c" and "ci_roomCode c = []"
    and "joinRoom f code (room_mgr s) = (True, rm)"
    and "s2 = s\<lparr>room_mgr := rm, client_mgr := set_room f code (client_mgr s)\<rparr>"
    and "s' = s2 \<or> (\<exists>str. s' = broadcastPacketForRoom (clipped_packet ROOM_USER_JOIN str) code f s2)"
    and "\<And>q. r = Inr q \<Longrightarrow> pkt_type q = ROOM_JOIN_OK \<and> wf_packet q"
proof (cases "getClient f (client_mgr s)")
  case None
  with assms show thesis
    by (intro refused) (auto simp: join_room_def wf_text_packet MAX_PAYLOAD_SIZE_def)
next
  case (Some c)
  obtain b rm where j: "joinRoom f code (room_mgr s) = (b, rm)" by force
  show thesis
  proof (cases "ci_roomCode c = [] \<and> b")
    case True
    with assms Some j show thesis
      by (intro joined [OF Some, of rm])
        (auto simp: join_room_def Let_def split: sum.splits)
  next
    case False
    with assms Some j show thesis
      by (intro refused)
        (auto simp: join_room_def wf_text_packet MAX_PAYLOAD_SIZE_def split: if_splits)
  qed
qed

lemma join_body_cases:
  assumes "join_body pf f p s = (r, s')"
  obtains (refused) "s' = s"
    and "\<And>q. r = Inr q \<Longrightarrow> pkt_type q = ROOM_JOIN_FAIL \<and> wf_packet q"
  | (accepted) code where "join_room pf f code s = (r, s')"
  using assms
  by (auto simp: join_body_def wf_text_packet MAX_PAYLOAD_SIZE_def split: sum.splits bool.splits)

lemma exit_body_cases:
  assumes "exit_body pf f p s = (r, s')"
  obtains (refused) "s' = s"
    and "\<And>q. r = Inr q \<Longrightarrow> pkt_type q = ROOM_EXIT_FAIL \<and> wf_packet q"
  | (left) c str where "getClient f (client_mgr s) = Some c" and "ci_roomCode c \<noteq> []"
    and "dump_fields (dtoa pf) (user_fields f c) = Inr str"
    and "s' = (broadcastPacketForRoom (clipped_packet ROOM_USER_EXIT str) (ci_roomCode c) f s)
          \<lparr>room_mgr := leaveRoom f (ci_roomCode c) (room_mgr s),
           client_mgr := set_room f [] (client_mgr s)\<rparr>"
    and "r = Inr (mk_packet ROOM_EXIT_OK 0 [])"
proof (cases "getClient f (client_mgr s)")
  case None
  with assms show thesis
    by (intro refused) (auto simp: exit_body_def wf_text_packet MAX_PAYLOAD_SIZE_def)
next
  case (Some c)
  show thesis
  proof (cases "ci_roomCode c = [] \<or> (\<exists>e. dump_fields (dtoa pf) (user_fields f c) = Inl e)")
    case True
    with assms Some show thesis
      by (intro refused)
        (auto simp: exit_body_def Let_def wf_text_packet MAX_PAYLOAD_SIZE_def split: if_splits)
  next
    case False
    then obtain str where "dump_fields (dtoa pf) (user_fields f c) = Inr str"
      by (cases "dump_fields (dtoa pf) (user_fields f c)") auto
    with False assms Some show thesis
      by (intro left [OF Some, of str]) (auto simp: exit_body_def Let_def)
  qed
qed

lemma message_cases:
  obtains (silent) "message_handle pf now f p s = s"
  | (sent) c j msg str where "getClient f (client_mgr s) = Some c" and "isAuthenticated c"
    and "ci_roomCode c \<noteq> []" and "json_parse (payload_str p) = Inr j"
    and "json_at j ''message'' = Inr msg"
    and "dump_fields (dtoa pf) (chat_fields f c msg now) = Inr str"
    and "length str \<le> MAX_PAYLOAD_SIZE"
    and "message_handle pf now f p s =
           broadcastPacketForRoom (text_packet MESSAGE_CHAT str) (ci_roomCode c) f s"
proof (cases "message_handle pf now f p s = s")
  case True
  then show thesis by (rule silent)
next
  case False
  then show thesis
    by (auto simp: message_handle_def split: option.splits sum.splits if_splits intro: sent)
qed

section \<open>Well-formed packets\<close>

definition sends_ok :: "server \<Rightarrow> bool" where
  "sends_ok s \<longleftrightarrow> (\<forall>(f, p) \<in> set (sends s). wf_packet p)"

lemma sends_ok_sendPacket [inv_intros]: "sends_ok s \<Longrightarrow> wf_packet p \<Longrightarrow> sends_ok (sendPacket f p s)"
  by (auto simp: sends_ok_def)

lemma sends_ok_broadcast [inv_intros]:
  "sends_ok s \<Longrightarrow> wf_packet p \<Longrightarrow> sends_ok (broadcastPacketForRoom p code e s)"
  by (auto simp: sends_ok_def)

lemma sends_ok_respond:
  assumes "sends_ok (snd r)" and "\<And>q. fst r = Inr q \<Longrightarrow> wf_packet q"
  shows "sends_ok (respond f t prefix r)"
  using assms
  by (cases r) (auto simp: respond_eq error_packet_def intro!: sends_ok_sendPacket split: sum.splits)

lemma sends_ok_managers [simp]:
  "sends_ok (s\<lparr>client_mgr := c\<rparr>) = sends_ok s"
  "sends_ok (s\<lparr>room_mgr := r\<rparr>) = sends_ok s"
  by (simp_all add: sends_ok_def)

lemma wf_empty_packet [simp]: "wf_packet (mk_packet t 0 [])"
  by (rule wf_mk_packet) simp_all

lemma sends_ok_nickname: "sends_ok s \<Longrightarrow> sends_ok (nickname_handle f p s)"
proof -
  assume ok: "sends_ok s"
  obtain r s' where b: "nickname_body f p s = (r, s')" by force
  show ?thesis unfolding nickname_handle_def b using b
    by (cases rule: nickname_body_cases) (auto intro!: sends_ok_respond simp: ok)
qed

lemma sends_ok_create: "sends_ok s \<Longrightarrow> sends_ok (handleCreateRoom pf f p s)"
proof -
  assume ok: "sends_ok s"
  obtain r s' where b: "create_body pf f p s = (r, s')" by force
  show ?thesis unfolding handleCreateRoom_def b using b
  proof (cases rule: create_body_cases)
    case refused
    then show "sends_ok (respond f ROOM_CREATE_FAIL ''JSON parse error: '' (r, s'))"
      by (auto intro!: sends_ok_respond simp: ok)
  next
    case (accepted n k)
    then show "sends_ok (respond f ROOM_CREATE_FAIL ''JSON parse error: '' (r, s'))"
      by (cases rule: create_room_cases)
        (auto intro!: sends_ok_respond wf_text_packet simp: ok MAX_PAYLOAD_SIZE_def)
  qed
qed

lemma sends_ok_join: "sends_ok s \<Longrightarrow> sends_ok (handleJoinRoom pf f p s)"
proof -
  assume ok: "sends_ok s"
  obtain r s' where b: "join_body pf f p s = (r, s')" by force
  show ?thesis unfolding handleJoinRoom_def b using b
  proof (cases rule: join_body_cases)
    case refused
    then show "sends_ok (respond f ROOM_JOIN_FAIL ''JSON parse error: '' (r, s'))"
      by (auto intro!: sends_ok_respond simp: ok)
  next
    case (accepted code)
    then show "sends_ok (respond f ROOM_JOIN_FAIL ''JSON parse error: '' (r, s'))"
      by (cases rule: join_room_cases)
        (auto intro!: sends_ok_respond sends_ok_broadcast simp: ok)
  qed
qed

lemma sends_ok_exit: "sends_ok s \<Longrightarrow> sends_ok (handleExitRoom pf f p s)"
proof -
  assume ok: "sends_ok s"
  obtain r s' where b: "exit_body pf f p s = (r, s')" by force
  show ?thesis unfolding handleExitRoom_def b using b
    by (cases rule: exit_body_cases)
      (auto intro!: sends_ok_respond sends_ok_broadcast simp: ok)
qed

lemma sends_ok_message: "sends_ok s \<Longrightarrow> sends_ok (message_handle pf now f p s)"
  by (cases rule: message_cases [of pf now f p s])
    (auto intro!: sends_ok_broadcast wf_text_packet)

lemma packet_handle_cases:
  obtains (nickname) "pkt_type p = NICKNAME_REQUEST" "packet_handle pf now f p s = nickname_handle f p s"
  | (message) "pkt_type p = MESSAGE_SEND" "packet_handle pf now f p s = message_handle pf now f p s"
  | (create) "pkt_type p = CREATE_ROOM" "packet_handle pf now f p s = handleCreateRoom pf f p s"
  | (join) "pkt_type p = JOIN_ROOM" "packet_handle pf now f p s = handleJoinRoom pf f p s"
  | (exit) "pkt_type p = EXIT_ROOM" "packet_handle pf now f p s = handleExitRoom pf f p s"
  | (unknown) "pkt_type p \<notin> {NICKNAME_REQUEST, MESSAGE_SEND, CREATE_ROOM, JOIN_ROOM, EXIT_ROOM}"
      "packet_handle pf now f p s = s"
  by (cases "pkt_type p") (auto simp: packet_handle_def m_handlers_def room_handle_def)

lemma sends_ok_handle [inv_intros]: "sends_ok s \<Longrightarrow> sends_ok (packet_handle pf now f p s)"
  by (cases rule: packet_handle_cases [of p pf now f s])
    (simp_all add: sends_ok_nickname sends_ok_message sends_ok_create sends_ok_join sends_ok_exit)

section \<open>The invariant of the server\<close>

text \<open>
  A client that has a room code is a member of that room. The converse fails: see \<open>Server\<close>.
\<close>

definition room_link :: "client_manager \<Rightarrow> room_manager \<Rightarrow> bool" where
  "room_link cm rm \<longleftrightarrow>
     (\<forall>f c. getClient f cm = Some c \<and> ci_roomCode c \<noteq> [] \<longrightarrow>
        (\<exists>xs. members rm (ci_roomCode c) = Some xs \<and> f \<in> set xs))"

definition srv_ok :: "server \<Rightarrow> bool" where
  "srv_ok s \<longleftrightarrow>
     cm_ok (client_mgr s) \<and> rm_ok (room_mgr s) \<and> room_link (client_mgr s) (room_mgr s)"

lemma addRoom_keeps_members:
  assumes "rm_ok m" and "members m c = Some xs"
  shows "members (snd (addRoom dr n k m)) c = Some xs"
proof -
  obtain co p where l: "addRoom_loop dr (rooms m) 0 (rng_pos m) = (co, p)" by force
  show ?thesis
  proof (cases co)
    case None
    with l assms show ?thesis by (simp add: addRoom_def members_def getRoom_def)
  next
    case (Some d)
    with addRoom_loop_Some [of dr "rooms m" 0 "rng_pos m" d p] l
    have "map_of (rooms m) d = None" by simp
    with l Some assms show ?thesis
      by (auto simp: addRoom_def members_def getRoom_def members_update)
  qed
qed

lemma room_link_addRoom:
  "rm_ok rm \<Longrightarrow> room_link cm rm \<Longrightarrow> room_link cm (snd (addRoom dr n k rm))"
  by (fastforce simp: room_link_def dest: addRoom_keeps_members)

lemma room_link_join:
  assumes "room_link cm rm" and "joinRoom f code rm = (b, rm')"
  shows "room_link cm rm'"
  unfolding room_link_def
proof (intro allI impI)
  fix g c
  assume "getClient g cm = Some c \<and> ci_roomCode c \<noteq> []"
  with assms(1) obtain xs where "members rm (ci_roomCode c) = Some xs" "g \<in> set xs"
    by (auto simp: room_link_def)
  from rr.join_keeps_member [OF assms(2) this]
  show "\<exists>xs. members rm' (ci_roomCode c) = Some xs \<and> g \<in> set xs" .
qed

lemma room_link_set_room:
  assumes "room_link cm rm" and "joinRoom f code rm = (True, rm')"
  shows "room_link (set_room f code cm) rm'"
  using room_link_join [OF assms] rr.join_member [OF assms(2)]
  unfolding room_link_def by (auto simp: client_simps)

lemma room_link_leave:
  assumes "room_link cm rm"
  shows "room_link (set_room f [] cm) (leaveRoom f code rm)"
  unfolding room_link_def
proof (intro allI impI)
  fix g c
  assume g: "getClient g (set_room f [] cm) = Some c \<and> ci_roomCode c \<noteq> []"
  then have ne: "g \<noteq> f" and "getClient g cm = Some c"
    by (auto simp: client_simps split: if_splits)
  with assms g obtain xs where "members rm (ci_roomCode c) = Some xs" "g \<in> set xs"
    by (auto simp: room_link_def)
  from rr.leave_keeps_member [OF this, of f code] ne
  show "\<exists>xs. members (leaveRoom f code rm) (ci_roomCode c) = Some xs \<and> g \<in> set xs" by simp
qed

lemma room_link_setNickname: "room_link cm rm \<Longrightarrow> room_link (setNickname f n cm) rm"
  by (fastforce simp: room_link_def client_simps)

lemma srv_ok_respond [simp]: "srv_ok (respond f t prefix r) = srv_ok (snd r)"
  by (simp add: srv_ok_def)

lemma srv_ok_sends [simp]: "srv_ok (s\<lparr>sends := x\<rparr>) = srv_ok s"
  by (simp add: srv_ok_def)

lemma srv_ok_broadcast [simp]: "srv_ok (broadcastPacketForRoom p c e s) = srv_ok s"
  by (simp add: broadcast_eq)

lemma rm_ok_joinRoom': "rm_ok m \<Longrightarrow> joinRoom f c m = (b, m') \<Longrightarrow> rm_ok m'"
  using rm_ok_joinRoom [of m f c] by simp

lemma rm_ok_addRoom': "rm_ok m \<Longrightarrow> addRoom d n k m = (c, m') \<Longrightarrow> rm_ok m'"
  using rm_ok_addRoom [of m d n k] by simp

lemma room_link_addRoom':
  "rm_ok m \<Longrightarrow> room_link cm m \<Longrightarrow> addRoom d n k m = (c, m') \<Longrightarrow> room_link cm m'"
  using room_link_addRoom [of m cm d n k] by simp

lemmas srv_ok_intros =
  rm_ok_addRoom' rm_ok_joinRoom' rm_ok_leaveRoom cm_ok_set_room cm_ok_setNickname
  room_link_addRoom' room_link_join room_link_set_room room_link_leave room_link_setNickname

lemma srv_ok_nickname: "srv_ok s \<Longrightarrow> srv_ok (nickname_handle f p s)"
proof -
  assume ok: "srv_ok s"
  obtain r s' where b: "nickname_body f p s = (r, s')" by force
  show ?thesis unfolding nickname_handle_def b srv_ok_respond snd_conv using b
    by (cases rule: nickname_body_cases) (use ok in \<open>auto simp: srv_ok_def intro: srv_ok_intros\<close>)
qed

lemma srv_ok_create_room: "srv_ok s \<Longrightarrow> create_room pf f n k s = (r, s') \<Longrightarrow> srv_ok s'"
proof -
  assume ok: "srv_ok s" and c: "create_room pf f n k s = (r, s')"
  from c show ?thesis
  proof (cases rule: create_room_cases)
    case (full rm)
    with ok show ?thesis by (auto simp: srv_ok_def intro: srv_ok_intros)
  next
    case (made code rm)
    obtain b rm' where "joinRoom f code rm = (b, rm')" by force
    with ok made show ?thesis by (auto simp: srv_ok_def intro: srv_ok_intros)
  next
    case (joined code rm rm')
    with ok have "rm_ok rm" "room_link (client_mgr s) rm" by (auto simp: srv_ok_def intro: srv_ok_intros)
    with ok joined show ?thesis by (auto simp: srv_ok_def intro: srv_ok_intros)
  qed
qed

lemma srv_ok_create: "srv_ok s \<Longrightarrow> srv_ok (handleCreateRoom pf f p s)"
proof -
  assume ok: "srv_ok s"
  obtain r s' where b: "create_body pf f p s = (r, s')" by force
  show ?thesis unfolding handleCreateRoom_def b srv_ok_respond snd_conv using b
    by (cases rule: create_body_cases) (auto simp: ok dest: srv_ok_create_room [OF ok])
qed

lemma srv_ok_join: "srv_ok s \<Longrightarrow> srv_ok (handleJoinRoom pf f p s)"
proof -
  assume ok: "srv_ok s"
  obtain r s' where b: "join_body pf f p s = (r, s')" by force
  from b have "srv_ok s'"
  proof (cases rule: join_body_cases)
    case refused
    with ok show ?thesis by simp
  next
    case (accepted code)
    obtain j rm' where jr: "joinRoom f code (room_mgr s) = (j, rm')" by force
    with ok have "rm_ok rm'" "room_link (client_mgr s) rm'" by (auto simp: srv_ok_def intro: srv_ok_intros)
    from accepted show ?thesis
      by (cases rule: join_room_cases)
        (use ok jr \<open>rm_ok rm'\<close> \<open>room_link (client_mgr s) rm'\<close> in
          \<open>auto simp: srv_ok_def intro: srv_ok_intros\<close>)
  qed
  then show ?thesis by (simp add: handleJoinRoom_def b)
qed

lemma srv_ok_exit: "srv_ok s \<Longrightarrow> srv_ok (handleExitRoom pf f p s)"
proof -
  assume ok: "srv_ok s"
  obtain r s' where b: "exit_body pf f p s = (r, s')" by force
  show ?thesis unfolding handleExitRoom_def b srv_ok_respond snd_conv using b
    by (cases rule: exit_body_cases)
      (use ok in \<open>auto simp: srv_ok_def intro: srv_ok_intros\<close>)
qed

lemma srv_ok_message: "srv_ok s \<Longrightarrow> srv_ok (message_handle pf now f p s)"
  by (cases rule: message_cases [of pf now f p s]) auto

lemma srv_ok_handle [inv_intros]: "srv_ok s \<Longrightarrow> srv_ok (packet_handle pf now f p s)"
  by (cases rule: packet_handle_cases [of p pf now f s])
    (simp_all add: srv_ok_nickname srv_ok_message srv_ok_create srv_ok_join srv_ok_exit)

text \<open>No handler adds or drops a client or touches a receive buffer.\<close>

definition same_buffers :: "client_manager \<Rightarrow> client_manager \<Rightarrow> bool" where
  "same_buffers m m' \<longleftrightarrow>
     (\<forall>g. map_option recvBuffer (getClient g m') = map_option recvBuffer (getClient g m))"

lemma same_buffers_ops [simp]:
  "same_buffers m m"
  "same_buffers m (setNickname f n m)"
  "same_buffers m (set_room f code m)"
  by (auto simp: same_buffers_def client_simps option.map_comp comp_def)

lemma same_buffers_handle:
  "same_buffers (client_mgr s) (client_mgr (packet_handle pf now f p s))"
proof (cases rule: packet_handle_cases [of p pf now f s])
  case nickname
  obtain r s' where b: "nickname_body f p s = (r, s')" by force
  then have "same_buffers (client_mgr s) (client_mgr s')"
    by (cases rule: nickname_body_cases) simp_all
  then show ?thesis by (simp add: nickname nickname_handle_def b)
next
  case message
  then show ?thesis by (cases rule: message_cases [of pf now f p s]) simp_all
next
  case create
  obtain r s' where b: "create_body pf f p s = (r, s')" by force
  then have "same_buffers (client_mgr s) (client_mgr s')"
  proof (cases rule: create_body_cases)
    case refused
    then show ?thesis by simp
  next
    case (accepted n k)
    then show ?thesis by (cases rule: create_room_cases) simp_all
  qed
  then show ?thesis by (simp add: create handleCreateRoom_def b)
next
  case join
  obtain r s' where b: "join_body pf f p s = (r, s')" by force
  then have "same_buffers (client_mgr s) (client_mgr s')"
  proof (cases rule: join_body_cases)
    case refused
    then show ?thesis by simp
  next
    case (accepted code)
    then show ?thesis by (cases rule: join_room_cases) auto
  qed
  then show ?thesis by (simp add: join handleJoinRoom_def b)
next
  case exit
  obtain r s' where b: "exit_body pf f p s = (r, s')" by force
  then have "same_buffers (client_mgr s) (client_mgr s')"
    by (cases rule: exit_body_cases) simp_all
  then show ?thesis by (simp add: exit handleExitRoom_def b)
next
  case unknown
  then show ?thesis by simp
qed

end
