(* ===== verification/Packet_Receiver.thy ===== *)
theory Packet_Receiver
  imports Protocol Client_Manager
begin

text \<open>
  \<open>server/src/network/PacketReceiver.cpp\<close>: bytes from a socket are appended to the client's receive buffer
  and complete packets are cut from its front.

  \<open>recv\<close> is the kernel's: its result is the argument \<open>recv_result\<close>, either the bytes it stored (none of
  them when the peer has closed) or an error. The \<open>memcpy\<close> of a packet into the local \<open>Packet\<close> is unchecked;
  copying more than \<open>sizeof(Packet)\<close> bytes is undefined behaviour and a value of \<open>memory_error\<close>.
\<close>

section \<open>Receiving and parsing\<close>

datatype recv_result = Recv string | Recv_Error

datatype memory_error = Stack_Overflow nat

definition PACKET_SIZE :: nat where "PACKET_SIZE = HEADER_SIZE + MAX_PAYLOAD_SIZE"

definition receive :: "fd \<Rightarrow> recv_result \<Rightarrow> client_manager \<Rightarrow> bool \<times> client_manager" where
  "receive client_fd res m =
     (case getClient client_fd m of
        None \<Rightarrow> (False, m)
      | Some c \<Rightarrow>
          (case res of
             Recv_Error \<Rightarrow> (False, m)
           | Recv bs \<Rightarrow>
               if bs = [] then (False, m)
               else (True, set_buffer client_fd (recvBuffer c @ bs) m)))"

text \<open>
  The loop of \<open>parsePackets\<close> on the buffer, with the callback acting on a state of its own (in the server:
  the task queue). The error value counts the bytes written past the end of the local \<open>Packet\<close>.
\<close>

function parse_loop ::
  "(packet \<Rightarrow> 's \<Rightarrow> 's) \<Rightarrow> string \<Rightarrow> 's \<Rightarrow> memory_error + string \<times> 's" where
  "parse_loop callback buf s =
     (if length buf < HEADER_SIZE then Inr (buf, s)
      else
        let payload_size = read_size buf;
            packet_size = HEADER_SIZE + unat payload_size
        in if length buf < packet_size then Inr (buf, s)
           else if PACKET_SIZE < packet_size then Inl (Stack_Overflow (packet_size - PACKET_SIZE))
           else
             let pkt = mk_packet (read_type buf) payload_size (take (unat payload_size) (drop HEADER_SIZE buf))
             in parse_loop callback (drop packet_size buf) (callback pkt s))"
  by pat_completeness auto
termination
  by (relation "measure (\<lambda>(callback, buf, s). length buf)") (auto simp: HEADER_SIZE_def)

declare parse_loop.simps [simp del]

definition parsePackets ::
  "fd \<Rightarrow> (fd \<Rightarrow> packet \<Rightarrow> 's \<Rightarrow> 's) \<Rightarrow> client_manager \<Rightarrow> 's \<Rightarrow> memory_error + client_manager \<times> 's" where
  "parsePackets client_fd callback m s =
     (case getClient client_fd m of
        None \<Rightarrow> Inr (m, s)
      | Some c \<Rightarrow>
          (case parse_loop (callback client_fd) (recvBuffer c) s of
             Inl e \<Rightarrow> Inl e
           | Inr (rest, s') \<Rightarrow> Inr (set_buffer client_fd rest m, s')))"

definition receiveAndParse ::
  "fd \<Rightarrow> recv_result \<Rightarrow> (fd \<Rightarrow> packet \<Rightarrow> 's \<Rightarrow> 's) \<Rightarrow> client_manager \<Rightarrow> 's
   \<Rightarrow> memory_error + bool \<times> client_manager \<times> 's" where
  "receiveAndParse client_fd res callback m s =
     (case receive client_fd res m of
        (False, m') \<Rightarrow> Inr (False, m', s)
      | (True, m') \<Rightarrow>
          (case parsePackets client_fd callback m' s of
             Inl e \<Rightarrow> Inl e
           | Inr (m'', s') \<Rightarrow> Inr (True, m'', s')))"

section \<open>Incremental parsers\<close>

text \<open>
  What makes stream reassembly correct: a parser that stops at an incomplete frame can be resumed with
  more bytes, and gives what it would have given on all bytes at once. The server's loop is an instance.
\<close>

fun feed ::
  "(string \<Rightarrow> 's \<Rightarrow> 'e + string \<times> 's) \<Rightarrow> string list \<Rightarrow> string \<Rightarrow> 's \<Rightarrow> 'e + string \<times> 's" where
  "feed parse [] buf s = Inr (buf, s)"
| "feed parse (c # cs) buf s =
     (case parse (buf @ c) s of Inl e \<Rightarrow> Inl e | Inr (buf', s') \<Rightarrow> feed parse cs buf' s')"

locale incremental_parser =
  fixes parse :: "string \<Rightarrow> 's \<Rightarrow> 'e + string \<times> 's"
  assumes resume: "parse b1 s = Inr (r, s') \<Longrightarrow> parse (b1 @ b2) s = parse (r @ b2) s'"
    and fails: "parse b1 s = Inl e \<Longrightarrow> parse (b1 @ b2) s = Inl e"
    and stops: "parse b s = Inr (r, s') \<Longrightarrow> parse r s' = Inr (r, s')"
begin

lemma feed_eq_parse:
  "parse buf s = Inr (buf, s) \<Longrightarrow> feed parse cs buf s = parse (buf @ concat cs) s"
proof (induction cs arbitrary: buf s)
  case Nil
  then show ?case by simp
next
  case (Cons c cs)
  show ?case
  proof (cases "parse (buf @ c) s")
    case (Inl e)
    then show ?thesis using fails [OF Inl, of "concat cs"] by simp
  next
    case (Inr rs)
    obtain r s' where rs: "rs = (r, s')" by force
    with Inr have p: "parse (buf @ c) s = Inr (r, s')" by simp
    from Cons.IH [OF stops [OF p]] resume [OF p, of "concat cs"] show ?thesis
      by (simp add: p)
  qed
qed

lemma feed_chunking:
  assumes "parse buf s = Inr (buf, s)" and "concat cs = concat ds"
  shows "feed parse cs buf s = feed parse ds buf s"
  using feed_eq_parse [OF assms(1)] assms(2) by simp

end

lemma read_append:
  "HEADER_SIZE \<le> length b \<Longrightarrow> read_size (b @ c) = read_size b \<and> read_type (b @ c) = read_type b"
  by (auto simp: read_size_def read_type_def HEADER_SIZE_def nth_append)

lemma parse_loop_step:
  assumes "HEADER_SIZE + unat (read_size buf) \<le> length buf"
  shows "parse_loop cb buf s =
    (if MAX_PAYLOAD_SIZE < unat (read_size buf)
     then Inl (Stack_Overflow (unat (read_size buf) - MAX_PAYLOAD_SIZE))
     else parse_loop cb (drop (HEADER_SIZE + unat (read_size buf)) buf)
            (cb (mk_packet (read_type buf) (read_size buf)
                   (take (unat (read_size buf)) (drop HEADER_SIZE buf))) s))"
  using assms by (subst parse_loop.simps) (simp add: Let_def PACKET_SIZE_def)

lemma parse_loop_stop:
  "length buf < HEADER_SIZE \<or> length buf < HEADER_SIZE + unat (read_size buf) \<Longrightarrow>
   parse_loop cb buf s = Inr (buf, s)"
  by (subst parse_loop.simps) (auto simp: Let_def)

lemma parse_loop_append:
  "(case parse_loop cb b1 s of
      Inl e \<Rightarrow> parse_loop cb (b1 @ b2) s = Inl e
    | Inr (r, s') \<Rightarrow> parse_loop cb (b1 @ b2) s = parse_loop cb (r @ b2) s' \<and> parse_loop cb r s' = Inr (r, s'))"
proof (induction cb b1 s rule: parse_loop.induct)
  case (1 cb b s)
  let ?n = "HEADER_SIZE + unat (read_size b)"
  show ?case
  proof (cases "length b < HEADER_SIZE \<or> length b < ?n")
    case True
    then show ?thesis by (simp add: parse_loop_stop [OF True])
  next
    case False
    then have len: "?n \<le> length b" and hd: "HEADER_SIZE \<le> length b" by simp_all
    from len have len2: "HEADER_SIZE + unat (read_size (b @ b2)) \<le> length (b @ b2)"
      using read_append [OF hd] by simp
    have tk: "take (unat (read_size b)) (drop HEADER_SIZE (b @ b2)) =
        take (unat (read_size b)) (drop HEADER_SIZE b)"
      using len by simp
    show ?thesis
    proof (cases "MAX_PAYLOAD_SIZE < unat (read_size b)")
      case True
      then show ?thesis
        using parse_loop_step [OF len, of cb s] parse_loop_step [OF len2, of cb s] read_append [OF hd]
        by simp
    next
      case small: False
      then have "\<not> PACKET_SIZE < ?n" by (simp add: PACKET_SIZE_def)
      with "1.IH" [OF _ refl refl _ this refl] False small show ?thesis
        using parse_loop_step [OF len, of cb s] parse_loop_step [OF len2, of cb s] read_append [OF hd] tk len
        by (simp split: sum.splits prod.splits)
    qed
  qed
qed

interpretation pp: incremental_parser "parse_loop cb" for cb
proof
  fix b1 b2 r :: string and s s' e
  note append = parse_loop_append [of cb b1 b2 s] parse_loop_append [of cb b1 "[]" s]
  show "parse_loop cb b1 s = Inr (r, s') \<Longrightarrow> parse_loop cb (b1 @ b2) s = parse_loop cb (r @ b2) s'"
    using append(1) by (simp only: sum.case prod.case)
  show "parse_loop cb b1 s = Inl e \<Longrightarrow> parse_loop cb (b1 @ b2) s = Inl e"
    using append(1) by (simp only: sum.case)
  show "parse_loop cb b1 s = Inr (r, s') \<Longrightarrow> parse_loop cb r s' = Inr (r, s')"
    using append(2) by (simp only: sum.case prod.case)
qed

section \<open>What the loop recognises\<close>

lemma parse_loop_packet:
  assumes "wf_packet p" and "canonical_type (pkt_type p)"
  shows "parse_loop cb (packet_bytes p @ rest) s = parse_loop cb rest (cb p s)"
proof -
  let ?b = "packet_bytes p @ rest"
  have b: "?b = header_bytes (header p) @ payload p @ rest"
    using assms by (simp add: packet_bytes_wf)
  have rs: "read_size ?b = psize (header p)" and rt: "read_type ?b = pkt_type p"
    using assms by (simp_all add: b canonical_type_def)
  have size: "pkt_size p = length (payload p)" "pkt_size p \<le> MAX_PAYLOAD_SIZE"
    using assms by (simp_all add: wf_packet_def)
  have len: "HEADER_SIZE + unat (read_size ?b) \<le> length ?b"
    unfolding rs using size by (simp add: b)
  have d: "drop (HEADER_SIZE + pkt_size p) ?b = rest"
    using size by (simp add: b)
  have t: "take (pkt_size p) (drop HEADER_SIZE ?b) = payload p"
    using size by (simp add: b)
  have p: "mk_packet (pkt_type p) (psize (header p)) (payload p) = p"
    by (simp add: mk_packet_def)
  show ?thesis
    using parse_loop_step [OF len, of cb s] size unfolding rs rt d t p by simp
qed

lemma parse_loop_packets:
  "\<forall>p \<in> set ps. wf_packet p \<and> canonical_type (pkt_type p) \<Longrightarrow>
   parse_loop cb (concat (map packet_bytes ps) @ rest) s = parse_loop cb rest (fold cb ps s)"
  by (induction ps arbitrary: s) (simp_all add: parse_loop_packet)

text \<open>A prefix of a packet is left in the buffer.\<close>

definition partial_packet :: "string \<Rightarrow> bool" where
  "partial_packet b \<longleftrightarrow>
     length b < HEADER_SIZE \<or> length b < HEADER_SIZE + unat (read_size b)"

lemma partial_packet_Nil [simp]: "partial_packet []"
  by (simp add: partial_packet_def HEADER_SIZE_def)

lemma partial_packet_prefix:
  assumes "wf_packet p" and "n < HEADER_SIZE + pkt_size p"
  shows "partial_packet (take n (packet_bytes p))"
proof (cases "n < HEADER_SIZE")
  case True
  then have "length (take n (packet_bytes p)) < HEADER_SIZE" by simp
  then show ?thesis by (simp only: partial_packet_def simp_thms)
next
  case False
  then have "take n (packet_bytes p) =
      header_bytes (header p) @ take (n - HEADER_SIZE) (payload p)"
    using assms by (simp add: packet_bytes_wf)
  moreover have "n - HEADER_SIZE < length (payload p)"
    using assms False by (simp add: wf_packet_def)
  ultimately show ?thesis
    using assms by (simp add: partial_packet_def wf_packet_def)
qed

lemma parse_loop_partial: "partial_packet b \<Longrightarrow> parse_loop cb b s = Inr (b, s)"
  by (simp add: partial_packet_def parse_loop_stop)

text \<open>Every packet the loop hands to the callback is well formed, and what it leaves is partial.\<close>

lemma parsed_packet_ok:
  assumes "HEADER_SIZE + unat (read_size buf) \<le> length buf"
    and "unat (read_size buf) \<le> MAX_PAYLOAD_SIZE"
  shows "wf_packet (mk_packet (read_type buf) (read_size buf)
           (take (unat (read_size buf)) (drop HEADER_SIZE buf)))"
    and "canonical_type (read_type buf)"
  using assms by (simp_all add: wf_packet_def read_type_def)

lemma parse_loop_inv:
  assumes step: "\<And>p s. wf_packet p \<Longrightarrow> canonical_type (pkt_type p) \<Longrightarrow> P s \<Longrightarrow> P (cb p s)"
  shows "P s \<Longrightarrow> parse_loop cb b s = Inr (r, s') \<Longrightarrow> P s' \<and> partial_packet r"
  using step
proof (induction cb b s rule: parse_loop.induct)
  case (1 cb b s)
  let ?n = "HEADER_SIZE + unat (read_size b)"
  show ?case
  proof (cases "length b < HEADER_SIZE \<or> length b < ?n")
    case True
    with "1.prems" show ?thesis by (simp add: parse_loop_stop [OF True] partial_packet_def)
  next
    case False
    then have len: "?n \<le> length b" by simp
    with "1.prems"(2) have small: "unat (read_size b) \<le> MAX_PAYLOAD_SIZE"
      and rest: "parse_loop cb (drop ?n b)
        (cb (mk_packet (read_type b) (read_size b) (take (unat (read_size b)) (drop HEADER_SIZE b))) s)
        = Inr (r, s')"
      by (simp_all add: parse_loop_step [OF len] split: if_splits)
    from parsed_packet_ok [OF len small] "1.prems"(1,3)
    have P': "P (cb (mk_packet (read_type b) (read_size b) (take (unat (read_size b)) (drop HEADER_SIZE b))) s)"
      by simp
    from small have "\<not> PACKET_SIZE < ?n" by (simp add: PACKET_SIZE_def)
    from "1.IH" [OF _ refl refl _ this refl P' rest "1.prems"(3)] False show ?thesis by simp
  qed
qed

lemma receive_cases:
  assumes "receive f res m = (b, m')"
  obtains (closed) "b = False" "m' = m"
  | (data) c bs where "b" "res = Recv bs" "bs \<noteq> []" "getClient f m = Some c"
      "m' = set_buffer f (recvBuffer c @ bs) m"
  using assms by (auto simp: receive_def split: option.splits recv_result.splits if_splits)

lemma receiveAndParse_eq:
  assumes "getClient f m = Some c" and "bs \<noteq> []"
  shows "receiveAndParse f (Recv bs) cb m s =
    (case parse_loop (cb f) (recvBuffer c @ bs) s of
       Inl e \<Rightarrow> Inl e
     | Inr (rest, s') \<Rightarrow> Inr (True, set_buffer f rest (set_buffer f (recvBuffer c @ bs) m), s'))"
  using assms
  by (auto simp: receiveAndParse_def receive_def parsePackets_def client_simps split: sum.splits)

text \<open>What a successful call comes to, for any callback.\<close>

lemma receiveAndParse_cases:
  assumes "receiveAndParse f res cb m s = Inr (b, m', s')"
  obtains (closed) "b = False" "m' = m" "s' = s"
  | (parsed) c bs rest where "b" "res = Recv bs" "bs \<noteq> []" "getClient f m = Some c"
      "parse_loop (cb f) (recvBuffer c @ bs) s = Inr (rest, s')"
      "m' = set_buffer f rest (set_buffer f (recvBuffer c @ bs) m)"
proof -
  obtain b1 m1 where r: "receive f res m = (b1, m1)" by force
  then show thesis
  proof (cases rule: receive_cases)
    case closed
    with assms r show thesis by (intro that(1)) (simp_all add: receiveAndParse_def)
  next
    case (data c bs)
    note eq = receiveAndParse_eq [OF data(4,3), of cb s]
    from assms data(2) eq obtain rest where
      p: "parse_loop (cb f) (recvBuffer c @ bs) s = Inr (rest, s')"
        "m' = set_buffer f rest (set_buffer f (recvBuffer c @ bs) m)" "b"
      by (auto split: sum.splits)
    show thesis by (rule that(2) [OF p(3) data(2,3,4) p(1,2)])
  qed
qed

end
