(* ===== verification/Thread_Pool.thy ===== *)
theory Thread_Pool
  imports Prelude "HOL-Library.Multiset"
begin

text \<open>
  \<open>server/include/containers/SafeQueue.h\<close> and \<open>server/src/concurrency/ThreadPool.cpp\<close>: a FIFO queue behind a mutex
  and a condition variable, and workers that take tasks from it.

  A worker is at the test of its \<open>while (!m_stop)\<close>, inside \<open>wait_and_pop\<close>, running a task, or gone. The wait has
  the predicate \<open>!m_queue.empty()\<close>, so a worker leaves it only with a task, whatever woke it up: waking up
  with an empty queue is no step. The steps carry a label: a task pushed, or a task that ran to its end.
\<close>

section \<open>The queue\<close>

definition queue_push :: "'a \<Rightarrow> 'a list \<Rightarrow> 'a list" where
  "queue_push t q = q @ [t]"

text \<open>\<open>wait_and_pop\<close>: \<open>None\<close> while it has to wait.\<close>

definition wait_and_pop :: "'a list \<Rightarrow> ('a \<times> 'a list) option" where
  "wait_and_pop q = (case q of [] \<Rightarrow> None | t # ts \<Rightarrow> Some (t, ts))"

text \<open>The contract of a FIFO queue, and what it gives the pool.\<close>

locale fifo_queue =
  fixes push :: "'a \<Rightarrow> 'q \<Rightarrow> 'q"
    and pop :: "'q \<Rightarrow> ('a \<times> 'q) option"
    and contents :: "'q \<Rightarrow> 'a list"
  assumes push_contents: "contents (push t q) = contents q @ [t]"
    and pop_None: "pop q = None \<longleftrightarrow> contents q = []"
    and pop_Some: "pop q = Some (t, q') \<Longrightarrow> contents q = t # contents q'"
begin

lemma pop_after_push: "\<exists>t' q'. pop (push t q) = Some (t', q')"
  using pop_None [of "push t q"] push_contents [of t q] by (cases "pop (push t q)") auto

lemma pop_mset: "pop q = Some (t, q') \<Longrightarrow> mset (contents q) = add_mset t (mset (contents q'))"
  by (drule pop_Some) simp

lemma push_mset: "mset (contents (push t q)) = add_mset t (mset (contents q))"
  by (simp add: push_contents)

end

interpretation sq: fifo_queue queue_push wait_and_pop id
  by unfold_locales (auto simp: queue_push_def wait_and_pop_def split: list.splits)

section \<open>The pool\<close>

datatype 'a worker = Testing_Stop | In_Wait | Running 'a | Exited

record 'a pool =
  m_task_queue :: "'a list"
  m_workers :: "'a worker list"
  m_stop :: bool

definition thread_pool :: "nat \<Rightarrow> 'a pool" where
  "thread_pool num_threads =
     \<lparr>m_task_queue = [], m_workers = replicate num_threads Testing_Stop, m_stop = False\<rparr>"

definition enqueue :: "'a \<Rightarrow> 'a pool \<Rightarrow> 'a pool" where
  "enqueue t p = p\<lparr>m_task_queue := queue_push t (m_task_queue p)\<rparr>"

text \<open>The first half of the destructor; its second half joins every worker.\<close>

definition stop_pool :: "'a pool \<Rightarrow> 'a pool" where
  "stop_pool p = p\<lparr>m_stop := True\<rparr>"

definition all_joined :: "'a pool \<Rightarrow> bool" where
  "all_joined p \<longleftrightarrow> (\<forall>w \<in> set (m_workers p). w = Exited)"

text \<open>One step of \<open>worker_thread\<close>; the label is the task that has run, if any.\<close>

inductive worker_step :: "'a pool \<Rightarrow> 'a option \<Rightarrow> 'a pool \<Rightarrow> bool" where
  goes_on:
    "i < length (m_workers p) \<Longrightarrow> m_workers p ! i = Testing_Stop \<Longrightarrow> \<not> m_stop p \<Longrightarrow>
     worker_step p None (p\<lparr>m_workers := (m_workers p)[i := In_Wait]\<rparr>)"
| leaves:
    "i < length (m_workers p) \<Longrightarrow> m_workers p ! i = Testing_Stop \<Longrightarrow> m_stop p \<Longrightarrow>
     worker_step p None (p\<lparr>m_workers := (m_workers p)[i := Exited]\<rparr>)"
| takes:
    "i < length (m_workers p) \<Longrightarrow> m_workers p ! i = In_Wait \<Longrightarrow>
     wait_and_pop (m_task_queue p) = Some (t, q) \<Longrightarrow>
     worker_step p None (p\<lparr>m_task_queue := q, m_workers := (m_workers p)[i := Running t]\<rparr>)"
| runs:
    "i < length (m_workers p) \<Longrightarrow> m_workers p ! i = Running t \<Longrightarrow>
     worker_step p (Some t) (p\<lparr>m_workers := (m_workers p)[i := Testing_Stop]\<rparr>)"

inductive_cases worker_stepE: "worker_step p l p'"

datatype 'a pool_event = Enqueued 'a | Executed 'a

text \<open>A run of the pool, with the events in order.\<close>

inductive pool_run :: "'a pool \<Rightarrow> 'a pool_event list \<Rightarrow> 'a pool \<Rightarrow> bool" where
  run_refl: "pool_run p [] p"
| run_push: "pool_run p es p' \<Longrightarrow> pool_run p (es @ [Enqueued t]) (enqueue t p')"
| run_silent: "pool_run p es p' \<Longrightarrow> worker_step p' None p'' \<Longrightarrow> pool_run p es p''"
| run_exec: "pool_run p es p' \<Longrightarrow> worker_step p' (Some t) p'' \<Longrightarrow> pool_run p (es @ [Executed t]) p''"
| run_stop: "pool_run p es p' \<Longrightarrow> pool_run p es (stop_pool p')"

fun enqueued :: "'a pool_event list \<Rightarrow> 'a list" where
  "enqueued [] = []"
| "enqueued (Enqueued t # es) = t # enqueued es"
| "enqueued (Executed t # es) = enqueued es"

fun executed :: "'a pool_event list \<Rightarrow> 'a list" where
  "executed [] = []"
| "executed (Enqueued t # es) = executed es"
| "executed (Executed t # es) = t # executed es"

fun running_task :: "'a worker \<Rightarrow> 'a list" where
  "running_task (Running t) = [t]"
| "running_task _ = []"

definition running :: "'a pool \<Rightarrow> 'a list" where
  "running p = concat (map running_task (m_workers p))"

definition pending :: "'a pool \<Rightarrow> 'a list" where
  "pending p = running p @ m_task_queue p"

lemma enqueued_append [simp]: "enqueued (xs @ ys) = enqueued xs @ enqueued ys"
  by (induction xs rule: enqueued.induct) simp_all

lemma executed_append [simp]: "executed (xs @ ys) = executed xs @ executed ys"
  by (induction xs rule: executed.induct) simp_all

lemma mset_running_update:
  "i < length ws \<Longrightarrow>
   mset (concat (map running_task (ws[i := w]))) + mset (running_task (ws ! i)) =
   mset (concat (map running_task ws)) + mset (running_task w)"
proof (induction ws arbitrary: i)
  case Nil
  then show ?case by simp
next
  case (Cons x ws)
  then show ?case by (cases i) (auto simp: ac_simps)
qed

lemma worker_step_mset:
  "worker_step p l p' \<Longrightarrow>
   mset (pending p) = mset (pending p') + (case l of None \<Rightarrow> {#} | Some t \<Rightarrow> {#t#})"
proof (induction rule: worker_step.induct)
  case (goes_on i p)
  then show ?case using mset_running_update [of i "m_workers p" In_Wait]
    by (simp add: pending_def running_def)
next
  case (leaves i p)
  then show ?case using mset_running_update [of i "m_workers p" Exited]
    by (simp add: pending_def running_def)
next
  case (takes i p t q)
  then show ?case using mset_running_update [of i "m_workers p" "Running t"] sq.pop_mset [of "m_task_queue p" t q]
    by (simp add: pending_def running_def)
next
  case (runs i p t)
  then show ?case using mset_running_update [of i "m_workers p" Testing_Stop]
    by (simp add: pending_def running_def)
qed

text \<open>
  C25. No task is lost and none runs twice: at every moment of every run of the pool, the tasks that
  have run together with the tasks still queued or running are exactly the tasks enqueued.
\<close>

theorem pool_conserves_tasks:
  assumes "pool_run (thread_pool n) es p"
  shows "mset (executed es) + mset (pending p) = mset (enqueued es)"
  using assms
proof (induction "thread_pool n :: 'a pool" es p rule: pool_run.induct)
  case run_refl
  then show ?case by (induction n) (simp_all add: pending_def running_def thread_pool_def)
next
  case (run_push es p' t)
  then show ?case by (simp add: pending_def running_def enqueue_def queue_push_def)
next
  case (run_silent es p' p'')
  then show ?case using worker_step_mset [of p' None p''] by simp
next
  case (run_exec es p' t p'')
  then show ?case using worker_step_mset [of p' "Some t" p''] by simp
next
  case (run_stop es p')
  then show ?case by (simp add: pending_def running_def stop_pool_def)
qed

section \<open>Order of execution\<close>

lemma length_workers_step: "worker_step p l p' \<Longrightarrow> length (m_workers p') = length (m_workers p)"
  by (induction rule: worker_step.induct) simp_all

lemma length_workers_run: "pool_run p es p' \<Longrightarrow> length (m_workers p') = length (m_workers p)"
  by (induction rule: pool_run.induct)
    (simp_all add: length_workers_step enqueue_def stop_pool_def)

lemma single_worker_step:
  assumes "worker_step p l p'" and "length (m_workers p) = 1"
  shows "pending p = (case l of None \<Rightarrow> [] | Some t \<Rightarrow> [t]) @ pending p'"
proof -
  obtain w where w: "m_workers p = [w]"
    using assms(2) by (auto simp: length_Suc_conv)
  from assms(1) w show ?thesis
    by (cases rule: worker_step.cases)
      (auto simp: pending_def running_def wait_and_pop_def split: list.splits)
qed

text \<open>
  With one worker the pool is first in, first out: the tasks run in the order in which they were
  enqueued, and what is left is the rest of that order.
\<close>

theorem single_worker_fifo:
  assumes "pool_run (thread_pool 1) es p"
  shows "executed es @ pending p = enqueued es"
  using assms
proof (induction "thread_pool 1 :: 'a pool" es p rule: pool_run.induct)
  case run_refl
  then show ?case by (simp add: pending_def running_def thread_pool_def)
next
  case (run_push es p' t)
  then show ?case by (simp add: pending_def running_def enqueue_def queue_push_def)
next
  case (run_silent es p' p'')
  then show ?case
    using single_worker_step [of p' None p''] length_workers_run [of "thread_pool 1" es p']
    by (simp add: thread_pool_def)
next
  case (run_exec es p' t p'')
  then show ?case
    using single_worker_step [of p' "Some t" p''] length_workers_run [of "thread_pool 1" es p']
    by (simp add: thread_pool_def)
next
  case (run_stop es p')
  then show ?case by (simp add: pending_def running_def stop_pool_def)
qed

text \<open>A concrete run with two workers: both tasks are taken, the second one finishes first.\<close>

definition overtaking_events :: "nat pool_event list" where
  "overtaking_events = [Enqueued 1, Enqueued 2, Executed 2, Executed 1]"

lemma worker_step_at:
  "i < length (m_workers p) \<Longrightarrow> m_workers p ! i = Testing_Stop \<Longrightarrow> \<not> m_stop p \<Longrightarrow>
     p' = p\<lparr>m_workers := (m_workers p)[i := In_Wait]\<rparr> \<Longrightarrow> worker_step p None p'"
  "i < length (m_workers p) \<Longrightarrow> m_workers p ! i = In_Wait \<Longrightarrow> m_task_queue p = t # q \<Longrightarrow>
     p' = p\<lparr>m_task_queue := q, m_workers := (m_workers p)[i := Running t]\<rparr> \<Longrightarrow> worker_step p None p'"
  "i < length (m_workers p) \<Longrightarrow> m_workers p ! i = Running t \<Longrightarrow>
     p' = p\<lparr>m_workers := (m_workers p)[i := Testing_Stop]\<rparr> \<Longrightarrow> worker_step p (Some t) p'"
  by (auto simp: wait_and_pop_def intro: goes_on takes runs)

lemma overtaking_run: "\<exists>p. pool_run (thread_pool 2) overtaking_events p"
proof -
  let ?p = "\<lambda>q (a :: nat worker) b. \<lparr>m_task_queue = q, m_workers = [a, b], m_stop = False\<rparr>"
  have 0: "pool_run (thread_pool 2) [] (?p [] Testing_Stop Testing_Stop)"
    using run_refl [of "thread_pool 2"] by (simp add: thread_pool_def numeral_2_eq_2)
  from run_push [OF run_push [OF 0, of 1], of 2]
  have "pool_run (thread_pool 2) [Enqueued 1, Enqueued 2] (?p [1, 2] Testing_Stop Testing_Stop)"
    by (simp add: enqueue_def queue_push_def)
  from run_silent [OF this worker_step_at(1) [of 0]]
  have "pool_run (thread_pool 2) [Enqueued 1, Enqueued 2] (?p [1, 2] In_Wait Testing_Stop)" by simp
  from run_silent [OF this worker_step_at(1) [of 1]]
  have "pool_run (thread_pool 2) [Enqueued 1, Enqueued 2] (?p [1, 2] In_Wait In_Wait)" by simp
  from run_silent [OF this worker_step_at(2) [of 0 _ 1 "[2]"]]
  have "pool_run (thread_pool 2) [Enqueued 1, Enqueued 2] (?p [2] (Running 1) In_Wait)" by simp
  from run_silent [OF this worker_step_at(2) [of 1 _ 2 "[]"]]
  have "pool_run (thread_pool 2) [Enqueued 1, Enqueued 2] (?p [] (Running 1) (Running 2))" by simp
  from run_exec [OF this worker_step_at(3) [of 1 _ 2]]
  have "pool_run (thread_pool 2) [Enqueued 1, Enqueued 2, Executed 2] (?p [] (Running 1) Testing_Stop)"
    by simp
  from run_exec [OF this worker_step_at(3) [of 0 _ 1]]
  have "pool_run (thread_pool 2) overtaking_events (?p [] Testing_Stop Testing_Stop)"
    by (simp add: overtaking_events_def)
  then show ?thesis by blast
qed

text \<open>
  With two workers the order is lost: there is a run in which the task enqueued second has run to
  its end before the first one. Two packets of one client, parsed in order, can so be handled in the
  opposite order.
\<close>

theorem two_workers_overtake:
  shows "\<exists>p. pool_run (thread_pool 2) overtaking_events p
           \<and> enqueued overtaking_events = [1, 2] \<and> executed overtaking_events = [2, 1]"
  using overtaking_run by (auto simp: overtaking_events_def)

section \<open>Shutting down\<close>

definition stuck_in_wait :: "'a pool \<Rightarrow> bool" where
  "stuck_in_wait p \<longleftrightarrow> m_stop p \<and> m_task_queue p = [] \<and> In_Wait \<in> set (m_workers p)"

lemma stuck_step:
  assumes "stuck_in_wait p" and "worker_step p l p'"
  shows "stuck_in_wait p'"
proof -
  have keep: "In_Wait \<in> set (ws[i := w])" if "In_Wait \<in> set ws" "i < length ws" "ws ! i \<noteq> In_Wait"
    for ws :: "'a worker list" and i w
    using that by (metis in_set_conv_nth length_list_update nth_list_update_neq)
  from assms(2,1) show ?thesis
    by (cases rule: worker_step.cases)
      (auto simp: stuck_in_wait_def wait_and_pop_def intro: keep)
qed

text \<open>
  Shutting the pool down blocks for ever as soon as one worker waits on an empty queue: the
  destructor's \<open>notify_all\<close> wakes the worker, but its wait condition does not mention \<open>m_stop\<close>, so
  whatever the workers do afterwards, \<open>join\<close> never succeeds for all of them.
\<close>

theorem pool_shutdown_deadlock:
  assumes "m_task_queue p = []" and "In_Wait \<in> set (m_workers p)"
    and "rtranclp (\<lambda>a b. \<exists>l. worker_step a l b) (stop_pool p) p'"
  shows "\<not> all_joined p'"
proof -
  have "stuck_in_wait (stop_pool p)" using assms(1,2) by (simp add: stuck_in_wait_def stop_pool_def)
  with assms(3) have "stuck_in_wait p'"
    by (induction rule: rtranclp_induct) (auto dest: stuck_step)
  then show ?thesis by (auto simp: stuck_in_wait_def all_joined_def)
qed

theorem pool_shutdown_deadlock_witness:
  "\<not> all_joined (stop_pool (\<lparr>m_task_queue = [], m_workers = [In_Wait], m_stop = False\<rparr> :: nat pool))"
  by (rule pool_shutdown_deadlock [of "\<lparr>m_task_queue = [], m_workers = [In_Wait], m_stop = False\<rparr>"])
    simp_all

theorem pool_conserves_tasks_witness:
  "mset (executed overtaking_events) = mset (enqueued overtaking_events)"
proof -
  obtain p where "pool_run (thread_pool 2) overtaking_events p"
    using overtaking_run by blast
  then show ?thesis
    using pool_conserves_tasks [of 2 overtaking_events p]
    by (simp add: overtaking_events_def)
qed

theorem single_worker_fifo_witness:
  "executed [Enqueued (7 :: nat)] @ pending (enqueue 7 (thread_pool 1)) = enqueued [Enqueued 7]"
  using single_worker_fifo [OF run_push [OF run_refl, of "thread_pool 1" 7]] by simp

end
