(* ===== verification/Server.thy ===== *)
theory Server
  imports Handler_Facts Packet_Receiver Thread_Pool
begin

text \<open>
  \<open>server/src/application/Server.cpp\<close> and \<open>server/src/network/ConnectionManager.cpp\<close>: the event loop accepts connections, receives
  and parses, hands each packet to the thread pool and closes connections; the workers run the handlers.

  The world is the server's data, the pool, and the set of descriptors registered with epoll. The kernel
  is a parameter: the connection \<open>accept\<close> returns, whether \<open>epoll_ctl\<close> succeeds, what \<open>recv\<close> returns. A
  handler runs as one step of its worker; a packet that would overflow the parser's stack buffer ends
  the world with a memory error.
\<close>

section \<open>Connections\<close>

type_synonym task = "fd \<times> packet"

record world =
  srv :: server
  pool :: "task pool"
  epoll_fds :: "fd set"

record connection_info =
  conn_fd :: fd
  conn_ip :: string

definition isValid :: "connection_info \<Rightarrow> bool" where
  "isValid c \<longleftrightarrow> conn_fd c > 0"

definition on_clients :: "(client_manager \<Rightarrow> client_manager) \<Rightarrow> world \<Rightarrow> world" where
  "on_clients g w = w\<lparr>srv := (srv w)\<lparr>client_mgr := g (client_mgr (srv w))\<rparr>\<rparr>"

text \<open>\<open>addFd_ok\<close> is the answer of \<open>epoll_ctl\<close>; on failure the descriptor is closed again.\<close>

definition acceptNewConnection :: "connection_info \<Rightarrow> bool \<Rightarrow> world \<Rightarrow> world" where
  "acceptNewConnection conn addFd_ok w =
     (if \<not> isValid conn then w
      else if \<not> addFd_ok then w
      else on_clients (addClient (conn_fd conn) (conn_ip conn))
             (w\<lparr>epoll_fds := insert (conn_fd conn) (epoll_fds w)\<rparr>))"

definition closeConnection :: "fd \<Rightarrow> world \<Rightarrow> world" where
  "closeConnection client_fd w =
     (let w1 = (if getClient client_fd (client_mgr (srv w)) \<noteq> None
                then on_clients (removeClient client_fd) w else w)
      in w1\<lparr>epoll_fds := epoll_fds w1 - {client_fd}\<rparr>)"

text \<open>The callback of the event loop: the packet becomes a task of the pool.\<close>

definition submit :: "fd \<Rightarrow> packet \<Rightarrow> task pool \<Rightarrow> task pool" where
  "submit client_fd p = enqueue (client_fd, p)"

definition handleEvent ::
  "fd \<Rightarrow> fd \<Rightarrow> connection_info \<Rightarrow> bool \<Rightarrow> recv_result \<Rightarrow> world \<Rightarrow> memory_error + world" where
  "handleEvent listener_fd ev_fd conn addFd_ok res w =
     (if ev_fd = listener_fd then Inr (acceptNewConnection conn addFd_ok w)
      else
        (case receiveAndParse ev_fd res submit (client_mgr (srv w)) (pool w) of
           Inl e \<Rightarrow> Inl e
         | Inr (success, cm, pl) \<Rightarrow>
             let w1 = w\<lparr>srv := (srv w)\<lparr>client_mgr := cm\<rparr>, pool := pl\<rparr>
             in Inr (if success then w1 else closeConnection ev_fd w1)))"

definition initial_world :: "nat \<Rightarrow> fd \<Rightarrow> world" where
  "initial_world num_threads listener_fd =
     \<lparr>srv = \<lparr>client_mgr = empty_client_manager, room_mgr = empty_room_manager, sends = []\<rparr>,
      pool = thread_pool num_threads, epoll_fds = {listener_fd}\<rparr>"

section \<open>The step relation\<close>

text \<open>
  An event on a registered descriptor (\<open>epoll\<close> reports no other), or a step of a worker. The kernel's
  part: a descriptor returned by \<open>accept\<close> is not open, so it is neither the listener's nor registered.
\<close>

definition fresh_fd :: "fd \<Rightarrow> world \<Rightarrow> bool" where
  "fresh_fd f w \<longleftrightarrow> f \<notin> epoll_fds w"

inductive server_step :: "platform \<Rightarrow> fd \<Rightarrow> world \<Rightarrow> world \<Rightarrow> bool"
  for pf :: platform and listener_fd :: fd where
  event:
    "ev_fd \<in> epoll_fds w \<Longrightarrow> conn_fd conn \<le> 0 \<or> fresh_fd (conn_fd conn) w \<Longrightarrow>
     handleEvent listener_fd ev_fd conn addFd_ok res w = Inr w' \<Longrightarrow>
     server_step pf listener_fd w w'"
| worker:
    "worker_step (pool w) None pl \<Longrightarrow> server_step pf listener_fd w (w\<lparr>pool := pl\<rparr>)"
| handler:
    "worker_step (pool w) (Some (f, p)) pl \<Longrightarrow>
     server_step pf listener_fd w (w\<lparr>pool := pl, srv := packet_handle pf now f p (srv w)\<rparr>)"


section \<open>The invariant\<close>

text \<open>
  Everything the server's data promises, the packets sent and queued being well formed, every receive
  buffer holding less than one packet, and every client being registered with epoll.
\<close>

definition task_ok :: "task \<Rightarrow> bool" where
  "task_ok t \<longleftrightarrow> wf_packet (snd t) \<and> canonical_type (pkt_type (snd t))"

definition tasks_ok :: "task pool \<Rightarrow> bool" where
  "tasks_ok p \<longleftrightarrow> (\<forall>t \<in> set (pending p). task_ok t)"

definition buffers_ok :: "client_manager \<Rightarrow> bool" where
  "buffers_ok m \<longleftrightarrow> (\<forall>f c. getClient f m = Some c \<longrightarrow> partial_packet (recvBuffer c))"

definition world_ok :: "fd \<Rightarrow> world \<Rightarrow> bool" where
  "world_ok listener_fd w \<longleftrightarrow>
     srv_ok (srv w) \<and> sends_ok (srv w) \<and> tasks_ok (pool w) \<and> buffers_ok (client_mgr (srv w)) \<and>
     (\<forall>f. getClient f (client_mgr (srv w)) \<noteq> None \<longrightarrow> f \<in> epoll_fds w \<and> f \<noteq> listener_fd)"

lemma world_ok_initial: "world_ok l (initial_world n l)"
  by (simp add: world_ok_def initial_world_def srv_ok_def cm_ok_empty rm_ok_empty room_link_def
      sends_ok_def tasks_ok_def pending_def running_def thread_pool_def buffers_ok_def client_simps)

lemma tasks_ok_submit: "wf_packet p \<Longrightarrow> canonical_type (pkt_type p) \<Longrightarrow> tasks_ok q \<Longrightarrow> tasks_ok (submit f p q)"
  by (auto simp: tasks_ok_def task_ok_def submit_def enqueue_def queue_push_def pending_def running_def)

lemma tasks_ok_step:
  assumes "worker_step p l p'" and "tasks_ok p"
  shows "tasks_ok p'" and "l = Some t \<Longrightarrow> task_ok t"
proof -
  have "set (pending p') \<subseteq> set (pending p)" and "l = Some t \<Longrightarrow> t \<in> set (pending p)"
    using worker_step_mset [OF assms(1)]
    by (auto simp: set_mset_mset [symmetric] simp del: set_mset_mset split: option.splits)
  with assms(2) show "tasks_ok p'" and "l = Some t \<Longrightarrow> task_ok t"
    by (auto simp: tasks_ok_def)
qed

lemma srv_ok_addClient: "srv_ok s \<Longrightarrow> srv_ok (s\<lparr>client_mgr := addClient f a (client_mgr s)\<rparr>)"
  by (auto simp: srv_ok_def cm_ok_addClient room_link_def client_simps new_client_def)

lemma srv_ok_removeClient: "srv_ok s \<Longrightarrow> srv_ok (s\<lparr>client_mgr := removeClient f (client_mgr s)\<rparr>)"
  by (auto simp: srv_ok_def cm_ok_removeClient room_link_def client_simps)

lemma srv_ok_set_buffer: "srv_ok s \<Longrightarrow> srv_ok (s\<lparr>client_mgr := set_buffer f b (client_mgr s)\<rparr>)"
  by (auto simp: srv_ok_def cm_ok_set_buffer room_link_def client_simps)

lemma same_buffers_client:
  "same_buffers m m' \<Longrightarrow> getClient g m' \<noteq> None \<longleftrightarrow> getClient g m \<noteq> None"
  unfolding same_buffers_def by (metis map_option_is_None)

lemma same_buffers_ok: "same_buffers m m' \<Longrightarrow> buffers_ok m \<Longrightarrow> buffers_ok m'"
  unfolding same_buffers_def buffers_ok_def by (metis map_option_eq_Some)

text \<open>
  What an event keeps of the world, for any condition on the tables that connections, disconnections and the
  receive buffers leave alone.
\<close>

definition world_with :: "(server \<Rightarrow> bool) \<Rightarrow> fd \<Rightarrow> world \<Rightarrow> bool" where
  "world_with I listener_fd w \<longleftrightarrow>
     I (srv w) \<and> sends_ok (srv w) \<and> tasks_ok (pool w) \<and> buffers_ok (client_mgr (srv w)) \<and>
     (\<forall>f. getClient f (client_mgr (srv w)) \<noteq> None \<longrightarrow> f \<in> epoll_fds w \<and> f \<noteq> listener_fd)"

lemma world_ok_with: "world_ok = world_with srv_ok"
  by (intro ext) (simp add: world_ok_def world_with_def)

locale table_invariant =
  fixes I :: "server \<Rightarrow> bool"
  assumes connect: "I s \<Longrightarrow> I (s\<lparr>client_mgr := addClient f a (client_mgr s)\<rparr>)"
    and disconnect: "I s \<Longrightarrow> I (s\<lparr>client_mgr := removeClient f (client_mgr s)\<rparr>)"
    and buffer: "I s \<Longrightarrow> I (s\<lparr>client_mgr := set_buffer f b (client_mgr s)\<rparr>)"
begin

lemma keeps_accept:
  assumes "world_with I l w" and "conn_fd c \<le> 0 \<or> fresh_fd (conn_fd c) w" and "l \<in> epoll_fds w"
  shows "world_with I l (acceptNewConnection c b w)"
  using assms
  by (auto simp: acceptNewConnection_def world_with_def on_clients_def isValid_def connect
      buffers_ok_def client_simps new_client_def fresh_fd_def)

lemma keeps_close: "world_with I l w \<Longrightarrow> world_with I l (closeConnection f w)"
  by (auto simp: closeConnection_def world_with_def on_clients_def disconnect Let_def
      buffers_ok_def client_simps)

lemma keeps_event:
  assumes ok: "world_with I l w" and l: "l \<in> epoll_fds w"
    and conn: "conn_fd c \<le> 0 \<or> fresh_fd (conn_fd c) w"
    and h: "handleEvent l f c b res w = Inr w'"
  shows "world_with I l w' \<and> l \<in> epoll_fds w'"
proof (cases "f = l")
  case True
  with h have "w' = acceptNewConnection c b w" by (simp add: handleEvent_def)
  with keeps_accept [OF ok conn l] l show ?thesis
    by (simp add: acceptNewConnection_def on_clients_def)
next
  case False
  then obtain success cm pl where r:
      "receiveAndParse f res submit (client_mgr (srv w)) (pool w) = Inr (success, cm, pl)"
    and w': "w' = (let w1 = w\<lparr>srv := (srv w)\<lparr>client_mgr := cm\<rparr>, pool := pl\<rparr>
                  in if success then w1 else closeConnection f w1)"
    using h by (auto simp: handleEvent_def Let_def split: sum.splits)
  let ?w1 = "w\<lparr>srv := (srv w)\<lparr>client_mgr := cm\<rparr>, pool := pl\<rparr>"
  from r have "world_with I l ?w1"
  proof (cases rule: receiveAndParse_cases)
    case closed
    with ok show ?thesis by simp
  next
    case (parsed c bs rest)
    from parse_loop_inv [where P = tasks_ok and cb = "submit f", OF tasks_ok_submit _ parsed(5)] ok
    have "tasks_ok pl" "partial_packet rest" by (auto simp: world_with_def)
    with ok parsed buffer [OF buffer [of "srv w" f "recvBuffer c @ bs"], of f rest]
    show ?thesis by (auto simp: world_with_def buffers_ok_def client_simps)
  qed
  with l False keeps_close [of l ?w1 f] show ?thesis
    by (auto simp: w' Let_def closeConnection_def on_clients_def)
qed

end

interpretation so: table_invariant srv_ok
  by unfold_locales (simp_all add: srv_ok_addClient srv_ok_removeClient srv_ok_set_buffer)

lemma world_ok_worker:
  assumes "world_ok l w" and "worker_step (pool w) None pl"
  shows "world_ok l (w\<lparr>pool := pl\<rparr>)"
  using assms tasks_ok_step(1) [OF assms(2)] by (simp add: world_ok_def)

lemma world_ok_handler:
  assumes "world_ok l w" and "worker_step (pool w) (Some (f, p)) pl"
  shows "world_ok l (w\<lparr>pool := pl, srv := packet_handle pf now f p (srv w)\<rparr>)"
  using assms tasks_ok_step(1) [OF assms(2)] same_buffers_handle [of "srv w" pf now f p]
  by (auto simp: world_ok_def srv_ok_handle sends_ok_handle dest: same_buffers_client same_buffers_ok)

definition server_inv :: "fd \<Rightarrow> world \<Rightarrow> bool" where
  "server_inv l w \<longleftrightarrow> world_ok l w \<and> l \<in> epoll_fds w"

interpretation sv: transition_invariant "server_step pf l" "server_inv l" for pf l
proof
  fix w w'
  assume inv: "server_inv l w" and "server_step pf l w w'"
  from this(2) show "server_inv l w'"
    by (cases rule: server_step.cases)
      (use inv in \<open>auto simp: server_inv_def dest: so.keeps_event [folded world_ok_with] intro: world_ok_worker world_ok_handler\<close>)
qed

lemma server_inv_initial: "server_inv l (initial_world n l)"
  using world_ok_initial [of l n] by (simp add: server_inv_def initial_world_def)

lemma server_inv_reachable:
  "reachable (server_step pf l) (initial_world n l) w \<Longrightarrow> server_inv l w"
  using server_inv_initial by (rule sv.invariant_reachable [rotated])

end
