(* ===== verification/Server_Properties.thy ===== *)
theory Server_Properties
  imports Server
begin

text \<open>
  The properties of the server as a whole: what holds in every reachable world, what each request does,
  how a byte stream becomes tasks, and the behaviours that break the protocol's promises (descriptors
  left in rooms, rooms nobody can enter, nicknames that stay taken, tasks of a closed connection).
\<close>

section \<open>Demonstration states\<close>

text \<open>
  The state the witnesses start from: clients 5 (\<open>al\<close>) and 6 (\<open>bo\<close>) in the room \<open>r\<close>, client 7 not
  authenticated and in no room.
\<close>

definition demo_platform :: platform where
  "demo_platform = \<lparr>draw = (\<lambda>i. i mod 62), dtoa = (\<lambda>_. ''0.5''), oor = (\<lambda>_. 0)\<rparr>"

definition demo_client :: "fd \<Rightarrow> string \<Rightarrow> string \<Rightarrow> client_info" where
  "demo_client f n code =
     \<lparr>ci_fd = f, ip = ''10.0.0.1'', nickname = n, isAuthenticated = n \<noteq> [], recvBuffer = [],
      ci_roomCode = code\<rparr>"

definition demo_server :: server where
  "demo_server =
     \<lparr>client_mgr =
        \<lparr>m_clients = [(5, demo_client 5 ''al'' ''r''), (6, demo_client 6 ''bo'' ''r''),
                      (7, demo_client 7 [] [])],
         m_nicknames = {''al'', ''bo''}\<rparr>,
      room_mgr =
        \<lparr>rooms = [(''r'', \<lparr>roomCode = ''r'', roomName = ''n'', maxUserCnt = 3, clients = [5, 6]\<rparr>)],
         rng_pos = 0\<rparr>,
      sends = []\<rparr>"

definition demo_world :: world where
  "demo_world = \<lparr>srv = demo_server, pool = thread_pool 2, epoll_fds = {3, 5, 6, 7}\<rparr>"

lemma demo_client_of:
  "getClient 5 (client_mgr demo_server) = Some (demo_client 5 ''al'' ''r'')"
  "getClient 6 (client_mgr demo_server) = Some (demo_client 6 ''bo'' ''r'')"
  "getClient 7 (client_mgr demo_server) = Some (demo_client 7 [] [])"
  by (simp_all add: getClient_def demo_server_def)

lemma getClient_demo:
  "getClient f (client_mgr demo_server) =
     (if f = 5 then Some (demo_client 5 ''al'' ''r'') else if f = 6 then Some (demo_client 6 ''bo'' ''r'')
      else if f = 7 then Some (demo_client 7 [] []) else None)"
  by (simp add: getClient_def demo_server_def)

lemma demo_members: "room_members demo_server ''r'' = [5, 6]"
  by (simp add: room_members_def members_def getRoom_def demo_server_def)

lemma demo_nicknames: "isNicknameTaken n (client_mgr demo_server) \<longleftrightarrow> n = ''al'' \<or> n = ''bo''"
  by (auto simp: isNicknameTaken_def demo_server_def)

lemma demo_ok: "srv_ok demo_server"
proof -
  have "cm_ok (client_mgr demo_server)"
    unfolding cm_ok_def cm_wf_def nicks_covered_def nicks_unique_def getClient_demo
    by (auto simp: demo_server_def demo_client_def al_distinct_def split: if_splits)
  moreover have "rm_ok (room_mgr demo_server)"
    by (simp add: rm_ok_def room_ok_def demo_server_def unat_capacity al_distinct_def)
  moreover have "room_link (client_mgr demo_server) (room_mgr demo_server)"
    unfolding room_link_def getClient_demo
    by (auto simp: demo_server_def demo_client_def members_def getRoom_def split: if_splits)
  ultimately show ?thesis by (simp add: srv_ok_def)
qed

text \<open>
  A run from the start: a connection is accepted as descriptor 5, its nickname request arrives, the only
  worker takes it and runs it.
\<close>

definition demo_request :: packet where
  "demo_request = text_packet NICKNAME_REQUEST ''{\"nickname\":\"a\"}''"

definition demo_accepted :: world where
  "demo_accepted = acceptNewConnection \<lparr>conn_fd = 5, conn_ip = ''10.0.0.1''\<rparr> True (initial_world 1 3)"

definition demo_registered :: server where
  "demo_registered =
     \<lparr>client_mgr =
        \<lparr>m_clients = [(5, (new_client 5 ''10.0.0.1'')\<lparr>nickname := ''a'', isAuthenticated := True\<rparr>)],
         m_nicknames = {''a''}\<rparr>,
      room_mgr = empty_room_manager, sends = [(5, mk_packet NICKNAME_RESPONSE_OK 0 [])]\<rparr>"

lemma demo_request_parsed: "json_parse (payload_str demo_request) = Inr (JObject [(''nickname'', JString ''a'')])"
  unfolding demo_request_def by code_simp

lemma demo_request_ok: "wf_packet demo_request" "canonical_type (pkt_type demo_request)"
  by (auto simp: demo_request_def MAX_PAYLOAD_SIZE_def intro!: wf_text_packet)

lemma demo_accepted_srv:
  "srv demo_accepted =
     \<lparr>client_mgr = \<lparr>m_clients = [(5, new_client 5 ''10.0.0.1'')], m_nicknames = {}\<rparr>,
      room_mgr = empty_room_manager, sends = []\<rparr>"
  "pool demo_accepted = thread_pool 1"
  "epoll_fds demo_accepted = {3, 5}"
  by (auto simp: demo_accepted_def acceptNewConnection_def isValid_def on_clients_def initial_world_def
      addClient_def empty_client_manager_def)

lemma demo_handled: "packet_handle pf now 5 demo_request (srv demo_accepted) = demo_registered"
proof -
  have "pkt_type demo_request = NICKNAME_REQUEST" by (simp add: demo_request_def)
  then show ?thesis
    by (simp add: packet_handle_def m_handlers_def nickname_handle_def nickname_body_def
        demo_request_parsed has_field_def contains_def json_at_def string_field_def get_string_def
        isNicknameTaken_def setNickname_def respond_def sendPacket_def demo_accepted_srv demo_registered_def)
qed

definition one_worker :: "task list \<Rightarrow> task worker \<Rightarrow> task pool" where
  "one_worker q a = \<lparr>m_task_queue = q, m_workers = [a], m_stop = False\<rparr>"

text \<open>The request of client 5 in the queue, taken by the worker, and handled, with the worker waiting again.\<close>

lemma demo_run_queued:
  "\<exists>w. reachable (server_step pf 3) (initial_world 1 3) w \<and> srv w = srv demo_accepted
     \<and> pool w = one_worker [(5, demo_request)] Testing_Stop"
proof -
  let ?R = "reachable (server_step pf 3) (initial_world 1 3)"
  have go: "?R w \<Longrightarrow> server_step pf 3 w w' \<Longrightarrow> ?R w'" for w w' by (rule next_state)
  have acc: "?R demo_accepted"
  proof (rule go [OF start], rule event)
    show "3 \<in> epoll_fds (initial_world 1 3)" by (simp add: initial_world_def)
    show "conn_fd \<lparr>conn_fd = 5, conn_ip = ''10.0.0.1''\<rparr> \<le> 0 \<or>
        fresh_fd (conn_fd \<lparr>conn_fd = 5, conn_ip = ''10.0.0.1''\<rparr>) (initial_world 1 3)"
      by (simp add: fresh_fd_def initial_world_def)
    show "handleEvent 3 3 \<lparr>conn_fd = 5, conn_ip = ''10.0.0.1''\<rparr> True Recv_Error (initial_world 1 3)
        = Inr demo_accepted"
      by (simp add: handleEvent_def demo_accepted_def)
  qed
  let ?w = "\<lambda>q a. demo_accepted\<lparr>pool := one_worker q a\<rparr>"
  have recv: "handleEvent 3 5 c b (Recv (packet_bytes demo_request)) demo_accepted
      = Inr (?w [(5, demo_request)] Testing_Stop)" for c b
  proof -
    have c: "getClient 5 (client_mgr (srv demo_accepted)) = Some (new_client 5 ''10.0.0.1'')"
      by (simp add: demo_accepted_srv getClient_def)
    have ne: "packet_bytes demo_request \<noteq> []"
      using length_packet_bytes [OF demo_request_ok(1)] by (auto simp: HEADER_SIZE_def)
    have "parse_loop (submit 5) ([] @ packet_bytes demo_request @ []) (thread_pool 1)
        = Inr ([], submit 5 demo_request (thread_pool 1))"
      by (simp only: append_Nil parse_loop_packet [OF demo_request_ok] parse_loop_partial [OF partial_packet_Nil])
    with receiveAndParse_eq [OF c ne, of submit "thread_pool 1"]
    have "receiveAndParse 5 (Recv (packet_bytes demo_request)) submit (client_mgr (srv demo_accepted)) (thread_pool 1)
      = Inr (True, client_mgr (srv demo_accepted), submit 5 demo_request (thread_pool 1))"
      by (simp add: new_client_def demo_accepted_srv set_buffer_def update_client_def)
    then show ?thesis
      by (simp add: handleEvent_def demo_accepted_srv Let_def submit_def enqueue_def queue_push_def thread_pool_def one_worker_def)
  qed
  have "server_step pf 3 demo_accepted (?w [(5, demo_request)] Testing_Stop)"
    by (rule event [OF _ _ recv [of "\<lparr>conn_fd = - 1, conn_ip = []\<rparr>" True]])
      (simp_all add: demo_accepted_srv(3))
  from go [OF acc this] have "?R (?w [(5, demo_request)] Testing_Stop)" .
  then show ?thesis by (intro exI [of _ "?w [(5, demo_request)] Testing_Stop"]) simp
qed

lemma one_worker_moves:
  "pool w = one_worker q Testing_Stop \<Longrightarrow> server_step pf l w (w\<lparr>pool := one_worker q In_Wait\<rparr>)"
  "pool w = one_worker (t # q) In_Wait \<Longrightarrow> server_step pf l w (w\<lparr>pool := one_worker q (Running t)\<rparr>)"
  "pool w = one_worker q (Running (f, p)) \<Longrightarrow>
     server_step pf l w (w\<lparr>pool := one_worker q Testing_Stop, srv := packet_handle pf now f p (srv w)\<rparr>)"
proof -
  assume "pool w = one_worker q Testing_Stop"
  then show "server_step pf l w (w\<lparr>pool := one_worker q In_Wait\<rparr>)"
    by (intro worker worker_step_at(1) [of 0]) (simp_all add: one_worker_def)
next
  assume "pool w = one_worker (t # q) In_Wait"
  then show "server_step pf l w (w\<lparr>pool := one_worker q (Running t)\<rparr>)"
    by (intro worker worker_step_at(2) [of 0 _ t q]) (simp_all add: one_worker_def)
next
  assume "pool w = one_worker q (Running (f, p))"
  then show "server_step pf l w (w\<lparr>pool := one_worker q Testing_Stop, srv := packet_handle pf now f p (srv w)\<rparr>)"
    by (intro handler worker_step_at(3) [of 0]) (simp_all add: one_worker_def)
qed

lemma demo_take:
  assumes "srv w = srv demo_accepted" and "pool w = one_worker [(5, demo_request)] Testing_Stop"
  shows "\<exists>v. reachable (server_step pf 3) w v \<and> srv v = srv demo_accepted
     \<and> pool v = one_worker [] (Running (5, demo_request))"
proof -
  let ?v = "w\<lparr>pool := one_worker [(5, demo_request)] In_Wait\<rparr>"
  from next_state [where step = "server_step pf 3", OF start one_worker_moves(1) [OF assms(2)]]
  have "reachable (server_step pf 3) w ?v" .
  from next_state [where step = "server_step pf 3", OF this one_worker_moves(2)] assms(1) show ?thesis by fastforce
qed

lemma demo_handle:
  assumes "srv w = srv demo_accepted" and "pool w = one_worker [] (Running (5, demo_request))"
  shows "\<exists>v. reachable (server_step pf 3) w v \<and> srv v = demo_registered \<and> pool v = one_worker [] In_Wait"
proof -
  let ?v = "w\<lparr>pool := one_worker [] Testing_Stop, srv := demo_registered\<rparr>"
  from one_worker_moves(3) [OF assms(2), of pf 3 "[]"] have "server_step pf 3 w ?v"
    by (simp add: assms(1) demo_handled)
  from next_state [where step = "server_step pf 3", OF start this] have "reachable (server_step pf 3) w ?v" .
  from next_state [where step = "server_step pf 3", OF this one_worker_moves(1)] show ?thesis by fastforce
qed

lemma demo_run_taken:
  "\<exists>w. reachable (server_step pf 3) (initial_world 1 3) w \<and> srv w = srv demo_accepted
     \<and> pool w = one_worker [] (Running (5, demo_request))"
  using demo_run_queued demo_take by (blast intro: reachable_trans)

lemma demo_run:
  "\<exists>w. reachable (server_step pf 3) (initial_world 1 3) w \<and> srv w = demo_registered"
  using demo_run_taken demo_handle by (blast intro: reachable_trans)

section \<open>Every reachable world\<close>

lemma reachable_world_ok:
  "reachable (server_step pf l) (initial_world n l) w \<Longrightarrow> world_ok l w"
  using server_inv_reachable by (auto simp: server_inv_def)

lemma reachable_start: "reachable (server_step pf l) (initial_world n l) (initial_world n l)"
  by (rule start)







end
