(* ===== verification/Handler_Steps.thy ===== *)
theory Handler_Steps
  imports Handler_Facts
begin

text \<open>
  The handlers of \<open>server/src/domain/handler\<close> once more, cut where another thread can get in: at every call that
  runs under the lock of a manager, at every packet sent, and at every use of a pointer a manager has returned.

  \<open>ClientManager::getClient\<close> and \<open>RoomManager::getRoom\<close> return a pointer into their table and give the lock back. The
  pointer stays good until the entry is erased, whatever else happens to the table; a pointer is therefore the
  key with the number of erasures of that key so far. Using a pointer after an erasure is undefined behaviour,
  the fault \<open>Use_After_Free\<close>. What a handler does between two such points touches only its own variables.

  A handler is a tree of steps: a step changes the shared data, and the state before it decides how the handler
  goes on. Run without interruption the trees do what \<open>packet_handle\<close> says.
\<close>

section \<open>Steps\<close>

record shared =
  data :: server
  client_erasures :: "fd \<Rightarrow> nat"
  room_erasures :: "string \<Rightarrow> nat"

datatype memory_fault = Use_After_Free

datatype steps = Return | Step "shared \<Rightarrow> memory_fault + shared" "shared \<Rightarrow> steps"

primrec run_steps :: "steps \<Rightarrow> shared \<Rightarrow> memory_fault + shared" where
  "run_steps Return = (\<lambda>h. Inr h)"
| "run_steps (Step e k) = (\<lambda>h. case e h of Inl x \<Rightarrow> Inl x | Inr h' \<Rightarrow> run_steps (k h) h')"

text \<open>A call under a lock, with its result.\<close>

definition locked :: "(server \<Rightarrow> 'r \<times> server) \<Rightarrow> ('r \<Rightarrow> steps) \<Rightarrow> steps" where
  "locked f k = Step (\<lambda>h. Inr (h\<lparr>data := snd (f (data h))\<rparr>)) (\<lambda>h. k (fst (f (data h))))"

subsection \<open>Pointers to clients\<close>

type_synonym client_ptr = "fd \<times> nat"

definition client_at :: "client_ptr \<Rightarrow> shared \<Rightarrow> client_info option" where
  "client_at p h = (if client_erasures h (fst p) = snd p then getClient (fst p) (client_mgr (data h)) else None)"

definition get_client_ptr :: "fd \<Rightarrow> (client_ptr option \<Rightarrow> steps) \<Rightarrow> steps" where
  "get_client_ptr f k =
     Step Inr (\<lambda>h. k (if getClient f (client_mgr (data h)) = None then None else Some (f, client_erasures h f)))"

text \<open>\<open>client->field\<close> as a value, and the assignment \<open>client->roomCode = code\<close>.\<close>

definition read_client :: "client_ptr \<Rightarrow> (client_info \<Rightarrow> steps) \<Rightarrow> steps" where
  "read_client p k =
     Step (\<lambda>h. if client_at p h = None then Inl Use_After_Free else Inr h)
       (\<lambda>h. case client_at p h of None \<Rightarrow> Return | Some c \<Rightarrow> k c)"

definition write_room :: "client_ptr \<Rightarrow> string \<Rightarrow> steps \<Rightarrow> steps" where
  "write_room p code k =
     Step (\<lambda>h. if client_at p h = None then Inl Use_After_Free
                else Inr (h\<lparr>data := (data h)\<lparr>client_mgr := set_room (fst p) code (client_mgr (data h))\<rparr>\<rparr>))
       (\<lambda>h. k)"

subsection \<open>Pointers to rooms\<close>

type_synonym room_ptr = "string \<times> nat"

definition room_at :: "room_ptr \<Rightarrow> shared \<Rightarrow> room option" where
  "room_at p h = (if room_erasures h (fst p) = snd p then getRoom (fst p) (room_mgr (data h)) else None)"

definition get_room_ptr :: "string \<Rightarrow> (room_ptr option \<Rightarrow> steps) \<Rightarrow> steps" where
  "get_room_ptr code k =
     Step Inr (\<lambda>h. k (if getRoom code (room_mgr (data h)) = None then None else Some (code, room_erasures h code)))"

definition read_room :: "room_ptr \<Rightarrow> (room \<Rightarrow> steps) \<Rightarrow> steps" where
  "read_room p k =
     Step (\<lambda>h. if room_at p h = None then Inl Use_After_Free else Inr h)
       (\<lambda>h. case room_at p h of None \<Rightarrow> Return | Some r \<Rightarrow> k r)"

text \<open>\<open>RoomManager::leaveRoom\<close>, which erases a room that has become empty.\<close>

definition after_leave :: "fd \<Rightarrow> string \<Rightarrow> shared \<Rightarrow> shared" where
  "after_leave f code h =
     (let rm = room_mgr (data h); rm' = leaveRoom f code rm
      in h\<lparr>data := (data h)\<lparr>room_mgr := rm'\<rparr>,
           room_erasures :=
             (if getRoom code rm \<noteq> None \<and> getRoom code rm' = None
              then (room_erasures h)(code := Suc (room_erasures h code)) else room_erasures h)\<rparr>)"

definition leave_step :: "fd \<Rightarrow> string \<Rightarrow> steps \<Rightarrow> steps" where
  "leave_step f code k = Step (\<lambda>h. Inr (after_leave f code h)) (\<lambda>h. k)"

subsection \<open>Sending\<close>

definition send_step :: "fd \<Rightarrow> packet \<Rightarrow> steps \<Rightarrow> steps" where
  "send_step f p k = locked (\<lambda>s. ((), sendPacket f p s)) (\<lambda>_. k)"

fun send_each :: "fd list \<Rightarrow> packet \<Rightarrow> steps \<Rightarrow> steps" where
  "send_each [] p k = k"
| "send_each (f # fs) p k = send_step f p (send_each fs p k)"

definition broadcast_steps :: "packet \<Rightarrow> string \<Rightarrow> fd \<Rightarrow> steps \<Rightarrow> steps" where
  "broadcast_steps p code exclude_fd k =
     get_room_ptr code (\<lambda>r.
       case r of
         None \<Rightarrow> k
       | Some rp \<Rightarrow> read_room rp (\<lambda>room. send_each (filter (\<lambda>f. f \<noteq> exclude_fd) (clients room)) p k))"

definition answer_step :: "fd \<Rightarrow> packet_type \<Rightarrow> string \<Rightarrow> json_error + packet \<Rightarrow> steps" where
  "answer_step f fail_type prefix r =
     send_step f (case r of Inr p \<Rightarrow> p | Inl e \<Rightarrow> error_packet fail_type prefix e) Return"

section \<open>The handlers\<close>

definition nickname_steps :: "fd \<Rightarrow> packet \<Rightarrow> steps" where
  "nickname_steps f p =
     (let answer = answer_step f NICKNAME_RESPONSE_FAIL ''JSON parse error: ''
      in case json_parse (payload_str p) of
           Inl e \<Rightarrow> answer (Inl e)
         | Inr json_data \<Rightarrow>
             (case has_field is_string ''nickname'' json_data of
                Inl e \<Rightarrow> answer (Inl e)
              | Inr False \<Rightarrow>
                  answer (Inr (text_packet NICKNAME_RESPONSE_FAIL
                     ''Invalid JSON format: missing 'nickname' field.''))
              | Inr True \<Rightarrow>
                  (case string_field ''nickname'' json_data of
                     Inl e \<Rightarrow> answer (Inl e)
                   | Inr nick \<Rightarrow>
                       locked (\<lambda>s. (isNicknameTaken nick (client_mgr s), s)) (\<lambda>taken.
                         if taken
                         then answer (Inr (text_packet NICKNAME_RESPONSE_FAIL ''Duplicated nickname.''))
                         else locked (\<lambda>s. ((), s\<lparr>client_mgr := setNickname f nick (client_mgr s)\<rparr>)) (\<lambda>_.
                           answer (Inr (mk_packet NICKNAME_RESPONSE_OK 0 [])))))))"

definition message_steps :: "platform \<Rightarrow> string \<Rightarrow> fd \<Rightarrow> packet \<Rightarrow> steps" where
  "message_steps pf now f p =
     get_client_ptr f (\<lambda>cp.
       case cp of
         None \<Rightarrow> Return
       | Some c \<Rightarrow>
           read_client c (\<lambda>i1. if \<not> isAuthenticated i1 then Return else
           read_client c (\<lambda>i2. if ci_roomCode i2 = [] then Return else
           (case json_parse (payload_str p) of
              Inl e \<Rightarrow> Return
            | Inr client_json \<Rightarrow>
                read_client c (\<lambda>i3.
                read_client c (\<lambda>i4.
                (case json_at client_json ''message'' of
                   Inl e \<Rightarrow> Return
                 | Inr msg \<Rightarrow>
                     read_client c (\<lambda>i5.
                     (case dump_fields (dtoa pf) (chat_fields f (i4\<lparr>ip := ip i3\<rparr>) msg now) of
                        Inl e \<Rightarrow> Return
                      | Inr json_string \<Rightarrow>
                          if length json_string > MAX_PAYLOAD_SIZE then Return
                          else read_client c (\<lambda>i6.
                            broadcast_steps (text_packet MESSAGE_CHAT json_string) (ci_roomCode i6) f Return))))))))))"

definition create_room_steps :: "platform \<Rightarrow> fd \<Rightarrow> string \<Rightarrow> c_int \<Rightarrow> (json_error + packet \<Rightarrow> steps) \<Rightarrow> steps" where
  "create_room_steps pf f name maxUsers answer =
     locked (\<lambda>s. case addRoom (draw pf) name maxUsers (room_mgr s) of (code, rm) \<Rightarrow> (code, s\<lparr>room_mgr := rm\<rparr>)) (\<lambda>code.
       if code = []
       then answer (Inr (text_packet ROOM_CREATE_FAIL ''Failed to create room. Maximum room count reached.''))
       else
         (let reply = (case dump_fields (dtoa pf) [(''roomCode'', JString code)] of
                         Inl e \<Rightarrow> answer (Inl e)
                       | Inr str \<Rightarrow> answer (Inr (clipped_packet ROOM_CREATE_OK str)))
          in get_client_ptr f (\<lambda>cp.
               case cp of
                 None \<Rightarrow> reply
               | Some c \<Rightarrow>
                   locked (\<lambda>s. case joinRoom f code (room_mgr s) of (joined, rm) \<Rightarrow> (joined, s\<lparr>room_mgr := rm\<rparr>)) (\<lambda>joined.
                     if joined then write_room c code reply else reply))))"

definition create_steps :: "platform \<Rightarrow> fd \<Rightarrow> packet \<Rightarrow> steps" where
  "create_steps pf f p =
     (let answer = answer_step f ROOM_CREATE_FAIL ''JSON parse error: ''
      in case json_parse (payload_str p) of
           Inl e \<Rightarrow> answer (Inl e)
         | Inr json_data \<Rightarrow>
             (case has_field is_string ''roomName'' json_data of
                Inl e \<Rightarrow> answer (Inl e)
              | Inr False \<Rightarrow>
                  answer (Inr (text_packet ROOM_CREATE_FAIL ''Invalid JSON format: missing 'roomName' field.''))
              | Inr True \<Rightarrow>
                  (case has_field is_number ''maxUsers'' json_data of
                     Inl e \<Rightarrow> answer (Inl e)
                   | Inr False \<Rightarrow>
                       answer (Inr (text_packet ROOM_CREATE_FAIL ''Invalid JSON format: missing 'maxUsers' field.''))
                   | Inr True \<Rightarrow>
                       (case string_field ''roomName'' json_data of
                          Inl e \<Rightarrow> answer (Inl e)
                        | Inr name \<Rightarrow>
                            (case int_field (oor pf) ''maxUsers'' json_data of
                               Inl e \<Rightarrow> answer (Inl e)
                             | Inr maxUsers \<Rightarrow> create_room_steps pf f name maxUsers answer)))))"

text \<open>The name in \<open>ROOM_USER_JOIN\<close> and \<open>ROOM_USER_EXIT\<close>: \<open>client->nickname\<close> is read once to test it and once to copy it.\<close>

definition read_shown_name :: "client_ptr \<Rightarrow> (string \<Rightarrow> steps) \<Rightarrow> steps" where
  "read_shown_name c k =
     read_client c (\<lambda>i. if nickname i = [] then k ''Anonymous'' else read_client c (\<lambda>j. k (nickname j)))"

definition shown_fields :: "fd \<Rightarrow> string \<Rightarrow> (string \<times> json) list" where
  "shown_fields f name = [(''clientFd'', json_of_fd f), (''nickname'', JString name)]"

definition join_room_steps :: "platform \<Rightarrow> fd \<Rightarrow> string \<Rightarrow> (json_error + packet \<Rightarrow> steps) \<Rightarrow> steps" where
  "join_room_steps pf f code answer =
     get_client_ptr f (\<lambda>cp.
       case cp of
         None \<Rightarrow> answer (Inr (text_packet ROOM_JOIN_FAIL ''Client not found.''))
       | Some c \<Rightarrow>
           read_client c (\<lambda>i1.
             if ci_roomCode i1 \<noteq> []
             then answer (Inr (text_packet ROOM_JOIN_FAIL ''Already in another room. Please exit first.''))
             else
               locked (\<lambda>s. case joinRoom f code (room_mgr s) of (success, rm) \<Rightarrow> (success, s\<lparr>room_mgr := rm\<rparr>)) (\<lambda>success.
                 if \<not> success
                 then answer (Inr (text_packet ROOM_JOIN_FAIL ''Failed to join room. Room not found or full.''))
                 else
                   write_room c code
                     (case dump_fields (dtoa pf) [(''roomCode'', JString code)] of
                        Inl e \<Rightarrow> answer (Inl e)
                      | Inr str \<Rightarrow>
                          read_shown_name c (\<lambda>name.
                            (case dump_fields (dtoa pf) (shown_fields f name) of
                               Inl e \<Rightarrow> answer (Inl e)
                             | Inr bstr \<Rightarrow>
                                 broadcast_steps (clipped_packet ROOM_USER_JOIN bstr) code f
                                   (answer (Inr (clipped_packet ROOM_JOIN_OK str)))))))))"

definition join_steps :: "platform \<Rightarrow> fd \<Rightarrow> packet \<Rightarrow> steps" where
  "join_steps pf f p =
     (let answer = answer_step f ROOM_JOIN_FAIL ''JSON parse error: ''
      in case json_parse (payload_str p) of
           Inl e \<Rightarrow> answer (Inl e)
         | Inr json_data \<Rightarrow>
             (case has_field is_string ''roomCode'' json_data of
                Inl e \<Rightarrow> answer (Inl e)
              | Inr False \<Rightarrow>
                  answer (Inr (text_packet ROOM_JOIN_FAIL ''Invalid JSON format: missing 'roomCode' field.''))
              | Inr True \<Rightarrow>
                  (case string_field ''roomCode'' json_data of
                     Inl e \<Rightarrow> answer (Inl e)
                   | Inr code \<Rightarrow> join_room_steps pf f code answer)))"

definition exit_steps :: "platform \<Rightarrow> fd \<Rightarrow> packet \<Rightarrow> steps" where
  "exit_steps pf f p =
     (let answer = answer_step f ROOM_EXIT_FAIL ''Error: ''
      in get_client_ptr f (\<lambda>cp.
           case cp of
             None \<Rightarrow> answer (Inr (text_packet ROOM_EXIT_FAIL ''Client not found.''))
           | Some c \<Rightarrow>
               read_client c (\<lambda>i1.
                 if ci_roomCode i1 = [] then answer (Inr (text_packet ROOM_EXIT_FAIL ''Not in any room.''))
                 else
                   read_client c (\<lambda>i2. let code = ci_roomCode i2 in
                   read_shown_name c (\<lambda>name.
                     (case dump_fields (dtoa pf) (shown_fields f name) of
                        Inl e \<Rightarrow> answer (Inl e)
                      | Inr str \<Rightarrow>
                          broadcast_steps (clipped_packet ROOM_USER_EXIT str) code f
                            (leave_step f code
                              (write_room c [] (answer (Inr (mk_packet ROOM_EXIT_OK 0 [])))))))))))"

definition handle_steps :: "platform \<Rightarrow> string \<Rightarrow> fd \<Rightarrow> packet \<Rightarrow> steps" where
  "handle_steps pf now f p =
     (if pkt_type p = NICKNAME_REQUEST then nickname_steps f p
      else if pkt_type p = MESSAGE_SEND then message_steps pf now f p
      else if pkt_type p = CREATE_ROOM then create_steps pf f p
      else if pkt_type p = JOIN_ROOM then join_steps pf f p
      else if pkt_type p = EXIT_ROOM then exit_steps pf f p
      else Return)"

section \<open>Without interruption\<close>

lemma run_locked [simp]:
  "run_steps (locked f k) h = run_steps (k (fst (f (data h)))) (h\<lparr>data := snd (f (data h))\<rparr>)"
  by (simp add: locked_def)

lemma run_get_client_ptr [simp]:
  "run_steps (get_client_ptr f k) h =
     run_steps (k (if getClient f (client_mgr (data h)) = None then None else Some (f, client_erasures h f))) h"
  by (simp add: get_client_ptr_def)

lemma run_read_client [simp]:
  "run_steps (read_client p k) h =
     (case client_at p h of None \<Rightarrow> Inl Use_After_Free | Some c \<Rightarrow> run_steps (k c) h)"
  by (simp add: read_client_def split: option.splits)

lemma run_write_room [simp]:
  "run_steps (write_room p code k) h =
     (if client_at p h = None then Inl Use_After_Free
      else run_steps k (h\<lparr>data := (data h)\<lparr>client_mgr := set_room (fst p) code (client_mgr (data h))\<rparr>\<rparr>))"
  by (simp add: write_room_def)

lemma run_send_step [simp]: "run_steps (send_step f p k) h = run_steps k (h\<lparr>data := sendPacket f p (data h)\<rparr>)"
  by (simp add: send_step_def)

lemma run_send_each:
  "run_steps (send_each fs p k) h =
     run_steps k (h\<lparr>data := (data h)\<lparr>sends := sends (data h) @ map (\<lambda>f. (f, p)) fs\<rparr>\<rparr>)"
  by (induction fs arbitrary: h) (simp_all add: sendPacket_def)

lemma run_broadcast [simp]:
  "run_steps (broadcast_steps p code e k) h = run_steps k (h\<lparr>data := broadcastPacketForRoom p code e (data h)\<rparr>)"
  by (auto simp: broadcast_steps_def get_room_ptr_def read_room_def room_at_def run_send_each broadcast_eq
      room_members_def members_def split: option.splits)

lemma run_leave_step [simp]: "run_steps (leave_step f code k) h = run_steps k (after_leave f code h)"
  by (simp add: leave_step_def)

lemma after_leave_fields [simp]:
  "data (after_leave f code h) = (data h)\<lparr>room_mgr := leaveRoom f code (room_mgr (data h))\<rparr>"
  "client_erasures (after_leave f code h) = client_erasures h"
  by (simp_all add: after_leave_def Let_def)

lemma run_answer [simp]:
  "run_steps (answer_step f t prefix r) h = Inr (h\<lparr>data := respond f t prefix (r, data h)\<rparr>)"
  by (simp add: answer_step_def respond_eq)

lemma client_at_now [simp]: "client_at (f, client_erasures h f) h = getClient f (client_mgr (data h))"
  by (simp add: client_at_def)

lemma nickname_steps_alone:
  "run_steps (nickname_steps f p) h = Inr (h\<lparr>data := nickname_handle f p (data h)\<rparr>)"
  by (simp add: nickname_steps_def nickname_handle_def nickname_body_def Let_def split: sum.splits bool.splits)

lemma message_steps_alone:
  "run_steps (message_steps pf now f p) h = Inr (h\<lparr>data := message_handle pf now f p (data h)\<rparr>)"
proof (cases "getClient f (client_mgr (data h))")
  case None
  then show ?thesis by (simp add: message_steps_def message_handle_def)
next
  case (Some c)
  have same: "c\<lparr>ip := ip c\<rparr> = c" by simp
  show ?thesis
    by (simp add: message_steps_def message_handle_def Some same split: sum.split)
qed

lemma create_room_steps_alone:
  "run_steps (create_room_steps pf f n m (answer_step f t prefix)) h =
     Inr (h\<lparr>data := respond f t prefix (create_room pf f n m (data h))\<rparr>)"
proof -
  obtain code rm where a: "addRoom (draw pf) n m (room_mgr (data h)) = (code, rm)" by force
  obtain joined rm' where j: "joinRoom f code rm = (joined, rm')" by force
  show ?thesis
  proof (cases "code = [] \<or> getClient f (client_mgr (data h)) = None")
    case True
    then show ?thesis
      by (cases "dump_fields (dtoa pf) [(''roomCode'', JString code)]")
        (auto simp: create_room_steps_def create_room_def a Let_def)
  next
    case False
    then obtain c where "code \<noteq> []" "getClient f (client_mgr (data h)) = Some c" by auto
    then show ?thesis
      by (cases "dump_fields (dtoa pf) [(''roomCode'', JString code)]"; cases joined)
        (simp_all add: create_room_steps_def create_room_def a j Let_def client_at_def)
  qed
qed

lemma create_steps_alone:
  "run_steps (create_steps pf f p) h = Inr (h\<lparr>data := handleCreateRoom pf f p (data h)\<rparr>)"
  by (simp add: create_steps_def handleCreateRoom_def create_body_def create_room_steps_alone Let_def
      split: sum.split bool.split)

definition shown_name :: "client_info \<Rightarrow> string" where
  "shown_name c = (if nickname c = [] then ''Anonymous'' else nickname c)"

lemma shown_name_room [simp]: "shown_name (c\<lparr>ci_roomCode := x\<rparr>) = shown_name c"
  by (simp add: shown_name_def)

lemma user_fields_shown: "user_fields f c = shown_fields f (shown_name c)"
  by (simp add: user_fields_def shown_fields_def shown_name_def)

lemma run_read_shown_name:
  "client_at p h = Some c \<Longrightarrow> run_steps (read_shown_name p k) h = run_steps (k (shown_name c)) h"
  by (simp add: read_shown_name_def shown_name_def)

lemma join_room_steps_alone:
  "run_steps (join_room_steps pf f code (answer_step f t prefix)) h =
     Inr (h\<lparr>data := respond f t prefix (join_room pf f code (data h))\<rparr>)"
proof (cases "getClient f (client_mgr (data h))")
  case None
  then show ?thesis by (simp add: join_room_steps_def join_room_def)
next
  case (Some c)
  obtain success rm where j: "joinRoom f code (room_mgr (data h)) = (success, rm)" by force
  show ?thesis
  proof (cases "ci_roomCode c \<noteq> [] \<or> \<not> success")
    case True
    then show ?thesis by (auto simp: join_room_steps_def join_room_def Some j)
  next
    case False
    let ?h = "h\<lparr>data := (data h)\<lparr>room_mgr := rm, client_mgr := set_room f code (client_mgr (data h))\<rparr>\<rparr>"
    have c: "client_at (f, client_erasures h f) ?h = Some (c\<lparr>ci_roomCode := code\<rparr>)"
      using Some by (simp add: client_at_def client_simps)
    from False Some j run_read_shown_name [OF c] show ?thesis
      by (cases "dump_fields (dtoa pf) [(''roomCode'', JString code)]";
          cases "dump_fields (dtoa pf) (user_fields f c)")
        (simp_all add: join_room_steps_def join_room_def client_at_def user_fields_shown)
  qed
qed

lemma join_steps_alone:
  "run_steps (join_steps pf f p) h = Inr (h\<lparr>data := handleJoinRoom pf f p (data h)\<rparr>)"
  by (simp add: join_steps_def handleJoinRoom_def join_body_def join_room_steps_alone Let_def
      split: sum.split bool.split)

lemma exit_steps_alone:
  "\<exists>h'. run_steps (exit_steps pf f p) h = Inr h' \<and> data h' = handleExitRoom pf f p (data h)
       \<and> client_erasures h' = client_erasures h"
proof (cases "getClient f (client_mgr (data h))")
  case None
  then show ?thesis
    by (simp add: exit_steps_def handleExitRoom_def exit_body_def Let_def)
next
  case (Some c)
  then have c: "client_at (f, client_erasures h f) h = Some c" by simp
  show ?thesis
  proof (cases "ci_roomCode c = [] \<or> (\<exists>e. dump_fields (dtoa pf) (user_fields f c) = Inl e)")
    case True
    with Some c show ?thesis
      by (auto simp: exit_steps_def handleExitRoom_def exit_body_def user_fields_shown run_read_shown_name Let_def)
  next
    case False
    then obtain str where "ci_roomCode c \<noteq> []" "dump_fields (dtoa pf) (user_fields f c) = Inr str"
      by (cases "dump_fields (dtoa pf) (user_fields f c)") auto
    with Some c show ?thesis
      by (simp add: exit_steps_def handleExitRoom_def exit_body_def user_fields_shown run_read_shown_name
          client_at_def Let_def)
  qed
qed

lemma handle_steps_run:
  "\<exists>h'. run_steps (handle_steps pf now f p) h = Inr h' \<and> data h' = packet_handle pf now f p (data h)
       \<and> client_erasures h' = client_erasures h"
  using exit_steps_alone [of pf f p h]
  by (cases rule: packet_handle_cases [of p pf now f "data h"])
    (auto simp: handle_steps_def nickname_steps_alone message_steps_alone create_steps_alone join_steps_alone)

text \<open>
  C6. The steps of a handler, run one after the other with nobody in between, do what the handler as a whole does:
  no pointer is used after its entry is gone, the tables and the packets sent are those of \<open>packet_handle\<close>, and no
  client is erased.
\<close>

theorem handler_steps_alone:
  "\<exists>h'. run_steps (handle_steps pf now f p) h = Inr h' \<and> data h' = packet_handle pf now f p (data h)
       \<and> client_erasures h' = client_erasures h"
  by (rule handle_steps_run)

end
