(* ===== verification/Interleaving.thy ===== *)
theory Interleaving
  imports Server_Properties Handler_Steps
begin

text \<open>
  The server with its threads interleaved: the workers run the steps of \<open>Handler_Steps\<close>, and between two steps of
  one worker another worker or the event loop can run. An event stays one step: within one event the I/O thread
  changes the tables at most once, and the rest of it touches only the receive buffers and epoll, which no
  worker uses.

  The relation contains that of \<open>Server\<close>, where a handler is one step. Part of the invariant survives the finer
  steps; \<open>Races\<close> shows what does not.
\<close>

section \<open>Worlds and steps\<close>

record fine_world =
  whole :: world
  client_gen :: "fd \<Rightarrow> nat"
  room_gen :: "string \<Rightarrow> nat"
  progs :: "nat \<Rightarrow> steps option"
  faulted :: bool

definition shared_of :: "fine_world \<Rightarrow> shared" where
  "shared_of w = \<lparr>data = srv (whole w), client_erasures = client_gen w, room_erasures = room_gen w\<rparr>"

definition put_shared :: "shared \<Rightarrow> fine_world \<Rightarrow> fine_world" where
  "put_shared h w =
     w\<lparr>whole := (whole w)\<lparr>srv := data h\<rparr>, client_gen := client_erasures h, room_gen := room_erasures h\<rparr>"

text \<open>The clients an event has erased.\<close>

definition count_erased :: "world \<Rightarrow> world \<Rightarrow> (fd \<Rightarrow> nat) \<Rightarrow> fd \<Rightarrow> nat" where
  "count_erased v v' n f =
     (if getClient f (client_mgr (srv v)) \<noteq> None \<and> getClient f (client_mgr (srv v')) = None
      then Suc (n f) else n f)"

text \<open>A world in which no handler is under way, in particular the first one.\<close>

definition resting :: "world \<Rightarrow> fine_world" where
  "resting v = \<lparr>whole = v, client_gen = \<lambda>_. 0, room_gen = \<lambda>_. 0, progs = \<lambda>_. None, faulted = False\<rparr>"

definition initial_fine :: "nat \<Rightarrow> fd \<Rightarrow> fine_world" where
  "initial_fine num_threads listener_fd = resting (initial_world num_threads listener_fd)"

text \<open>
  A worker takes a task (a step of the pool), starts the handler, runs its steps and is done. The local time
  a chat message gets is fixed with the start. After a fault the behaviour of the program is undefined, and
  there is no further step.
\<close>

inductive work_step :: "platform \<Rightarrow> fine_world \<Rightarrow> fine_world \<Rightarrow> bool" for pf :: platform where
  w_pool:
    "\<not> faulted w \<Longrightarrow> worker_step (pool (whole w)) None pl \<Longrightarrow>
     work_step pf w (w\<lparr>whole := (whole w)\<lparr>pool := pl\<rparr>\<rparr>)"
| w_starts:
    "\<not> faulted w \<Longrightarrow> i < length (m_workers (pool (whole w))) \<Longrightarrow> m_workers (pool (whole w)) ! i = Running (f, p) \<Longrightarrow>
     progs w i = None \<Longrightarrow>
     work_step pf w (w\<lparr>progs := (progs w)(i \<mapsto> handle_steps pf now f p)\<rparr>)"
| w_one_step:
    "\<not> faulted w \<Longrightarrow> progs w i = Some (Step e k) \<Longrightarrow> e (shared_of w) = Inr h \<Longrightarrow>
     work_step pf w (put_shared h (w\<lparr>progs := (progs w)(i \<mapsto> k (shared_of w))\<rparr>))"
| w_fault:
    "\<not> faulted w \<Longrightarrow> progs w i = Some (Step e k) \<Longrightarrow> e (shared_of w) = Inl x \<Longrightarrow>
     work_step pf w (w\<lparr>faulted := True\<rparr>)"
| w_finishes:
    "\<not> faulted w \<Longrightarrow> progs w i = Some Return \<Longrightarrow> i < length (m_workers (pool (whole w))) \<Longrightarrow>
     m_workers (pool (whole w)) ! i = Running t \<Longrightarrow>
     work_step pf w
       (w\<lparr>whole := (whole w)\<lparr>pool := (pool (whole w))\<lparr>m_workers := (m_workers (pool (whole w)))[i := Testing_Stop]\<rparr>\<rparr>,
          progs := (progs w)(i := None)\<rparr>)"

text \<open>An event of the I/O thread, or a step of a worker.\<close>

inductive fine_step :: "platform \<Rightarrow> fd \<Rightarrow> fine_world \<Rightarrow> fine_world \<Rightarrow> bool"
  for pf :: platform and listener_fd :: fd where
  io_event:
    "\<not> faulted w \<Longrightarrow> ev_fd \<in> epoll_fds (whole w) \<Longrightarrow> conn_fd conn \<le> 0 \<or> fresh_fd (conn_fd conn) (whole w) \<Longrightarrow>
     handleEvent listener_fd ev_fd conn addFd_ok res (whole w) = Inr v \<Longrightarrow>
     fine_step pf listener_fd w (w\<lparr>whole := v, client_gen := count_erased (whole w) v (client_gen w)\<rparr>)"
| work: "work_step pf w w' \<Longrightarrow> fine_step pf listener_fd w w'"

lemmas pool_move = work [OF w_pool]
lemmas starts = work [OF w_starts]
lemmas one_step = work [OF w_one_step]
lemmas fault = work [OF w_fault]
lemmas finishes = work [OF w_finishes]

lemma fine_step_cases [consumes 1, case_names io_event pool_move starts one_step fault finishes]:
  assumes "fine_step pf l w w'"
    and "\<And>ev_fd conn addFd_ok res v. w' = w\<lparr>whole := v, client_gen := count_erased (whole w) v (client_gen w)\<rparr> \<Longrightarrow>
      \<not> faulted w \<Longrightarrow> ev_fd \<in> epoll_fds (whole w) \<Longrightarrow> conn_fd conn \<le> 0 \<or> fresh_fd (conn_fd conn) (whole w) \<Longrightarrow>
      handleEvent l ev_fd conn addFd_ok res (whole w) = Inr v \<Longrightarrow> P"
    and "\<And>pl. w' = w\<lparr>whole := (whole w)\<lparr>pool := pl\<rparr>\<rparr> \<Longrightarrow> \<not> faulted w \<Longrightarrow>
      worker_step (pool (whole w)) None pl \<Longrightarrow> P"
    and "\<And>i f p now. w' = w\<lparr>progs := (progs w)(i \<mapsto> handle_steps pf now f p)\<rparr> \<Longrightarrow> \<not> faulted w \<Longrightarrow>
      i < length (m_workers (pool (whole w))) \<Longrightarrow> m_workers (pool (whole w)) ! i = Running (f, p) \<Longrightarrow>
      progs w i = None \<Longrightarrow> P"
    and "\<And>i e k h. w' = put_shared h (w\<lparr>progs := (progs w)(i \<mapsto> k (shared_of w))\<rparr>) \<Longrightarrow> \<not> faulted w \<Longrightarrow>
      progs w i = Some (Step e k) \<Longrightarrow> e (shared_of w) = Inr h \<Longrightarrow> P"
    and "\<And>i e k x. w' = w\<lparr>faulted := True\<rparr> \<Longrightarrow> \<not> faulted w \<Longrightarrow> progs w i = Some (Step e k) \<Longrightarrow>
      e (shared_of w) = Inl x \<Longrightarrow> P"
    and "\<And>i t. w' = w\<lparr>whole := (whole w)\<lparr>pool := (pool (whole w))
        \<lparr>m_workers := (m_workers (pool (whole w)))[i := Testing_Stop]\<rparr>\<rparr>, progs := (progs w)(i := None)\<rparr> \<Longrightarrow>
      \<not> faulted w \<Longrightarrow> progs w i = Some Return \<Longrightarrow> i < length (m_workers (pool (whole w))) \<Longrightarrow>
      m_workers (pool (whole w)) ! i = Running t \<Longrightarrow> P"
  shows P
  using assms(1)
proof (cases rule: fine_step.cases)
  case (work)
  then show ?thesis by (cases rule: work_step.cases) (use assms(3-7) in blast)+
qed (rule assms(2))

lemma shared_of_simps [simp]:
  "data (shared_of w) = srv (whole w)"
  "client_erasures (shared_of w) = client_gen w"
  "room_erasures (shared_of w) = room_gen w"
  by (simp_all add: shared_of_def)

lemma put_shared_simps [simp]:
  "whole (put_shared h w) = (whole w)\<lparr>srv := data h\<rparr>"
  "client_gen (put_shared h w) = client_erasures h"
  "room_gen (put_shared h w) = room_erasures h"
  "progs (put_shared h w) = progs w"
  "faulted (put_shared h w) = faulted w"
  "shared_of (put_shared h w) = h"
  by (simp_all add: put_shared_def shared_of_def)

lemma put_shared_more [simp]:
  "put_shared h (put_shared h' w) = put_shared h w"
  "(put_shared h w)\<lparr>progs := ps\<rparr> = put_shared h (w\<lparr>progs := ps\<rparr>)"
  "shared_of (w\<lparr>progs := ps\<rparr>) = shared_of w"
  "put_shared (shared_of w) w = w"
  by (simp_all add: put_shared_def shared_of_def)


section \<open>Several steps of one worker\<close>

fun advance :: "nat \<Rightarrow> steps \<Rightarrow> shared \<Rightarrow> memory_fault + steps \<times> shared" where
  "advance 0 p h = Inr (p, h)"
| "advance (Suc n) Return h = Inr (Return, h)"
| "advance (Suc n) (Step e k) h = (case e h of Inl x \<Rightarrow> Inl x | Inr h' \<Rightarrow> advance n (k h) h')"

lemma advance_reachable:
  assumes "\<not> faulted w" and "progs w i = Some p" and "advance n p (shared_of w) = Inr (p', h)"
  shows "reachable (fine_step pf l) w (put_shared h (w\<lparr>progs := (progs w)(i \<mapsto> p')\<rparr>))"
  using assms
proof (induction n arbitrary: p w)
  case 0
  then have "(progs w)(i \<mapsto> p) = progs w" by auto
  with 0 show ?case by (auto intro: reachable.start)
next
  case (Suc n)
  show ?case
  proof (cases p)
    case Return
    with Suc.prems have "(progs w)(i \<mapsto> Return) = progs w" by auto
    with Suc.prems Return show ?thesis by (auto intro: reachable.start)
  next
    case (Step e k)
    with Suc.prems(3) obtain h1 where e: "e (shared_of w) = Inr h1"
      and a: "advance n (k (shared_of w)) h1 = Inr (p', h)"
      by (auto split: sum.splits)
    let ?w1 = "put_shared h1 (w\<lparr>progs := (progs w)(i \<mapsto> k (shared_of w))\<rparr>)"
    have "reachable (fine_step pf l) ?w1 (put_shared h (?w1\<lparr>progs := (progs ?w1)(i \<mapsto> p')\<rparr>))"
      using Suc.prems(1) a by (intro Suc.IH [of ?w1 "k (shared_of w)"]) simp_all
    then have "reachable (fine_step pf l) ?w1 (put_shared h (w\<lparr>progs := (progs w)(i \<mapsto> p')\<rparr>))"
      by (simp del: fun_upd_apply)
    with one_step [OF Suc.prems(1) Suc.prems(2) [unfolded Step] e, of pf l] show ?thesis
      by (rule reachable_step)
  qed
qed

lemma run_advances: "run_steps p h = Inr h' \<Longrightarrow> \<exists>n. advance n p h = Inr (Return, h')"
proof (induction p arbitrary: h)
  case Return
  then show ?case by (intro exI [of _ 0]) simp
next
  case (Step e k)
  then obtain h1 where e: "e h = Inr h1" and r: "run_steps (k h) h1 = Inr h'"
    by (auto split: sum.splits)
  from Step.IH [OF _ r] obtain n where "advance n (k h) h1 = Inr (Return, h')" by auto
  with e show ?case by (intro exI [of _ "Suc n"]) simp
qed

section \<open>The coarse steps are runs of fine ones\<close>

text \<open>No handler is under way.\<close>

definition at_rest :: "fine_world \<Rightarrow> bool" where
  "at_rest w \<longleftrightarrow> \<not> faulted w \<and> progs w = (\<lambda>_. None)"

lemma handler_run:
  assumes "at_rest w" and "i < length (m_workers (pool (whole w)))"
    and "m_workers (pool (whole w)) ! i = Running (f, p)"
  shows "\<exists>w'. reachable (fine_step pf l) w w' \<and> at_rest w' \<and>
    whole w' = (whole w)\<lparr>pool := (pool (whole w))\<lparr>m_workers := (m_workers (pool (whole w)))[i := Testing_Stop]\<rparr>,
                        srv := packet_handle pf now f p (srv (whole w))\<rparr>"
proof -
  let ?s = "handle_steps pf now f p" and ?w1 = "w\<lparr>progs := (progs w)(i \<mapsto> handle_steps pf now f p)\<rparr>"
  from handle_steps_run [of pf now f p "shared_of w"] obtain h' where
    h': "run_steps ?s (shared_of w) = Inr h'" "data h' = packet_handle pf now f p (srv (whole w))"
    by auto
  from run_advances [OF h'(1)] obtain n where a: "advance n ?s (shared_of w) = Inr (Return, h')" ..
  let ?w2 = "put_shared h' (?w1\<lparr>progs := (progs ?w1)(i \<mapsto> Return)\<rparr>)"
  have s: "fine_step pf l w ?w1"
    using assms by (intro starts) (auto simp: at_rest_def)
  have "reachable (fine_step pf l) ?w1 ?w2"
    using assms(1) a by (intro advance_reachable [where p = ?s and n = n]) (auto simp: at_rest_def)
  moreover have "fine_step pf l ?w2
      (?w2\<lparr>whole := (whole ?w2)\<lparr>pool := (pool (whole ?w2))\<lparr>m_workers := (m_workers (pool (whole ?w2)))[i := Testing_Stop]\<rparr>\<rparr>,
         progs := (progs ?w2)(i := None)\<rparr>)" (is "fine_step pf l ?w2 ?w3")
    using assms by (intro finishes [where t = "(f, p)"]) (auto simp: at_rest_def)
  ultimately have "reachable (fine_step pf l) w ?w3"
    using reachable_step [of "fine_step pf l", OF s] by (auto intro: reachable.next_state)
  moreover have "at_rest ?w3" using assms(1) by (auto simp: at_rest_def)
  ultimately show ?thesis by (intro exI [of _ ?w3]) (simp add: h'(2))
qed

lemma coarse_step_run:
  assumes "server_step pf l v v'" and "at_rest w" and "whole w = v"
  shows "\<exists>w'. reachable (fine_step pf l) w w' \<and> at_rest w' \<and> whole w' = v'"
  using assms(1)
proof (cases rule: server_step.cases)
  case (event ev_fd conn addFd_ok res)
  let ?w = "w\<lparr>whole := v', client_gen := count_erased (whole w) v' (client_gen w)\<rparr>"
  have "fine_step pf l w ?w"
    using event assms(2,3) by (intro io_event) (auto simp: at_rest_def)
  with assms(2) show ?thesis
    by (intro exI [of _ ?w]) (auto simp: at_rest_def intro: reachable.intros)
next
  case (worker pl)
  let ?w = "w\<lparr>whole := (whole w)\<lparr>pool := pl\<rparr>\<rparr>"
  have "fine_step pf l w ?w"
    using worker assms(2,3) by (intro pool_move) (auto simp: at_rest_def)
  with worker(1) assms(2,3) show ?thesis
    by (intro exI [of _ ?w]) (auto simp: at_rest_def intro: reachable.intros)
next
  case (handler f p pl now)
  from handler(2) show ?thesis
  proof (cases rule: worker_step.cases)
    case (runs i)
    with handler(1) handler_run [OF assms(2), of i f p pf l now] assms(3) show ?thesis by auto
  qed
qed

lemma coarse_run:
  assumes "reachable (server_step pf l) v v'" and "at_rest w" and "whole w = v"
  shows "\<exists>w'. reachable (fine_step pf l) w w' \<and> at_rest w' \<and> whole w' = v'"
  using assms(1)
proof (induction rule: reachable.induct)
  case start
  with assms(2,3) show ?case by (blast intro: reachable.start)
next
  case (next_state u u')
  then obtain w' where "reachable (fine_step pf l) w w'" "at_rest w'" "whole w' = u" by auto
  with coarse_step_run [OF next_state(2)] show ?case by (blast intro: reachable_trans)
qed

lemma coarse_reachable:
  assumes "reachable (server_step pf l) (initial_world n l) v"
  shows "\<exists>w. reachable (fine_step pf l) (initial_fine n l) w \<and> at_rest w \<and> whole w = v"
  using assms by (rule coarse_run) (simp_all add: at_rest_def initial_fine_def resting_def)

text \<open>
  C7. Every state the server reaches with its handlers run as a whole is reached by the interleaved threads as
  well: whatever is shown to be possible on the steps of \<open>Server\<close> is possible on the smaller ones, without a fault.
\<close>

theorem coarse_states_interleave:
  assumes "reachable (server_step pf l) (initial_world n l) v"
  shows "\<exists>w. reachable (fine_step pf l) (initial_fine n l) w \<and> \<not> faulted w \<and> whole w = v"
  using coarse_reachable [OF assms] by (auto simp: at_rest_def)

theorem coarse_states_interleave_witness:
  "\<exists>w. reachable (fine_step demo_platform 3) (initial_fine 1 3) w \<and> srv (whole w) = demo_registered"
proof -
  from demo_run obtain v where "reachable (server_step demo_platform 3) (initial_world 1 3) v" "srv v = demo_registered"
    by blast
  with coarse_states_interleave [OF this(1)] show ?thesis by auto
qed

section \<open>What a step guarantees\<close>

text \<open>
  The step of a worker, in whatever state it is made, satisfies a relation that depends on the whole program
  only. The continuation may have been chosen in another state: what it has read may be out of date.
\<close>

primrec guarantees :: "(shared \<Rightarrow> shared \<Rightarrow> bool) \<Rightarrow> steps \<Rightarrow> bool" where
  "guarantees G Return = True"
| "guarantees G (Step e k) = (\<forall>h. (\<forall>h'. e h = Inr h' \<longrightarrow> G h h') \<and> guarantees G (k h))"

definition data_ok :: "server \<Rightarrow> bool" where
  "data_ok s \<longleftrightarrow> cm_wf (client_mgr s) \<and> rm_ok (room_mgr s) \<and> sends_ok s"

definition keeps_data :: "shared \<Rightarrow> shared \<Rightarrow> bool" where
  "keeps_data h h' \<longleftrightarrow>
     (data_ok (data h) \<longrightarrow> data_ok (data h')) \<and> same_buffers (client_mgr (data h)) (client_mgr (data h'))
     \<and> client_erasures h' = client_erasures h \<and> (\<exists>out. sends (data h') = sends (data h) @ out)"

abbreviation safe :: "steps \<Rightarrow> bool" where
  "safe \<equiv> guarantees keeps_data"

text \<open>
  A relation that allows the changes a handler makes apart from setting a nickname: none, to the rooms, to the room
  code of a client, and a packet sent. All handlers but that of the nickname guarantee it.
\<close>

locale step_guarantee =
  fixes G :: "shared \<Rightarrow> shared \<Rightarrow> bool"
  assumes unchanged: "G h h"
    and room_table: "(rm_ok (room_mgr (data h)) \<Longrightarrow> rm_ok m) \<Longrightarrow>
      G h (h\<lparr>data := (data h)\<lparr>room_mgr := m\<rparr>, room_erasures := n\<rparr>)"
    and room_code: "G h (h\<lparr>data := (data h)\<lparr>client_mgr := set_room f code (client_mgr (data h))\<rparr>\<rparr>)"
    and packet_sent: "wf_packet p \<Longrightarrow> G h (h\<lparr>data := sendPacket f p (data h)\<rparr>)"
begin

lemma rooms_locked:
  assumes "\<And>m. rm_ok m \<Longrightarrow> rm_ok (snd (f m))" and "\<And>r. guarantees G (k r)"
  shows "guarantees G (locked (\<lambda>s. case f (room_mgr s) of (r, m) \<Rightarrow> (r, s\<lparr>room_mgr := m\<rparr>)) k)"
  using assms room_table [where n = "room_erasures h" and h = h for h]
  by (simp add: locked_def case_prod_unfold)

lemma client_ptr: "(\<And>r. guarantees G (k r)) \<Longrightarrow> guarantees G (get_client_ptr f k)"
  by (simp add: get_client_ptr_def unchanged)

lemma client_read: "(\<And>c. guarantees G (k c)) \<Longrightarrow> guarantees G (read_client p k)"
  by (simp add: read_client_def unchanged split: option.split)

lemma room_written: "guarantees G k \<Longrightarrow> guarantees G (write_room p code k)"
  by (auto simp: write_room_def room_code)

lemma room_read: "(\<And>r. guarantees G (k r)) \<Longrightarrow> guarantees G (read_room p k)"
  by (simp add: read_room_def unchanged split: option.split)

lemma room_left: "guarantees G k \<Longrightarrow> guarantees G (leave_step f code k)"
  by (simp add: leave_step_def after_leave_def Let_def room_table rm_ok_leaveRoom)

lemma sent: "wf_packet p \<Longrightarrow> guarantees G k \<Longrightarrow> guarantees G (send_step f p k)"
  by (simp add: send_step_def locked_def packet_sent)

lemma broadcast: "wf_packet p \<Longrightarrow> guarantees G k \<Longrightarrow> guarantees G (broadcast_steps p code e k)"
proof -
  assume pk: "wf_packet p" "guarantees G k"
  then have "guarantees G (send_each fs p k)" for fs by (induction fs) (auto intro: sent)
  with pk show ?thesis
    by (auto simp: broadcast_steps_def get_room_ptr_def unchanged intro: room_read split: option.split)
qed

lemma answer: "(\<And>p. r = Inr p \<Longrightarrow> wf_packet p) \<Longrightarrow> guarantees G (answer_step f t prefix r)"
  unfolding answer_step_def by (auto intro!: sent simp: error_packet_def split: sum.split)

lemma shown_name: "(\<And>n. guarantees G (k n)) \<Longrightarrow> guarantees G (read_shown_name p k)"
  unfolding read_shown_name_def by (rule client_read) (simp add: client_read)

lemmas step_intros = rooms_locked client_ptr client_read room_written room_left broadcast answer shown_name
  wf_text_packet

lemma message: "guarantees G (message_steps pf now f p)"
  unfolding message_steps_def by (auto intro!: step_intros split: option.split sum.split)

lemma create: "guarantees G (create_steps pf f p)"
proof -
  have room: "guarantees G (create_room_steps pf f n m (answer_step f ROOM_CREATE_FAIL t))" for n m t
    unfolding create_room_steps_def Let_def
    by (auto intro!: step_intros rm_ok_addRoom rm_ok_joinRoom simp: MAX_PAYLOAD_SIZE_def split: option.split sum.split)
  show ?thesis
    unfolding create_steps_def Let_def
    by (auto intro!: answer room wf_text_packet simp: MAX_PAYLOAD_SIZE_def split: sum.split bool.split)
qed

lemma join: "guarantees G (join_steps pf f p)"
proof -
  have room: "guarantees G (join_room_steps pf f code (answer_step f ROOM_JOIN_FAIL t))" for code t
    unfolding join_room_steps_def Let_def
    by (auto intro!: step_intros rm_ok_joinRoom simp: MAX_PAYLOAD_SIZE_def split: option.split sum.split)
  show ?thesis
    unfolding join_steps_def Let_def
    by (auto intro!: answer room wf_text_packet simp: MAX_PAYLOAD_SIZE_def split: sum.split bool.split)
qed

lemma exit_request: "guarantees G (exit_steps pf f p)"
  unfolding exit_steps_def Let_def
  by (auto intro!: step_intros simp: MAX_PAYLOAD_SIZE_def split: option.split sum.split)

lemma other_request: "pkt_type p \<noteq> NICKNAME_REQUEST \<Longrightarrow> guarantees G (handle_steps pf now f p)"
  by (simp add: handle_steps_def message create join exit_request)

end

interpretation kd: step_guarantee keeps_data
  by unfold_locales
    (auto simp: keeps_data_def data_ok_def sends_ok_def sendPacket_def intro: cm_wf_set_room)

lemma safe_nickname: "safe (nickname_steps f p)"
  unfolding nickname_steps_def Let_def locked_def
  by (auto intro!: kd.answer wf_text_packet simp: keeps_data_def data_ok_def cm_wf_setNickname sends_ok_def MAX_PAYLOAD_SIZE_def
      split: sum.split bool.split)

lemma safe_handle: "safe (handle_steps pf now f p)"
  using kd.other_request safe_nickname by (cases "pkt_type p = NICKNAME_REQUEST") (auto simp: handle_steps_def)

section \<open>The invariant of the interleaved server\<close>

lemma data_ok_fields [simp]: "data_ok (s\<lparr>sends := x\<rparr>) \<longleftrightarrow> cm_wf (client_mgr s) \<and> rm_ok (room_mgr s) \<and> sends_ok (s\<lparr>sends := x\<rparr>)"
  by (simp add: data_ok_def)

interpretation dk: table_invariant data_ok
  by unfold_locales (simp_all add: data_ok_def cm_wf_addClient cm_wf_removeClient cm_wf_set_buffer)

definition fine_inv :: "fd \<Rightarrow> fine_world \<Rightarrow> bool" where
  "fine_inv l w \<longleftrightarrow>
     world_with data_ok l (whole w) \<and> l \<in> epoll_fds (whole w) \<and> (\<forall>i p. progs w i = Some p \<longrightarrow> safe p)"

lemma world_with_pool: "world_with I l w \<Longrightarrow> tasks_ok pl \<Longrightarrow> world_with I l (w\<lparr>pool := pl\<rparr>)"
  by (simp add: world_with_def)

lemma fine_inv_one_step:
  assumes "fine_inv l w" and "progs w i = Some (Step e k)" and "e (shared_of w) = Inr h"
  shows "fine_inv l (put_shared h (w\<lparr>progs := (progs w)(i \<mapsto> k (shared_of w))\<rparr>))"
proof -
  from assms(1,2) have "safe (Step e k)" unfolding fine_inv_def by blast
  with assms(3) have k: "keeps_data (shared_of w) h" "safe (k (shared_of w))" by auto
  from assms(1) have w: "world_with data_ok l (whole w)" by (simp add: fine_inv_def)
  with k(1) have d: "data_ok (data h)" by (simp add: keeps_data_def world_with_def)
  from k(1) have b: "same_buffers (client_mgr (srv (whole w))) (client_mgr (data h))"
    by (simp add: keeps_data_def)
  have "world_with data_ok l ((whole w)\<lparr>srv := data h\<rparr>)"
    using w d same_buffers_ok [OF b] same_buffers_client [OF b]
    by (auto simp: world_with_def data_ok_def)
  with assms(1) k(2) show ?thesis by (simp add: fine_inv_def)
qed

interpretation fi: transition_invariant "fine_step pf l" "fine_inv l" for pf l
proof
  fix w w'
  assume inv: "fine_inv l w" and "fine_step pf l w w'"
  from this(2) show "fine_inv l w'"
  proof (cases rule: fine_step_cases)
    case (io_event ev_fd conn addFd_ok res v)
    with inv dk.keeps_event [of l "whole w" conn ev_fd addFd_ok res v] show ?thesis
      by (simp add: fine_inv_def)
  next
    case (pool_move pl)
    with inv tasks_ok_step(1) [OF pool_move(3)] show ?thesis
      by (auto simp: fine_inv_def world_with_def)
  next
    case (starts i f p now)
    with inv show ?thesis by (auto simp: fine_inv_def safe_handle)
  next
    case (one_step i e k h)
    with inv fine_inv_one_step show ?thesis by blast
  next
    case (fault i e k x)
    with inv show ?thesis by (simp add: fine_inv_def)
  next
    case (finishes i t)
    from finishes(4,5) have "worker_step (pool (whole w)) (Some t)
        ((pool (whole w))\<lparr>m_workers := (m_workers (pool (whole w)))[i := Testing_Stop]\<rparr>)"
      by (rule runs)
    from tasks_ok_step(1) [OF this] inv finishes(1) show ?thesis
      by (auto simp: fine_inv_def world_with_def)
  qed
qed

lemma fine_inv_reachable: "reachable (fine_step pf l) (initial_fine n l) w \<Longrightarrow> fine_inv l w"
  by (rule fi.invariant_reachable)
    (use world_ok_initial [of l n] in \<open>auto simp: fine_inv_def initial_fine_def resting_def initial_world_def
      world_ok_with world_with_def data_ok_def srv_ok_def cm_ok_def\<close>)

text \<open>
  C5. However the workers and the event loop interleave, the tables stay well formed: one entry for each descriptor,
  room codes distinct, no room above its capacity, no member listed twice. Every packet sent or queued is well
  formed, no receive buffer holds a whole packet, and every client is registered with epoll.
\<close>

theorem interleaved_tables_consistent:
  assumes "reachable (fine_step pf l) (initial_fine n l) w"
  shows "cm_wf (client_mgr (srv (whole w))) \<and> rm_ok (room_mgr (srv (whole w)))
         \<and> (\<forall>(f, p) \<in> set (sends (srv (whole w))). wf_packet p)
         \<and> (\<forall>(f, p) \<in> set (pending (pool (whole w))). wf_packet p)
         \<and> (\<forall>f c. getClient f (client_mgr (srv (whole w))) = Some c \<longrightarrow>
              partial_packet (recvBuffer c) \<and> f \<in> epoll_fds (whole w))"
  using fine_inv_reachable [OF assms]
  by (auto simp: fine_inv_def world_with_def data_ok_def sends_ok_def tasks_ok_def task_ok_def buffers_ok_def)

theorem interleaved_tables_consistent_witness:
  "wf_packet (mk_packet NICKNAME_RESPONSE_OK 0 []) \<and> cm_wf (client_mgr demo_registered)"
proof -
  from demo_run obtain v where v: "reachable (server_step demo_platform 3) (initial_world 1 3) v" "srv v = demo_registered"
    by blast
  from coarse_reachable [OF v(1)] v(2) obtain w where
    w: "reachable (fine_step demo_platform 3) (initial_fine 1 3) w" "srv (whole w) = demo_registered"
    by auto
  have "(5, mk_packet NICKNAME_RESPONSE_OK 0 []) \<in> set (sends demo_registered)"
    by (simp add: demo_registered_def)
  with interleaved_tables_consistent [OF w(1)] w(2) show ?thesis by auto
qed

end
