(* ===== verification/Request_Properties.thy ===== *)
theory Request_Properties
  imports Server_Properties
begin

text \<open>
  What each request does, from the packet to the replies: the number and type of the replies, the effect
  on the managers and who is told, on success and on the error paths.
\<close>

section \<open>Replies\<close>

definition replies_to :: "fd \<Rightarrow> server \<Rightarrow> packet list" where
  "replies_to f s = map snd (filter (\<lambda>x. fst x = f) (sends s))"

fun reply_types :: "packet_type \<Rightarrow> packet_type list" where
  "reply_types NICKNAME_REQUEST = [NICKNAME_RESPONSE_OK, NICKNAME_RESPONSE_FAIL]"
| "reply_types CREATE_ROOM = [ROOM_CREATE_OK, ROOM_CREATE_FAIL]"
| "reply_types JOIN_ROOM = [ROOM_JOIN_OK, ROOM_JOIN_FAIL]"
| "reply_types EXIT_ROOM = [ROOM_EXIT_OK, ROOM_EXIT_FAIL]"
| "reply_types _ = []"

lemma replies_respond:
  "replies_to f (respond f t prefix r) =
     replies_to f (snd r) @ [case fst r of Inr p \<Rightarrow> p | Inl e \<Rightarrow> error_packet t prefix e]"
  by (simp add: replies_to_def sends_respond)

lemma replies_broadcast [simp]: "replies_to f (broadcastPacketForRoom p code f s) = replies_to f s"
  by (simp add: replies_to_def filter_map comp_def)

lemma replies_managers [simp]:
  "replies_to f (s\<lparr>client_mgr := c\<rparr>) = replies_to f s"
  "replies_to f (s\<lparr>room_mgr := r\<rparr>) = replies_to f s"
  by (simp_all add: replies_to_def)

lemma pkt_type_error [simp]: "pkt_type (error_packet t prefix e) = t"
  by (simp add: error_packet_def)

lemma one_reply:
  assumes "replies_to f s' = replies_to f s"
    and "\<And>q. r = Inr q \<Longrightarrow> pkt_type q \<in> set ts" and "t \<in> set ts"
  shows "\<exists>q. replies_to f (respond f t prefix (r, s')) = replies_to f s @ [q] \<and> pkt_type q \<in> set ts"
  using assms by (cases r) (simp_all add: replies_respond)

lemma nickname_one_reply:
  "\<exists>q. replies_to f (nickname_handle f p s) = replies_to f s @ [q] \<and>
     pkt_type q \<in> {NICKNAME_RESPONSE_OK, NICKNAME_RESPONSE_FAIL}"
proof -
  obtain r s' where b: "nickname_body f p s = (r, s')" by force
  then have "replies_to f s' = replies_to f s \<and>
      (\<forall>q. r = Inr q \<longrightarrow> pkt_type q \<in> {NICKNAME_RESPONSE_OK, NICKNAME_RESPONSE_FAIL})"
    by (cases rule: nickname_body_cases) auto
  with one_reply [of f s' s r "[NICKNAME_RESPONSE_OK, NICKNAME_RESPONSE_FAIL]"] show ?thesis
    by (simp add: nickname_handle_def b)
qed

lemma create_one_reply:
  "\<exists>q. replies_to f (handleCreateRoom pf f p s) = replies_to f s @ [q] \<and>
     pkt_type q \<in> {ROOM_CREATE_OK, ROOM_CREATE_FAIL}"
proof -
  obtain r s' where b: "create_body pf f p s = (r, s')" by force
  then have "replies_to f s' = replies_to f s \<and>
      (\<forall>q. r = Inr q \<longrightarrow> pkt_type q \<in> {ROOM_CREATE_OK, ROOM_CREATE_FAIL})"
  proof (cases rule: create_body_cases)
    case refused
    then show ?thesis by auto
  next
    case (accepted n k)
    then show ?thesis by (cases rule: create_room_cases) auto
  qed
  with one_reply [of f s' s r "[ROOM_CREATE_OK, ROOM_CREATE_FAIL]"] show ?thesis
    by (simp add: handleCreateRoom_def b)
qed

lemma join_one_reply:
  "\<exists>q. replies_to f (handleJoinRoom pf f p s) = replies_to f s @ [q] \<and>
     pkt_type q \<in> {ROOM_JOIN_OK, ROOM_JOIN_FAIL}"
proof -
  obtain r s' where b: "join_body pf f p s = (r, s')" by force
  then have "replies_to f s' = replies_to f s \<and>
      (\<forall>q. r = Inr q \<longrightarrow> pkt_type q \<in> {ROOM_JOIN_OK, ROOM_JOIN_FAIL})"
  proof (cases rule: join_body_cases)
    case refused
    then show ?thesis by auto
  next
    case (accepted code)
    then show ?thesis by (cases rule: join_room_cases) auto
  qed
  with one_reply [of f s' s r "[ROOM_JOIN_OK, ROOM_JOIN_FAIL]"] show ?thesis
    by (simp add: handleJoinRoom_def b)
qed

lemma exit_one_reply:
  "\<exists>q. replies_to f (handleExitRoom pf f p s) = replies_to f s @ [q] \<and>
     pkt_type q \<in> {ROOM_EXIT_OK, ROOM_EXIT_FAIL}"
proof -
  obtain r s' where b: "exit_body pf f p s = (r, s')" by force
  then have "replies_to f s' = replies_to f s \<and>
      (\<forall>q. r = Inr q \<longrightarrow> pkt_type q \<in> {ROOM_EXIT_OK, ROOM_EXIT_FAIL})"
    by (cases rule: exit_body_cases) auto
  with one_reply [of f s' s r "[ROOM_EXIT_OK, ROOM_EXIT_FAIL]"] show ?thesis
    by (simp add: handleExitRoom_def b)
qed

text \<open>
  Every nickname, create, join and exit request is answered exactly once, to the client that sent
  it, with a packet of the request's own success or failure type, whatever the payload and the state.
\<close>

theorem request_answered_once:
  assumes "pkt_type p \<in> {NICKNAME_REQUEST, CREATE_ROOM, JOIN_ROOM, EXIT_ROOM}"
  shows "\<exists>q. replies_to f (packet_handle pf now f p s) = replies_to f s @ [q]
             \<and> pkt_type q \<in> set (reply_types (pkt_type p))"
proof (cases rule: packet_handle_cases [of p pf now f s])
  case nickname
  then show ?thesis using nickname_one_reply [of f p s] by simp
next
  case create
  then show ?thesis using create_one_reply [of f pf p s] by simp
next
  case join
  then show ?thesis using join_one_reply [of f pf p s] by simp
next
  case exit
  then show ?thesis using exit_one_reply [of f pf p s] by simp
qed (use assms in simp_all)

theorem request_answered_once_witness:
  "\<exists>q. replies_to 5 (packet_handle demo_platform [] 5 (text_packet EXIT_ROOM []) demo_server) = [q]
       \<and> pkt_type q \<in> {ROOM_EXIT_OK, ROOM_EXIT_FAIL}"
  using request_answered_once [of "text_packet EXIT_ROOM []" 5 demo_platform "[]" demo_server]
  by (simp add: replies_to_def demo_server_def)

section \<open>Error paths\<close>

definition fail_type :: "packet_type \<Rightarrow> packet_type" where
  "fail_type t =
     (case t of NICKNAME_REQUEST \<Rightarrow> NICKNAME_RESPONSE_FAIL | CREATE_ROOM \<Rightarrow> ROOM_CREATE_FAIL
      | JOIN_ROOM \<Rightarrow> ROOM_JOIN_FAIL | _ \<Rightarrow> t)"

text \<open>
  C21. A payload that is no JSON text changes nothing: the client gets the request's failure packet with
  the parser's message, cut at the size of the payload array, and nobody else hears of it.
\<close>

theorem malformed_request_rejected:
  assumes "json_parse (payload_str p) = Inl e"
    and "pkt_type p \<in> {NICKNAME_REQUEST, CREATE_ROOM, JOIN_ROOM}"
  shows "packet_handle pf now f p s =
           s\<lparr>sends := sends s @
               [(f, clipped_packet (fail_type (pkt_type p)) (''JSON parse error: '' @ what e))]\<rparr>"
  using assms
  by (cases rule: packet_handle_cases [of p pf now f s])
    (auto simp: nickname_handle_def nickname_body_def handleCreateRoom_def create_body_def
      handleJoinRoom_def join_body_def respond_def error_packet_def sendPacket_def fail_type_def)

definition empty_input_message :: string where
  "empty_input_message =
     ''[json.exception.parse_error.101] parse error at line 1, column 1: attempting to parse an empty input; check that your input string or stream contains the expected JSON''"

lemma empty_payload_parse: "json_parse [] = Inl (Parse_Error 101 empty_input_message)"
  by code_simp

theorem malformed_request_rejected_witness:
  "packet_handle demo_platform [] 7 (text_packet JOIN_ROOM []) demo_server =
     demo_server\<lparr>sends :=
       [(7, clipped_packet ROOM_JOIN_FAIL (''JSON parse error: '' @ empty_input_message))]\<rparr>"
proof -
  have "payload_str (text_packet JOIN_ROOM []) = []" by (simp add: payload_str_text)
  then have e: "json_parse (payload_str (text_packet JOIN_ROOM [])) = Inl (Parse_Error 101 empty_input_message)"
    by (simp only: empty_payload_parse)
  have s: "sends demo_server = []" by (simp add: demo_server_def)
  show ?thesis
    using malformed_request_rejected [OF e, of demo_platform "[]" 7 demo_server]
    by (simp add: fail_type_def s)
qed

section \<open>Nickname\<close>

text \<open>
  C12. A nickname request of a connected client. If the name is not in use, the client is authenticated
  under it and told so with an empty packet; if it is, nothing changes and the client is told it is
  duplicated. No other client's entry changes either way.
\<close>

theorem nickname_request:
  assumes "pkt_type p = NICKNAME_REQUEST" and "json_parse (payload_str p) = Inr (JObject m)"
    and "map_of m ''nickname'' = Some (JString n)" and "getClient f (client_mgr s) = Some c"
    and "s' = packet_handle pf now f p s"
  shows "if isNicknameTaken n (client_mgr s)
         then s' = s\<lparr>sends := sends s @ [(f, text_packet NICKNAME_RESPONSE_FAIL ''Duplicated nickname.'')]\<rparr>
         else sends s' = sends s @ [(f, mk_packet NICKNAME_RESPONSE_OK 0 [])]
              \<and> getClient f (client_mgr s') = Some (c\<lparr>nickname := n, isAuthenticated := True\<rparr>)
              \<and> (\<forall>g. g \<noteq> f \<longrightarrow> getClient g (client_mgr s') = getClient g (client_mgr s))
              \<and> m_nicknames (client_mgr s') = insert n (m_nicknames (client_mgr s))
              \<and> room_mgr s' = room_mgr s"
proof -
  have has: "has_field is_string ''nickname'' (JObject m) = Inr True"
    using assms(3) by (simp add: has_field_def contains_def json_at_def)
  have s': "s' = nickname_handle f p s"
    using assms(1,5) by (simp add: packet_handle_def m_handlers_def)
  show ?thesis
    using assms(2-4)
    by (simp add: s' nickname_handle_def nickname_body_def has string_field_object respond_def
        sendPacket_def client_simps)
qed

theorem nickname_request_witness:
  "getClient 5 (client_mgr (packet_handle demo_platform [] 5 demo_request (srv demo_accepted))) =
     Some ((new_client 5 ''10.0.0.1'')\<lparr>nickname := ''a'', isAuthenticated := True\<rparr>)"
proof -
  have t: "pkt_type demo_request = NICKNAME_REQUEST" by (simp add: demo_request_def)
  have n: "map_of [(''nickname'', JString ''a'')] ''nickname'' = Some (JString ''a'')" by simp
  have c: "getClient 5 (client_mgr (srv demo_accepted)) = Some (new_client 5 ''10.0.0.1'')"
    by (simp add: demo_accepted_srv getClient_def)
  have "\<not> isNicknameTaken ''a'' (client_mgr (srv demo_accepted))"
    by (simp add: demo_accepted_srv isNicknameTaken_def)
  with nickname_request [OF t demo_request_parsed n c refl, of demo_platform "[]"]
  show ?thesis by (simp only: if_False)
qed

section \<open>Rooms\<close>

lemma has_string_field:
  "map_of m k = Some (JString x) \<Longrightarrow> has_field is_string k (JObject m) = Inr True"
  by (simp add: has_field_def contains_def json_at_def)

text \<open>
  C13. Joining a room. When a client in no room names a room that admits it, the members of the room are
  told first, in the order in which they came, each with the same packet; the client's own success packet
  is the last one sent; the client is appended to the members and its entry holds the room code.
\<close>

theorem join_request_accepted:
  assumes "pkt_type p = JOIN_ROOM" and "json_parse (payload_str p) = Inr (JObject m)"
    and "map_of m ''roomCode'' = Some (JString code)"
    and "getClient f (client_mgr s) = Some c" and "ci_roomCode c = []"
    and "getRoom code (room_mgr s) = Some r" and "acceptNewUser f r = (SUCCESS, r')"
    and "dump_fields (dtoa pf) [(''roomCode'', JString code)] = Inr ok_text"
    and "dump_fields (dtoa pf) (user_fields f c) = Inr join_text"
    and "s' = packet_handle pf now f p s"
  shows "sends s' = sends s @ map (\<lambda>g. (g, clipped_packet ROOM_USER_JOIN join_text)) (clients r)
                      @ [(f, clipped_packet ROOM_JOIN_OK ok_text)]
         \<and> getRoom code (room_mgr s') = Some (r\<lparr>clients := clients r @ [f]\<rparr>)
         \<and> getClient f (client_mgr s') = Some (c\<lparr>ci_roomCode := code\<rparr>)"
proof -
  have f: "f \<notin> set (clients r)" and r': "r' = r\<lparr>clients := clients r @ [f]\<rparr>"
    using assms(7) by (auto simp: acceptNewUser_def split: if_splits)
  have s': "s' = handleJoinRoom pf f p s"
    using assms(1,10) by (simp add: packet_handle_def m_handlers_def room_handle_def)
  have j: "joinRoom f code (room_mgr s) =
      (True, (room_mgr s)\<lparr>rooms := AList.update code r' (rooms (room_mgr s))\<rparr>)"
    using assms(6,7) by (simp add: joinRoom_def getRoom_def)
  have filt: "filter (\<lambda>g. g \<noteq> f) (clients r) = clients r"
    using f by (auto simp: filter_id_conv)
  show ?thesis
    using assms(2-5,8,9)
    by (simp add: s' handleJoinRoom_def join_body_def has_string_field string_field_object join_room_def j
        respond_def room_members_def members_def getRoom_def members_update r' filt client_simps)
qed

definition demo_join :: packet where
  "demo_join = text_packet JOIN_ROOM ''{\"roomCode\":\"r\"}''"

lemma demo_join_parsed: "json_parse (payload_str demo_join) = Inr (JObject [(''roomCode'', JString ''r'')])"
  unfolding demo_join_def by code_simp

lemma demo_room_text:
  "dump_fields dt [(''roomCode'', JString ''r'')] = Inr ''{\"roomCode\":\"r\"}''"
  by code_simp

lemma demo_user_text:
  "dump_fields dt (user_fields 7 (demo_client 7 [] [])) = Inr ''{\"clientFd\":7,\"nickname\":\"Anonymous\"}''"
  "dump_fields dt (user_fields 5 (demo_client 5 ''al'' ''r'')) = Inr ''{\"clientFd\":5,\"nickname\":\"al\"}''"
  by code_simp+

theorem join_request_accepted_witness:
  "sends (packet_handle demo_platform [] 7 demo_join demo_server) =
     [(5, clipped_packet ROOM_USER_JOIN ''{\"clientFd\":7,\"nickname\":\"Anonymous\"}''),
      (6, clipped_packet ROOM_USER_JOIN ''{\"clientFd\":7,\"nickname\":\"Anonymous\"}''),
      (7, clipped_packet ROOM_JOIN_OK ''{\"roomCode\":\"r\"}'')]"
proof -
  let ?r = "\<lparr>roomCode = ''r'', roomName = ''n'', maxUserCnt = 3, clients = [5, 6]\<rparr>"
  have room: "getRoom ''r'' (room_mgr demo_server) = Some ?r"
    by (simp add: getRoom_def demo_server_def)
  have acc: "acceptNewUser 7 ?r = (SUCCESS, ?r\<lparr>clients := [5, 6, 7]\<rparr>)"
    by (simp add: acceptNewUser_def capacity_def)
  show ?thesis
    using join_request_accepted [OF _ demo_join_parsed _ demo_client_of(3) _ room acc demo_room_text
        demo_user_text(1), where pf = demo_platform and now = "[]"]
    by (simp add: demo_join_def demo_client_def demo_server_def)
qed

lemma filter_not_self: "f \<notin> set xs \<Longrightarrow> filter (\<lambda>g. g \<noteq> f) xs = xs"
  by (induction xs) auto

text \<open>
  C14. Leaving a room. The other members are told first, then the client's own success packet is sent;
  the client is taken off the member list, the room goes when nobody is left, no other room changes, and
  the client's entry holds no room code.
\<close>

theorem exit_request_accepted:
  assumes "pkt_type p = EXIT_ROOM" and "srv_ok s"
    and "getClient f (client_mgr s) = Some c" and "ci_roomCode c \<noteq> []"
    and "dump_fields (dtoa pf) (user_fields f c) = Inr exit_text"
    and "s' = packet_handle pf now f p s"
  shows "\<exists>xs ys. members (room_mgr s) (ci_roomCode c) = Some (xs @ f # ys) \<and> f \<notin> set (xs @ ys)
         \<and> sends s' = sends s @ map (\<lambda>g. (g, clipped_packet ROOM_USER_EXIT exit_text)) (xs @ ys)
                        @ [(f, mk_packet ROOM_EXIT_OK 0 [])]
         \<and> members (room_mgr s') =
             (members (room_mgr s))(ci_roomCode c := if xs @ ys = [] then None else Some (xs @ ys))
         \<and> getClient f (client_mgr s') = Some (c\<lparr>ci_roomCode := []\<rparr>)"
proof -
  have s': "s' = handleExitRoom pf f p s"
    using assms(1,6) by (simp add: packet_handle_def m_handlers_def room_handle_def)
  from assms(2-4) obtain zs where z: "members (room_mgr s) (ci_roomCode c) = Some zs" "f \<in> set zs"
    by (auto simp: srv_ok_def room_link_def)
  from z(1) assms(2) have "distinct zs"
    by (auto simp: srv_ok_def rm_ok_def room_ok_def members_def getRoom_def)
  with z(2) obtain xs ys where xy: "zs = xs @ f # ys" "f \<notin> set (xs @ ys)"
    by (auto dest: split_list)
  then have rem: "remove1 f zs = xs @ ys" and filt: "filter (\<lambda>g. g \<noteq> f) zs = xs @ ys"
    by (simp_all add: remove1_append filter_not_self)
  have eff: "sends s' = sends s @ map (\<lambda>g. (g, clipped_packet ROOM_USER_EXIT exit_text)) (xs @ ys)
                        @ [(f, mk_packet ROOM_EXIT_OK 0 [])]"
    "members (room_mgr s') = members (leaveRoom f (ci_roomCode c) (room_mgr s))"
    "getClient f (client_mgr s') = Some (c\<lparr>ci_roomCode := []\<rparr>)"
    using assms(3-5) z(1) filt
    by (simp_all add: s' handleExitRoom_def exit_body_def respond_def room_members_def client_simps Let_def)
  from eff(2) z(1) rem have "members (room_mgr s') =
      (members (room_mgr s))(ci_roomCode c := if xs @ ys = [] then None else Some (xs @ ys))"
    by (simp add: leaveRoom_members)
  with eff z(1) xy show ?thesis by blast
qed

theorem exit_request_accepted_witness:
  "\<exists>xs ys. members (room_mgr demo_server) ''r'' = Some (xs @ 5 # ys) \<and>
     sends (packet_handle demo_platform [] 5 (text_packet EXIT_ROOM []) demo_server) =
       map (\<lambda>g. (g, clipped_packet ROOM_USER_EXIT ''{\"clientFd\":5,\"nickname\":\"al\"}'')) (xs @ ys)
       @ [(5, mk_packet ROOM_EXIT_OK 0 [])]"
proof -
  have s0: "sends demo_server = []" "ci_roomCode (demo_client 5 ''al'' ''r'') = ''r''"
    by (simp_all add: demo_server_def demo_client_def)
  show ?thesis
    using exit_request_accepted [OF _ demo_ok demo_client_of(1) _ demo_user_text(2),
        of "text_packet EXIT_ROOM []" _ demo_platform "[]"]
    by (auto simp: s0)
qed

lemma create_effect:
  assumes "pkt_type p = CREATE_ROOM" and "json_parse (payload_str p) = Inr (JObject m)"
    and "map_of m ''roomName'' = Some (JString n)" and "map_of m ''maxUsers'' = Some v"
    and "is_number v" and "get_int (oor pf) v = Inr k" and "k \<noteq> 0"
    and "getClient f (client_mgr s) = Some c"
    and "addRoom (draw pf) n k (room_mgr s) = (code, rm)" and "code \<noteq> []"
    and "dump_fields (dtoa pf) [(''roomCode'', JString code)] = Inr ok_text"
    and "s' = packet_handle pf now f p s"
  shows "sends s' = sends s @ [(f, clipped_packet ROOM_CREATE_OK ok_text)]
         \<and> members (room_mgr s') = (members (room_mgr s))(code \<mapsto> [f])
         \<and> getClient f (client_mgr s') = Some (c\<lparr>ci_roomCode := code\<rparr>)"
proof -
  from addRoom_result [OF assms(9,10)] have room: "getRoom code rm = Some (new_room code n k)"
    and others: "\<forall>c'. c' \<noteq> code \<longrightarrow> getRoom c' rm = getRoom c' (room_mgr s)" by blast+
  have "unat (capacity (new_room code n k)) \<noteq> 0"
    using assms(7) by (simp add: capacity_eq_0) (simp add: new_room_def)
  then have "\<not> (0 :: u64) \<ge> capacity (new_room code n k)"
    by (simp add: word_le_nat_alt)
  then have "acceptNewUser f (new_room code n k) = (SUCCESS, (new_room code n k)\<lparr>clients := [f]\<rparr>)"
    by (simp add: acceptNewUser_def) (simp add: new_room_def)
  with room have j: "joinRoom f code rm =
      (True, rm\<lparr>rooms := AList.update code ((new_room code n k)\<lparr>clients := [f]\<rparr>) (rooms rm)\<rparr>)"
    by (simp add: joinRoom_def getRoom_def)
  have num: "has_field is_number ''maxUsers'' (JObject m) = Inr True"
    using assms(4,5) by (simp add: has_field_def contains_def json_at_def)
  have int: "int_field (oor pf) ''maxUsers'' (JObject m) = Inr k"
    using assms(4,6) by (simp add: int_field_def json_at_def)
  have s': "s' = handleCreateRoom pf f p s"
    using assms(1,12) by (simp add: packet_handle_def m_handlers_def room_handle_def)
  have body: "create_body pf f p s =
      (Inr (clipped_packet ROOM_CREATE_OK ok_text),
       s\<lparr>room_mgr := rm\<lparr>rooms := AList.update code ((new_room code n k)\<lparr>clients := [f]\<rparr>) (rooms rm)\<rparr>,
         client_mgr := set_room f code (client_mgr s)\<rparr>)"
    using assms(2,3,8-11)
    by (simp add: create_body_def has_string_field string_field_object num int create_room_def j)
  have "members (room_mgr s') = (members (room_mgr s))(code \<mapsto> [f])"
    using others by (auto simp: s' handleCreateRoom_def body fun_eq_iff members_def getRoom_def members_update)
  then show ?thesis
    using assms(8) by (simp add: s' handleCreateRoom_def body respond_def client_simps)
qed

text \<open>
  C15. Creating a room with a capacity other than zero: the creator becomes the only member of the new
  room, its entry holds the new code, no other room changes, and one packet is sent, the creation
  confirmed with the code.
\<close>

theorem create_request_accepted:
  assumes "pkt_type p = CREATE_ROOM" and "json_parse (payload_str p) = Inr (JObject m)"
    and "map_of m ''roomName'' = Some (JString n)" and "map_of m ''maxUsers'' = Some v"
    and "is_number v" and "get_int (oor pf) v = Inr k" and "k \<noteq> 0"
    and "getClient f (client_mgr s) = Some c"
    and "addRoom (draw pf) n k (room_mgr s) = (code, rm)" and "code \<noteq> []"
    and "dump_fields (dtoa pf) [(''roomCode'', JString code)] = Inr ok_text"
    and "s' = packet_handle pf now f p s"
  shows "sends s' = sends s @ [(f, clipped_packet ROOM_CREATE_OK ok_text)]
         \<and> members (room_mgr s') = (members (room_mgr s))(code \<mapsto> [f])
         \<and> getClient f (client_mgr s') = Some (c\<lparr>ci_roomCode := code\<rparr>)"
  by (rule create_effect [OF assms])

definition demo_create :: packet where
  "demo_create = text_packet CREATE_ROOM ''{\"roomName\":\"n\",\"maxUsers\":2}''"

lemma demo_create_parsed:
  "json_parse (payload_str demo_create) = Inr (JObject [(''maxUsers'', JUnsigned 2), (''roomName'', JString ''n'')])"
  unfolding demo_create_def by code_simp

lemma demo_code_text:
  "dump_fields dt [(''roomCode'', JString ''abcdefgh'')] = Inr ''{\"roomCode\":\"abcdefgh\"}''"
  by code_simp

lemma demo_addRoom: "fst (addRoom (draw demo_platform) n k (room_mgr demo_server)) = ''abcdefgh''"
  by (simp add: addRoom_def room_limit demo_server_def demo_platform_def addRoom_loop.simps [of _ _ 0 0]
      generateRoomCode_def room_chars_def upt_rec word_le_nat_alt)

theorem create_request_accepted_witness:
  "sends (packet_handle demo_platform [] 7 demo_create demo_server) =
     [(7, clipped_packet ROOM_CREATE_OK ''{\"roomCode\":\"abcdefgh\"}'')]"
proof -
  obtain rm where a: "addRoom (draw demo_platform) ''n'' 2 (room_mgr demo_server) = (''abcdefgh'', rm)"
    using demo_addRoom by (metis prod.collapse)
  have "pkt_type demo_create = CREATE_ROOM" "sends demo_server = []"
    by (simp_all add: demo_create_def demo_server_def)
  moreover have "get_int (oor demo_platform) (JUnsigned 2) = Inr 2" by (simp add: get_int_def)
  ultimately show ?thesis
    using create_request_accepted [OF _ demo_create_parsed _ _ _ _ _ demo_client_of(3) a _ demo_code_text,
        where v = "JUnsigned 2" and now = "[]"]
    by simp
qed

section \<open>Chat\<close>

lemma chat_handled:
  assumes "pkt_type p = MESSAGE_SEND" and "getClient f (client_mgr s) = Some c"
    and "isAuthenticated c" and "ci_roomCode c \<noteq> []" and "json_parse (payload_str p) = Inr j"
    and "json_at j ''message'' = Inr msg"
    and "dump_fields (dtoa pf) (chat_fields f c msg now) = Inr txt"
  shows "packet_handle pf now f p s =
           (if length txt \<le> MAX_PAYLOAD_SIZE
            then s\<lparr>sends := sends s @ map (\<lambda>g. (g, text_packet MESSAGE_CHAT txt))
                                  (filter (\<lambda>g. g \<noteq> f) (room_members s (ci_roomCode c)))\<rparr>
            else s)"
  using assms by (simp add: packet_handle_def m_handlers_def message_handle_def broadcast_eq)

text \<open>
  C22. A chat message of an authenticated client in a room: every other member of the sender's room gets
  the same packet, exactly in member order, and nothing else happens; if the text of the packet is longer
  than the payload array, nobody gets anything.
\<close>

theorem chat_delivered:
  assumes "pkt_type p = MESSAGE_SEND" and "getClient f (client_mgr s) = Some c"
    and "isAuthenticated c" and "ci_roomCode c \<noteq> []" and "json_parse (payload_str p) = Inr j"
    and "json_at j ''message'' = Inr msg"
    and "dump_fields (dtoa pf) (chat_fields f c msg now) = Inr txt"
  shows "packet_handle pf now f p s =
           (if length txt \<le> MAX_PAYLOAD_SIZE
            then s\<lparr>sends := sends s @ map (\<lambda>g. (g, text_packet MESSAGE_CHAT txt))
                                  (filter (\<lambda>g. g \<noteq> f) (room_members s (ci_roomCode c)))\<rparr>
            else s)"
  using assms by (rule chat_handled)

definition demo_chat :: packet where
  "demo_chat = text_packet MESSAGE_SEND ''{\"message\":\"x\"}''"

lemma demo_chat_parsed: "json_parse (payload_str demo_chat) = Inr (JObject [(''message'', JString ''x'')])"
  unfolding demo_chat_def by code_simp

definition demo_chat_text :: string where
  "demo_chat_text =
     ''{\"message\":\"x\",\"sender_fd\":5,\"sender_ip\":\"10.0.0.1\",\"sender_nickname\":\"al\",\"timestamp\":\"T\"}''"

lemma demo_chat_text: "dump_fields dt (chat_fields 5 (demo_client 5 ''al'' ''r'') (JString ''x'') ''T'') = Inr demo_chat_text"
  by code_simp

lemma demo_chat_handled:
  "packet_handle demo_platform ''T'' 5 demo_chat demo_server =
     demo_server\<lparr>sends := [(6, text_packet MESSAGE_CHAT demo_chat_text)]\<rparr>"
proof -
  have t: "pkt_type demo_chat = MESSAGE_SEND" by (simp add: demo_chat_def)
  have c: "isAuthenticated (demo_client 5 ''al'' ''r'')" "ci_roomCode (demo_client 5 ''al'' ''r'') = ''r''"
    by (simp_all add: demo_client_def)
  have msg: "json_at (JObject [(''message'', JString ''x'')]) ''message'' = Inr (JString ''x'')"
    by (simp add: json_at_def)
  have "length demo_chat_text \<le> MAX_PAYLOAD_SIZE" by (simp add: demo_chat_text_def MAX_PAYLOAD_SIZE_def)
  moreover have "sends demo_server = []" by (simp add: demo_server_def)
  ultimately show ?thesis
    using chat_handled [OF t demo_client_of(1) c(1) _ demo_chat_parsed msg demo_chat_text, of demo_platform]
    by (simp add: c demo_members)
qed

theorem chat_delivered_witness:
  "packet_handle demo_platform ''T'' 5 demo_chat demo_server =
     demo_server\<lparr>sends := [(6, text_packet MESSAGE_CHAT demo_chat_text)]\<rparr>"
proof -
  have t: "pkt_type demo_chat = MESSAGE_SEND" by (simp add: demo_chat_def)
  have c: "isAuthenticated (demo_client 5 ''al'' ''r'')" "ci_roomCode (demo_client 5 ''al'' ''r'') = ''r''"
    by (simp_all add: demo_client_def)
  have msg: "json_at (JObject [(''message'', JString ''x'')]) ''message'' = Inr (JString ''x'')"
    by (simp add: json_at_def)
  have "length demo_chat_text \<le> MAX_PAYLOAD_SIZE" by (simp add: demo_chat_text_def MAX_PAYLOAD_SIZE_def)
  moreover have "sends demo_server = []" by (simp add: demo_server_def)
  ultimately show ?thesis
    using chat_delivered [OF t demo_client_of(1) c(1) _ demo_chat_parsed msg demo_chat_text, of demo_platform]
    by (simp add: c demo_members)
qed

text \<open>
  C11. Chat stays in its room: whatever a chat message contains, nobody but members of the sender's own
  room hears of it, the sender hears nothing, no member gets it twice, it changes neither clients nor
  rooms, and a sender that is not authenticated or in no room reaches nobody.
\<close>

theorem chat_isolation:
  assumes "pkt_type p = MESSAGE_SEND" and "srv_ok s"
  shows "\<exists>new. packet_handle pf now f p s = s\<lparr>sends := sends s @ new\<rparr> \<and> distinct (map fst new)
           \<and> (\<forall>(g, q) \<in> set new. pkt_type q = MESSAGE_CHAT \<and> wf_packet q \<and> g \<noteq> f
                \<and> (\<exists>c. getClient f (client_mgr s) = Some c \<and> isAuthenticated c \<and> ci_roomCode c \<noteq> []
                     \<and> g \<in> set (room_members s (ci_roomCode c))))"
proof -
  have h: "packet_handle pf now f p s = message_handle pf now f p s"
    using assms(1) by (simp add: packet_handle_def m_handlers_def)
  show ?thesis
  proof (cases rule: message_cases [of pf now f p s])
    case silent
    then show ?thesis by (intro exI [of _ "[]"]) (simp add: h)
  next
    case (sent c j msg str)
    have d: "distinct (room_members s (ci_roomCode c))"
      using assms(2) by (auto simp: srv_ok_def rm_ok_def room_ok_def room_members_def members_def
          getRoom_def split: option.splits)
    show ?thesis
      by (intro exI [of _ "map (\<lambda>g. (g, text_packet MESSAGE_CHAT str))
            (filter (\<lambda>g. g \<noteq> f) (room_members s (ci_roomCode c)))"])
        (use sent d in \<open>auto simp: h broadcast_eq comp_def wf_text_packet\<close>)
  qed
qed

theorem chat_isolation_witness:
  "\<exists>new. packet_handle demo_platform [] 7 demo_chat demo_server = demo_server\<lparr>sends := new\<rparr>
     \<and> (\<forall>(g, q) \<in> set new. g \<noteq> 7)"
proof -
  have "pkt_type demo_chat = MESSAGE_SEND" "sends demo_server = []"
    by (simp_all add: demo_chat_def demo_server_def)
  with chat_isolation [OF _ demo_ok, of demo_chat demo_platform "[]" 7] show ?thesis by fastforce
qed

end
