(* ===== verification/Fault_Properties.thy ===== *)
theory Fault_Properties
  imports Request_Properties
begin

text \<open>
  Behaviours of the server that its users would not expect: descriptors that stay in rooms after their
  connection is gone, rooms nobody can enter, nicknames that stay taken, tasks that outlive their
  connection, and the window between the check and the registration of a nickname.
\<close>

section \<open>Members without a connection\<close>

lemma close_accept_srv:
  "srv (closeConnection f w) =
     (srv w)\<lparr>client_mgr := (if getClient f (client_mgr (srv w)) \<noteq> None
        then removeClient f (client_mgr (srv w)) else client_mgr (srv w))\<rparr>"
  "f > 0 \<Longrightarrow> srv (acceptNewConnection \<lparr>conn_fd = f, conn_ip = a\<rparr> True w) =
     (srv w)\<lparr>client_mgr := addClient f a (client_mgr (srv w))\<rparr>"
  by (auto simp: closeConnection_def acceptNewConnection_def on_clients_def isValid_def Let_def)

lemma close_accept_room [simp]:
  "room_mgr (srv (closeConnection f w)) = room_mgr (srv w)"
  "room_mgr (srv (acceptNewConnection c b w)) = room_mgr (srv w)"
  by (auto simp: closeConnection_def acceptNewConnection_def on_clients_def Let_def)

lemma close_accept_client:
  "getClient g (client_mgr (srv (closeConnection f w))) =
     (if g = f then None else getClient g (client_mgr (srv w)))"
  "f > 0 \<Longrightarrow> getClient g (client_mgr (srv (acceptNewConnection \<lparr>conn_fd = f, conn_ip = a\<rparr> True w))) =
     (if g = f then Some (new_client f a) else getClient g (client_mgr (srv w)))"
  by (simp_all add: close_accept_srv client_simps)

lemma close_accept_pool [simp]:
  "pool (closeConnection f w) = pool w"
  "pool (acceptNewConnection c b w) = pool w"
  by (auto simp: closeConnection_def acceptNewConnection_def on_clients_def Let_def)

text \<open>
  C29. Closing a connection does not take its descriptor out of its room. When the kernel gives the same
  descriptor to the next connection, the new client, which has sent nothing, is not authenticated and is
  in no room, receives the chat of that room.
\<close>

theorem stranger_receives_chat:
  assumes "f \<in> set (room_members (srv w) (ci_roomCode c))" and "f > 0" and "g \<noteq> f"
    and "pkt_type p = MESSAGE_SEND" and "getClient g (client_mgr (srv w)) = Some c"
    and "isAuthenticated c" and "ci_roomCode c \<noteq> []" and "json_parse (payload_str p) = Inr j"
    and "json_at j ''message'' = Inr msg"
    and "dump_fields (dtoa pf) (chat_fields g c msg now) = Inr txt" and "length txt \<le> MAX_PAYLOAD_SIZE"
    and "w' = acceptNewConnection \<lparr>conn_fd = f, conn_ip = a\<rparr> True (closeConnection f w)"
  shows "getClient f (client_mgr (srv w')) = Some (new_client f a)
         \<and> (f, text_packet MESSAGE_CHAT txt) \<in> set (sends (packet_handle pf now g p (srv w')))"
proof -
  have "getClient g (client_mgr (srv w')) = Some c"
    using assms(2,3,5,12) by (simp add: close_accept_client)
  moreover have "room_members (srv w') (ci_roomCode c) = room_members (srv w) (ci_roomCode c)"
    by (simp add: room_members_def assms(12))
  ultimately show ?thesis
    using assms(1-4,6-11)
    by (auto simp: packet_handle_def m_handlers_def message_handle_def assms(12) close_accept_client)
qed

theorem stranger_receives_chat_witness:
  "let w' = acceptNewConnection \<lparr>conn_fd = 6, conn_ip = ''10.9.9.9''\<rparr> True (closeConnection 6 demo_world) in
   getClient 6 (client_mgr (srv w')) = Some (new_client 6 ''10.9.9.9'')
   \<and> (6, text_packet MESSAGE_CHAT demo_chat_text)
       \<in> set (sends (packet_handle demo_platform ''T'' 5 demo_chat (srv w')))"
proof -
  have w: "srv demo_world = demo_server" by (simp add: demo_world_def)
  have t: "pkt_type demo_chat = MESSAGE_SEND" by (simp add: demo_chat_def)
  have c: "isAuthenticated (demo_client 5 ''al'' ''r'')" "ci_roomCode (demo_client 5 ''al'' ''r'') = ''r''"
    by (simp_all add: demo_client_def)
  have msg: "json_at (JObject [(''message'', JString ''x'')]) ''message'' = Inr (JString ''x'')"
    by (simp add: json_at_def)
  have mem: "6 \<in> set (room_members (srv demo_world) (ci_roomCode (demo_client 5 ''al'' ''r'')))"
    by (simp add: w c demo_members)
  have cl: "getClient 5 (client_mgr (srv demo_world)) = Some (demo_client 5 ''al'' ''r'')"
    by (simp add: w demo_client_of)
  have ne: "ci_roomCode (demo_client 5 ''al'' ''r'') \<noteq> []" by (simp add: c)
  have len: "length demo_chat_text \<le> MAX_PAYLOAD_SIZE" by (simp add: demo_chat_text_def MAX_PAYLOAD_SIZE_def)
  show ?thesis
    unfolding Let_def
    by (rule stranger_receives_chat [OF mem _ _ t cl c(1) ne demo_chat_parsed msg demo_chat_text len refl])
      simp_all
qed

text \<open>
  Creating a room while in one: the request is granted and the client's entry moves to the new room,
  but the client also stays in the member list of the old one, whose chat it keeps receiving and which it
  can no longer leave.
\<close>

theorem create_keeps_old_membership:
  assumes "srv_ok s" and "pkt_type p = CREATE_ROOM" and "json_parse (payload_str p) = Inr (JObject m)"
    and "map_of m ''roomName'' = Some (JString n)" and "map_of m ''maxUsers'' = Some v"
    and "is_number v" and "get_int (oor pf) v = Inr k" and "k \<noteq> 0"
    and "getClient f (client_mgr s) = Some c" and "ci_roomCode c \<noteq> []"
    and "addRoom (draw pf) n k (room_mgr s) = (code, rm)" and "code \<noteq> []"
    and "dump_fields (dtoa pf) [(''roomCode'', JString code)] = Inr ok_text"
    and "s' = packet_handle pf now f p s"
  shows "map_option ci_roomCode (getClient f (client_mgr s')) = Some code \<and> code \<noteq> ci_roomCode c
         \<and> f \<in> set (room_members s' code) \<and> f \<in> set (room_members s' (ci_roomCode c))"
proof -
  from create_effect [OF assms(2-9,11-14)]
  have eff: "members (room_mgr s') = (members (room_mgr s))(code \<mapsto> [f])"
    "getClient f (client_mgr s') = Some (c\<lparr>ci_roomCode := code\<rparr>)" by auto
  from assms(1,9,10) obtain xs where xs: "members (room_mgr s) (ci_roomCode c) = Some xs" "f \<in> set xs"
    by (auto simp: srv_ok_def room_link_def)
  from addRoom_result [OF assms(11,12)] have "members (room_mgr s) code = None"
    by (simp add: members_def)
  with xs have "code \<noteq> ci_roomCode c" by auto
  with eff xs show ?thesis by (simp add: room_members_def)
qed

theorem create_keeps_old_membership_witness:
  "let s' = packet_handle demo_platform [] 5 demo_create demo_server in
   5 \<in> set (room_members s' ''abcdefgh'') \<and> 5 \<in> set (room_members s' ''r'')"
proof -
  obtain rm where a: "addRoom (draw demo_platform) ''n'' 2 (room_mgr demo_server) = (''abcdefgh'', rm)"
    using demo_addRoom by (metis prod.collapse)
  have t: "pkt_type demo_create = CREATE_ROOM" by (simp add: demo_create_def)
  have i: "get_int (oor demo_platform) (JUnsigned 2) = Inr 2" by (simp add: get_int_def)
  have c: "ci_roomCode (demo_client 5 ''al'' ''r'') = ''r''" by (simp add: demo_client_def)
  show ?thesis
    unfolding Let_def
    using create_keeps_old_membership [OF demo_ok t demo_create_parsed _ _ _ i _ demo_client_of(1) _ a _
        demo_code_text refl, of "[]"]
    by (simp add: c)
qed

section \<open>Rooms nobody can enter\<close>

definition dead_room :: "string \<Rightarrow> server \<Rightarrow> bool" where
  "dead_room code s \<longleftrightarrow>
     (\<exists>r. getRoom code (room_mgr s) = Some r \<and> maxUserCnt r = 0 \<and> clients r = [])"

lemma dead_accept: "maxUserCnt r = 0 \<Longrightarrow> acceptNewUser f r = (ROOM_FULL, r)"
proof -
  assume "maxUserCnt r = 0"
  then have "unat (capacity r) = 0" by (simp only: capacity_eq_0)
  then show ?thesis by (simp only: acceptNewUser_def word_le_nat_alt) simp
qed

lemma getRoom_joinRoom_dead:
  assumes "getRoom code m = Some r" and "maxUserCnt r = 0"
  shows "getRoom code (snd (joinRoom f code' m)) = Some r" and "\<not> fst (joinRoom f code m)"
  using assms
  by (auto simp: joinRoom_def getRoom_def dead_accept members_update split: option.splits prod.splits)

lemma dead_room_join: "dead_room code s \<Longrightarrow> dead_room code (s\<lparr>room_mgr := snd (joinRoom f c (room_mgr s))\<rparr>)"
  by (auto simp: dead_room_def getRoom_joinRoom_dead)

lemma dead_room_join': "dead_room code s \<Longrightarrow> joinRoom f c (room_mgr s) = (b, rm) \<Longrightarrow> dead_room code (s\<lparr>room_mgr := rm\<rparr>)"
  using dead_room_join [of code s f c] by simp

lemma dead_room_add:
  assumes "dead_room code s" and "addRoom dr n k (room_mgr s) = (c, rm)"
  shows "dead_room code (s\<lparr>room_mgr := rm\<rparr>)"
proof (cases "c = []")
  case True
  with assms show ?thesis
    by (auto simp: addRoom_def dead_room_def getRoom_def split: if_splits option.splits prod.splits
        dest: addRoom_loop_Some)
      (auto simp: generateRoomCode_def dest!: addRoom_loop_Some)
next
  case False
  from addRoom_result [OF assms(2) this] assms(1) show ?thesis
    by (auto simp: dead_room_def) (metis option.distinct(1))
qed

lemma dead_room_leave:
  "dead_room code s \<Longrightarrow> c \<noteq> code \<Longrightarrow> dead_room code (s\<lparr>room_mgr := leaveRoom f c (room_mgr s)\<rparr>)"
  by (auto simp: dead_room_def leaveRoom_def getRoom_def members_update hm.find_erase Let_def
      split: option.splits)

lemma dead_room_fields [simp]:
  "dead_room code (s\<lparr>client_mgr := cm\<rparr>) = dead_room code s"
  "dead_room code (s\<lparr>sends := x\<rparr>) = dead_room code s"
  "dead_room code (s\<lparr>room_mgr := rm, client_mgr := cm\<rparr>) = dead_room code (s\<lparr>room_mgr := rm\<rparr>)"
  by (simp_all add: dead_room_def)

lemma dead_room_respond [simp]: "dead_room code (respond f t prefix r) = dead_room code (snd r)"
  by (simp add: dead_room_def)

lemma dead_room_broadcast [simp]: "dead_room code (broadcastPacketForRoom p c e s) = dead_room code s"
  by (simp add: dead_room_def)

lemma dead_create_room:
  assumes "dead_room code s" and "create_room pf f n k s = (r, s')"
  shows "dead_room code s'"
  using assms(2)
proof (cases rule: create_room_cases)
  case (full rm)
  with assms(1) show ?thesis by (auto intro: dead_room_add)
next
  case (made c rm)
  from dead_room_add [OF assms(1) made(1)] have 1: "dead_room code (s\<lparr>room_mgr := rm\<rparr>)" .
  with dead_room_join [OF 1, of f c] made show ?thesis by simp
next
  case (joined c rm rm')
  from dead_room_add [OF assms(1) joined(1)] have 1: "dead_room code (s\<lparr>room_mgr := rm\<rparr>)" .
  with dead_room_join' [OF 1, of f c True rm'] joined show ?thesis by simp
qed

lemma dead_join_room:
  assumes "dead_room code s" and "join_room pf f c s = (r, s')"
  shows "dead_room code s'"
  using assms(2)
proof (cases rule: join_room_cases)
  case refused
  with assms(1) show ?thesis by (auto intro: dead_room_join)
next
  case (joined d rm s2)
  with dead_room_join' [OF assms(1) joined(3)] show ?thesis by auto
qed

lemma dead_room_handle:
  assumes "srv_ok s" and "dead_room code s"
  shows "dead_room code (packet_handle pf now f p s)"
proof (cases rule: packet_handle_cases [of p pf now f s])
  case nickname
  obtain r s' where b: "nickname_body f p s = (r, s')" by force
  then have "dead_room code s'" by (cases rule: nickname_body_cases) (use assms(2) in simp_all)
  then show ?thesis by (simp add: nickname nickname_handle_def b)
next
  case message
  then show ?thesis using assms(2) by (cases rule: message_cases [of pf now f p s]) simp_all
next
  case create
  obtain r s' where b: "create_body pf f p s = (r, s')" by force
  then have "dead_room code s'"
    by (cases rule: create_body_cases) (use assms(2) in \<open>auto intro: dead_create_room\<close>)
  then show ?thesis by (simp add: create handleCreateRoom_def b)
next
  case join
  obtain r s' where b: "join_body pf f p s = (r, s')" by force
  then have "dead_room code s'"
    by (cases rule: join_body_cases) (use assms(2) in \<open>auto intro: dead_join_room\<close>)
  then show ?thesis by (simp add: join handleJoinRoom_def b)
next
  case exit
  obtain r s' where b: "exit_body pf f p s = (r, s')" by force
  then have "dead_room code s'"
  proof (cases rule: exit_body_cases)
    case refused
    then show ?thesis using assms(2) by simp
  next
    case (left c str)
    from left(1,2) assms(1) obtain xs where "members (room_mgr s) (ci_roomCode c) = Some xs" "f \<in> set xs"
      by (auto simp: srv_ok_def room_link_def)
    with assms(2) have "ci_roomCode c \<noteq> code" by (auto simp: dead_room_def members_def)
    with dead_room_leave [OF assms(2), of _ f] left(4) show ?thesis by (simp add: dead_room_def)
  qed
  then show ?thesis by (simp add: exit handleExitRoom_def b)
next
  case unknown
  then show ?thesis using assms(2) by simp
qed

definition dead_world :: "string \<Rightarrow> fd \<Rightarrow> world \<Rightarrow> bool" where
  "dead_world code l w \<longleftrightarrow> server_inv l w \<and> dead_room code (srv w)"

lemma handleEvent_room_mgr:
  "handleEvent l f c b res w = Inr w' \<Longrightarrow> room_mgr (srv w') = room_mgr (srv w)"
  by (auto simp: handleEvent_def Let_def split: if_splits sum.splits)

interpretation dw: transition_invariant "server_step pf l" "dead_world code l" for pf l code
proof
  fix w w'
  assume inv: "dead_world code l w" and step: "server_step pf l w w'"
  from step have "dead_room code (srv w')"
  proof (cases rule: server_step.cases)
    case (event f c b res)
    with inv handleEvent_room_mgr [OF event(3)] show ?thesis by (simp add: dead_world_def dead_room_def)
  next
    case (worker pl)
    with inv show ?thesis by (simp add: dead_world_def)
  next
    case (handler f p pl now)
    with inv show ?thesis by (simp add: dead_world_def server_inv_def world_ok_def dead_room_handle)
  qed
  moreover from sv.preserved [OF _ step] inv have "server_inv l w'" by (simp add: dead_world_def)
  ultimately show "dead_world code l w'" by (simp add: dead_world_def)
qed

lemma create_zero_body:
  assumes "json_parse (payload_str p) = Inr (JObject m)"
    and "map_of m ''roomName'' = Some (JString n)" and "map_of m ''maxUsers'' = Some v"
    and "is_number v" and "get_int (oor pf) v = Inr k"
  shows "create_body pf f p s = create_room pf f n k s"
  using assms
  by (simp add: create_body_def has_string_field string_field_object has_field_def contains_def
      json_at_def int_field_def)

text \<open>
  A create request with capacity 0 is granted: the client gets the code of a room with no members
  and capacity 0, and its own entry does not change.
\<close>

theorem create_zero_capacity:
  assumes "pkt_type p = CREATE_ROOM" and "json_parse (payload_str p) = Inr (JObject m)"
    and "map_of m ''roomName'' = Some (JString n)" and "map_of m ''maxUsers'' = Some v"
    and "is_number v" and "get_int (oor pf) v = Inr 0"
    and "addRoom (draw pf) n 0 (room_mgr s) = (code, rm)" and "code \<noteq> []"
    and "dump_fields (dtoa pf) [(''roomCode'', JString code)] = Inr ok_text"
    and "s' = packet_handle pf now f p s"
  shows "dead_room code s' \<and> client_mgr s' = client_mgr s
         \<and> sends s' = sends s @ [(f, clipped_packet ROOM_CREATE_OK ok_text)]"
proof -
  have s': "s' = handleCreateRoom pf f p s"
    using assms(1,10) by (simp add: packet_handle_def m_handlers_def room_handle_def)
  from addRoom_result [OF assms(7,8)] have room: "getRoom code rm = Some (new_room code n 0)" by blast
  obtain rm' where j: "joinRoom f code rm = (False, rm')" and rm': "getRoom code rm' = Some (new_room code n 0)"
    using getRoom_joinRoom_dead(1) [OF room, of f code] getRoom_joinRoom_dead(2) [OF room, of f]
    by (cases "joinRoom f code rm") (auto simp: new_room_def)
  show ?thesis
    using assms(7-9) room rm' j
    by (auto simp: s' handleCreateRoom_def create_zero_body [OF assms(2-6)] create_room_def respond_def
        dead_room_def new_room_def Let_def split: option.splits)
qed

definition demo_create_zero :: packet where
  "demo_create_zero = text_packet CREATE_ROOM ''{\"roomName\":\"n\",\"maxUsers\":0}''"

lemma demo_create_zero_parsed:
  "json_parse (payload_str demo_create_zero) = Inr (JObject [(''maxUsers'', JUnsigned 0), (''roomName'', JString ''n'')])"
  unfolding demo_create_zero_def by code_simp

lemma demo_create_zero_effect:
  "\<exists>rm. addRoom (draw demo_platform) ''n'' 0 (room_mgr demo_server) = (''abcdefgh'', rm)"
  "get_int (oor demo_platform) (JUnsigned 0) = Inr 0"
  "pkt_type demo_create_zero = CREATE_ROOM"
  using demo_addRoom [where k = 0] by (auto simp: get_int_def demo_create_zero_def) (metis prod.collapse)

theorem create_zero_capacity_witness:
  "dead_room ''abcdefgh'' (packet_handle demo_platform [] 7 demo_create_zero demo_server)"
proof -
  obtain rm where a: "addRoom (draw demo_platform) ''n'' 0 (room_mgr demo_server) = (''abcdefgh'', rm)"
    using demo_create_zero_effect by blast
  show ?thesis
    using create_zero_capacity [OF demo_create_zero_effect(3) demo_create_zero_parsed _ _ _
        demo_create_zero_effect(2) a _ demo_code_text refl, where f = 7]
    by simp
qed

text \<open>
  Such a room is never entered and never removed: whatever happens afterwards, it stays in the table
  with no members, and no join succeeds. One hundred of them leave room for no other.
\<close>

theorem dead_room_for_ever:
  assumes "server_inv l w" and "dead_room code (srv w)" and "reachable (server_step pf l) w w'"
  shows "dead_room code (srv w') \<and> (\<forall>f. \<not> fst (joinRoom f code (room_mgr (srv w'))))"
proof -
  from dw.invariant_reachable [OF assms(3)] assms(1,2) have "dead_room code (srv w')"
    by (simp add: dead_world_def)
  then show ?thesis by (auto simp: dead_room_def dest: getRoom_joinRoom_dead(2))
qed

definition demo_dead_world :: world where
  "demo_dead_world =
     (initial_world 1 3)\<lparr>srv := (srv (initial_world 1 3))\<lparr>room_mgr :=
        \<lparr>rooms = [(''z'', new_room ''z'' ''n'' 0)], rng_pos = 0\<rparr>\<rparr>\<rparr>"

lemma demo_dead_inv: "server_inv 3 demo_dead_world" "dead_room ''z'' (srv demo_dead_world)"
  using server_inv_initial [of 3 1]
  by (auto simp: demo_dead_world_def server_inv_def world_ok_def srv_ok_def rm_ok_def room_ok_new
      room_link_def sends_ok_def dead_room_def getRoom_def initial_world_def client_simps al_distinct_def
      new_room_def room_ok_def)

theorem dead_room_for_ever_witness:
  "\<not> fst (joinRoom 8 ''z'' (room_mgr (srv demo_dead_world)))"
  using dead_room_for_ever [OF demo_dead_inv start] by blast

section \<open>Nicknames that stay taken\<close>

text \<open>A nickname that is marked as taken although no client has it.\<close>

definition leaked :: "string \<Rightarrow> client_manager \<Rightarrow> bool" where
  "leaked n m \<longleftrightarrow>
     isNicknameTaken n m \<and> (\<forall>f c. getClient f m = Some c \<and> isAuthenticated c \<longrightarrow> nickname c \<noteq> n)"

lemma leaked_addClient: "leaked n m \<Longrightarrow> leaked n (addClient f a m)"
  by (auto simp: leaked_def isNicknameTaken_def client_simps new_client_def)

lemma leaked_removeClient: "leaked n m \<Longrightarrow> leaked n (removeClient f m)"
  by (auto simp: leaked_def taken_removeClient nick_of_client_def client_simps split: option.splits)

lemma leaked_set_buffer: "leaked n m \<Longrightarrow> leaked n (set_buffer f b m)"
  by (auto simp: leaked_def isNicknameTaken_def client_simps split: if_splits) blast

lemma leaked_set_room: "leaked n m \<Longrightarrow> leaked n (set_room f b m)"
  by (auto simp: leaked_def isNicknameTaken_def client_simps split: if_splits) blast

lemma leaked_setNickname: "leaked n m \<Longrightarrow> \<not> isNicknameTaken k m \<Longrightarrow> leaked n (setNickname f k m)"
  by (auto simp: leaked_def isNicknameTaken_def client_simps)

lemma leaked_handle:
  assumes "leaked n (client_mgr s)"
  shows "leaked n (client_mgr (packet_handle pf now f p s))"
proof (cases rule: packet_handle_cases [of p pf now f s])
  case nickname
  obtain r s' where b: "nickname_body f p s = (r, s')" by force
  then have "leaked n (client_mgr s')"
    by (cases rule: nickname_body_cases) (use assms in \<open>simp_all add: leaked_setNickname\<close>)
  then show ?thesis by (simp add: nickname nickname_handle_def b)
next
  case message
  then show ?thesis using assms by (cases rule: message_cases [of pf now f p s]) simp_all
next
  case create
  obtain r s' where b: "create_body pf f p s = (r, s')" by force
  then have "leaked n (client_mgr s')"
  proof (cases rule: create_body_cases)
    case refused
    then show ?thesis using assms by simp
  next
    case (accepted k x)
    then show ?thesis
      by (cases rule: create_room_cases) (use assms in \<open>simp_all add: leaked_set_room\<close>)
  qed
  then show ?thesis by (simp add: create handleCreateRoom_def b)
next
  case join
  obtain r s' where b: "join_body pf f p s = (r, s')" by force
  then have "leaked n (client_mgr s')"
  proof (cases rule: join_body_cases)
    case refused
    then show ?thesis using assms by simp
  next
    case (accepted code)
    then show ?thesis
      by (cases rule: join_room_cases) (use assms in \<open>auto simp: leaked_set_room\<close>)
  qed
  then show ?thesis by (simp add: join handleJoinRoom_def b)
next
  case exit
  obtain r s' where b: "exit_body pf f p s = (r, s')" by force
  then have "leaked n (client_mgr s')"
    by (cases rule: exit_body_cases) (use assms in \<open>simp_all add: leaked_set_room\<close>)
  then show ?thesis by (simp add: exit handleExitRoom_def b)
next
  case unknown
  then show ?thesis using assms by simp
qed

lemma leaked_event:
  assumes "leaked n (client_mgr (srv w))" and "handleEvent l f c b res w = Inr w'"
  shows "leaked n (client_mgr (srv w'))"
proof (cases "f = l")
  case True
  with assms show ?thesis
    by (auto simp: handleEvent_def acceptNewConnection_def on_clients_def leaked_addClient)
next
  case False
  then obtain success cm pl where r:
      "receiveAndParse f res submit (client_mgr (srv w)) (pool w) = Inr (success, cm, pl)"
    and w': "w' = (let w1 = w\<lparr>srv := (srv w)\<lparr>client_mgr := cm\<rparr>, pool := pl\<rparr>
                  in if success then w1 else closeConnection f w1)"
    using assms(2) by (auto simp: handleEvent_def Let_def split: sum.splits)
  from r have "leaked n cm"
    by (cases rule: receiveAndParse_cases) (use assms(1) in \<open>auto simp: leaked_set_buffer\<close>)
  then show ?thesis
    by (auto simp: w' Let_def closeConnection_def on_clients_def leaked_removeClient)
qed

interpretation lw: transition_invariant "server_step pf l" "\<lambda>w. leaked n (client_mgr (srv w))" for pf l n
proof
  fix w w'
  assume inv: "leaked n (client_mgr (srv w))" and step: "server_step pf l w w'"
  from step show "leaked n (client_mgr (srv w'))"
    by (cases rule: server_step.cases) (use inv in \<open>auto intro: leaked_event simp: leaked_handle\<close>)
qed

text \<open>
  Changing a nickname leaks the old one: after an authenticated client takes a second nickname, the
  first one is in nobody's use and yet taken, and it stays so in every later state of the server, even
  after that client has left.
\<close>

theorem renamed_nickname_leaks:
  assumes "cm_ok (client_mgr (srv w))" and "getClient f (client_mgr (srv w)) = Some c"
    and "isAuthenticated c" and "\<not> isNicknameTaken n (client_mgr (srv w))"
    and "reachable (server_step pf l)
           (w\<lparr>srv := (srv w)\<lparr>client_mgr := setNickname f n (client_mgr (srv w))\<rparr>\<rparr>) w'"
  shows "isNicknameTaken (nickname c) (client_mgr (srv w'))
         \<and> (\<forall>g d. getClient g (client_mgr (srv w')) = Some d \<and> isAuthenticated d \<longrightarrow> nickname d \<noteq> nickname c)"
proof -
  have t: "isNicknameTaken (nickname c) (client_mgr (srv w))"
    using assms(1-3) by (auto simp: cm_ok_def nicks_covered_def isNicknameTaken_def)
  have ne: "n \<noteq> nickname c" using t assms(4) by auto
  have u: "g = f" if "getClient g (client_mgr (srv w)) = Some d" "isAuthenticated d" "nickname d = nickname c" for g d
    using assms(1-3) that unfolding cm_ok_def nicks_unique_def by metis
  have leak: "leaked (nickname c) (setNickname f n (client_mgr (srv w)))"
    unfolding leaked_def using t ne u assms(2)
    by (auto simp: isNicknameTaken_def client_simps split: if_splits)
  have "leaked (nickname c) (client_mgr (srv w'))"
    by (rule lw.invariant_reachable [OF assms(5)]) (simp add: leak)
  then show ?thesis unfolding leaked_def .
qed

theorem renamed_nickname_leaks_witness:
  "isNicknameTaken ''al'' (setNickname 5 ''cy'' (client_mgr demo_server))"
proof -
  have w: "srv demo_world = demo_server" by (simp add: demo_world_def)
  have ok: "cm_ok (client_mgr (srv demo_world))" using demo_ok by (simp add: w srv_ok_def)
  have cl: "getClient 5 (client_mgr (srv demo_world)) = Some (demo_client 5 ''al'' ''r'')"
    by (simp add: w demo_client_of)
  have free: "\<not> isNicknameTaken ''cy'' (client_mgr (srv demo_world))" by (simp add: w demo_nicknames)
  from renamed_nickname_leaks [OF ok cl _ free start [where step = "server_step demo_platform 3"]]
  show ?thesis by (simp add: w demo_client_def)
qed

section \<open>Check and registration are two steps\<close>

text \<open>
  \<open>isNicknameTaken\<close> and \<open>setNickname\<close> lock the table separately. When two workers both make the check
  before either registers, two clients end up with the same nickname, and when one of them leaves, the
  nickname counts as free although the other still uses it.
\<close>

theorem nickname_check_race:
  assumes "getClient f m = Some c" and "getClient g m = Some d" and "f \<noteq> g"
    and "\<not> isNicknameTaken n m" and "m' = setNickname g n (setNickname f n m)"
  shows "map_option nickname (getClient f m') = Some n \<and> map_option nickname (getClient g m') = Some n
         \<and> \<not> nicks_unique m' \<and> \<not> isNicknameTaken n (removeClient g m')
         \<and> map_option nickname (getClient f (removeClient g m')) = Some n"
proof -
  have fg: "getClient f m' = Some (c\<lparr>nickname := n, isAuthenticated := True\<rparr>)"
    "getClient g m' = Some (d\<lparr>nickname := n, isAuthenticated := True\<rparr>)"
    using assms(1,2,3) by (simp_all add: assms(5) client_simps)
  have "\<not> nicks_unique m'"
    unfolding nicks_unique_def using fg assms(3) by fastforce
  with fg assms(3) show ?thesis
    by (simp add: taken_removeClient nick_of_client_def client_simps)
qed

theorem nickname_check_race_witness:
  "\<not> nicks_unique (setNickname 6 ''x'' (setNickname 5 ''x''
      (addClient 6 [] (addClient 5 [] empty_client_manager))))"
proof -
  let ?m = "addClient 6 [] (addClient 5 [] empty_client_manager)"
  have "getClient 5 ?m = Some (new_client 5 [])" "getClient 6 ?m = Some (new_client 6 [])"
    "\<not> isNicknameTaken ''x'' ?m"
    by (simp_all add: client_simps isNicknameTaken_def)
  from nickname_check_race [OF this(1,2) _ this(3) refl] show ?thesis by simp
qed

section \<open>Tasks that outlive their connection\<close>

text \<open>
  Closing a connection does not withdraw its queued packets. If the descriptor is reused before a
  worker gets to them, they act on the new connection: a nickname request of the old client authenticates
  the new one under that name.
\<close>

theorem stale_task_authenticates_stranger:
  assumes "(f, p) \<in> set (pending (pool w))" and "f > 0"
    and "pkt_type p = NICKNAME_REQUEST" and "json_parse (payload_str p) = Inr (JObject m)"
    and "map_of m ''nickname'' = Some (JString n)"
    and "w' = acceptNewConnection \<lparr>conn_fd = f, conn_ip = a\<rparr> True (closeConnection f w)"
    and "\<not> isNicknameTaken n (client_mgr (srv w'))"
  shows "(f, p) \<in> set (pending (pool w'))
         \<and> getClient f (client_mgr (packet_handle pf now f p (srv w'))) =
             Some ((new_client f a)\<lparr>nickname := n, isAuthenticated := True\<rparr>)"
proof -
  have c: "getClient f (client_mgr (srv w')) = Some (new_client f a)"
    using assms(2) by (simp add: assms(6) close_accept_client)
  have "packet_handle pf now f p (srv w') =
      sendPacket f (mk_packet NICKNAME_RESPONSE_OK 0 [])
        ((srv w')\<lparr>client_mgr := setNickname f n (client_mgr (srv w'))\<rparr>)"
    using assms(3,7)
    by (simp add: packet_handle_def m_handlers_def nickname_handle_def nickname_body_def assms(4)
        has_string_field [OF assms(5)] string_field_object [OF assms(5)] respond_def)
  with c assms(1,6) show ?thesis by (simp add: client_simps)
qed

theorem stale_task_authenticates_stranger_witness:
  "let w = demo_accepted\<lparr>pool := submit 5 demo_request (thread_pool 1)\<rparr>;
       w' = acceptNewConnection \<lparr>conn_fd = 5, conn_ip = ''10.9.9.9''\<rparr> True (closeConnection 5 w) in
   getClient 5 (client_mgr (packet_handle demo_platform [] 5 demo_request (srv w'))) =
     Some ((new_client 5 ''10.9.9.9'')\<lparr>nickname := ''a'', isAuthenticated := True\<rparr>)"
proof -
  let ?w = "demo_accepted\<lparr>pool := submit 5 demo_request (thread_pool 1)\<rparr>"
  let ?w' = "acceptNewConnection \<lparr>conn_fd = 5, conn_ip = ''10.9.9.9''\<rparr> True (closeConnection 5 ?w)"
  have q: "(5, demo_request) \<in> set (pending (pool ?w))"
    by (simp add: pending_def submit_def enqueue_def queue_push_def)
  have t: "pkt_type demo_request = NICKNAME_REQUEST" by (simp add: demo_request_def)
  have free: "\<not> isNicknameTaken ''a'' (client_mgr (srv ?w'))"
    by (simp add: close_accept_srv demo_accepted_srv isNicknameTaken_def client_simps removeClient_def)
  show ?thesis
    unfolding Let_def
    using stale_task_authenticates_stranger [OF q _ t demo_request_parsed _ refl free, of demo_platform "[]"]
    by simp
qed

end
