(* ===== verification/Races.thy ===== *)
theory Races
  imports Interleaving Fault_Properties
begin

text \<open>
  What the interleaving of \<open>Interleaving\<close> breaks. The server protects every table operation with a lock, but not the
  sequences of operations its handlers are made of: a pointer to a client is used after the client is gone, two
  clients get one nickname, and one client gets into two rooms.
\<close>

section \<open>Running a worker up to a point\<close>

lemma advance_locked [simp]:
  "advance (Suc n) (locked f k) h = advance n (k (fst (f (data h)))) (h\<lparr>data := snd (f (data h))\<rparr>)"
  by (simp add: locked_def)

lemma advance_get_client [simp]:
  "advance (Suc n) (get_client_ptr f k) h =
     advance n (k (if getClient f (client_mgr (data h)) = None then None else Some (f, client_erasures h f))) h"
  by (simp add: get_client_ptr_def)

lemma advance_read_client [simp]:
  "client_at p h = Some c \<Longrightarrow> advance (Suc n) (read_client p k) h = advance n (k c) h"
  by (simp add: read_client_def)

lemma advance_write_room [simp]:
  "client_at p h \<noteq> None \<Longrightarrow> advance (Suc n) (write_room p code k) h =
     advance n k (h\<lparr>data := (data h)\<lparr>client_mgr := set_room (fst p) code (client_mgr (data h))\<rparr>\<rparr>)"
  by (auto simp: write_room_def)

lemma advance_answer [simp]:
  "advance (Suc n) (answer_step f t prefix (Inr p)) h = advance n Return (h\<lparr>data := sendPacket f p (data h)\<rparr>)"
  by (simp add: answer_step_def send_step_def)

lemma worker_runs:
  assumes "\<not> faulted w" and "i < length (m_workers (pool (whole w)))"
    and "m_workers (pool (whole w)) ! i = Running (f, p)" and "progs w i = None"
    and "advance n (handle_steps pf now f p) (shared_of w) = Inr (p', h)"
  shows "reachable (fine_step pf l) w (put_shared h (w\<lparr>progs := (progs w)(i \<mapsto> p')\<rparr>))"
proof -
  let ?w = "w\<lparr>progs := (progs w)(i \<mapsto> handle_steps pf now f p)\<rparr>"
  have "reachable (fine_step pf l) ?w (put_shared h (?w\<lparr>progs := (progs ?w)(i \<mapsto> p')\<rparr>))"
    using assms(1,5) by (intro advance_reachable) auto
  then have "reachable (fine_step pf l) ?w (put_shared h (w\<lparr>progs := (progs w)(i \<mapsto> p')\<rparr>))"
    by (simp del: fun_upd_apply)
  with starts [OF assms(1-4)] show ?thesis by (rule reachable_step)
qed

lemma worker_continues:
  assumes "\<not> faulted w" and "progs w i = Some p" and "advance n p (shared_of w) = Inr (p', h)"
    and "reachable (fine_step pf l) v w"
  shows "reachable (fine_step pf l) v (put_shared h (w\<lparr>progs := (progs w)(i \<mapsto> p')\<rparr>))"
  using advance_reachable [OF assms(1-3)] assms(4) by (rule reachable_trans)

section \<open>A pointer to a client that is gone\<close>

lemma close_event:
  assumes "f \<noteq> l"
  shows "handleEvent l f conn addFd_ok (Recv []) w = Inr (closeConnection f w)"
  using assms by (simp add: handleEvent_def receiveAndParse_def receive_def split: option.split)

lemma fault_read:
  "\<not> faulted w \<Longrightarrow> progs w i = Some (read_client p k) \<Longrightarrow> client_at p (shared_of w) = None \<Longrightarrow>
   fine_step pf l w (w\<lparr>faulted := True\<rparr>)"
  unfolding read_client_def by (erule (1) fault) simp

lemma read_after_close:
  assumes "\<not> faulted w" and "progs w i = Some (read_client (f, client_gen w f) k)"
    and "getClient f (client_mgr (srv (whole w))) \<noteq> None" and "f \<in> epoll_fds (whole w)" and "f \<noteq> l"
  shows "\<exists>w'. reachable (fine_step pf l) w w' \<and> faulted w'"
proof -
  let ?v = "closeConnection f (whole w)"
  let ?w = "w\<lparr>whole := ?v, client_gen := count_erased (whole w) ?v (client_gen w)\<rparr>"
  have 1: "fine_step pf l w ?w"
    using assms close_event [of f l "\<lparr>conn_fd = - 1, conn_ip = []\<rparr>" True "whole w"]
    by (intro io_event [where conn = "\<lparr>conn_fd = - 1, conn_ip = []\<rparr>"]) auto
  have "client_at (f, client_gen w f) (shared_of ?w) = None"
    using assms(3) by (simp add: client_at_def count_erased_def closeConnection_def on_clients_def client_simps Let_def)
  then have 2: "fine_step pf l ?w (?w\<lparr>faulted := True\<rparr>)"
    using assms(1,2) by (intro fault_read [where i = i]) auto
  from next_state [where step = "fine_step pf l", OF next_state [where step = "fine_step pf l", OF start 1] 2] show ?thesis
    by (intro exI [of _ "?w\<lparr>faulted := True\<rparr>"]) simp
qed

text \<open>
  C26. \<open>ClientManager::getClient\<close> returns a pointer into its table and gives the lock back. When a worker handles a chat
  message while its sender disconnects, the event loop can erase the client between \<open>getClient\<close> and the test
  of \<open>client->isAuthenticated\<close>: the worker then reads freed memory.
\<close>

theorem message_use_after_free:
  assumes "at_rest w" and "i < length (m_workers (pool (whole w)))"
    and "m_workers (pool (whole w)) ! i = Running (f, p)" and "pkt_type p = MESSAGE_SEND"
    and "getClient f (client_mgr (srv (whole w))) = Some c" and "f \<in> epoll_fds (whole w)" and "f \<noteq> l"
  shows "\<exists>w'. reachable (fine_step pf l) w w' \<and> faulted w'"
proof -
  from assms(1) have rest: "\<not> faulted w" "progs w i = None" by (simp_all add: at_rest_def)
  obtain k where a: "advance 1 (handle_steps pf [] f p) (shared_of w) =
      Inr (read_client (f, client_gen w f) k, shared_of w)"
    using assms(4,5) by (auto simp: handle_steps_def message_steps_def)
  let ?w = "put_shared (shared_of w) (w\<lparr>progs := (progs w)(i \<mapsto> read_client (f, client_gen w f) k)\<rparr>)"
  have "reachable (fine_step pf l) w ?w"
    by (rule worker_runs [OF rest(1) assms(2,3) rest(2) a])
  moreover have "\<exists>w'. reachable (fine_step pf l) ?w w' \<and> faulted w'"
    using rest(1) assms(5-7) by (intro read_after_close [where i = i and k = k]) auto
  ultimately show ?thesis by (blast intro: reachable_trans)
qed

section \<open>A pointer to a room that is gone\<close>

lemma advance_get_room [simp]:
  "advance (Suc n) (get_room_ptr code k) h =
     advance n (k (if getRoom code (room_mgr (data h)) = None then None else Some (code, room_erasures h code))) h"
  by (simp add: get_room_ptr_def)

text \<open>A worker that has looked up the room of a chat message and is about to read its members.\<close>

lemma chat_room_found:
  assumes "pkt_type p = MESSAGE_SEND" and "getClient f (client_mgr (data h)) = Some c" and "isAuthenticated c"
    and "ci_roomCode c \<noteq> []" and "json_parse (payload_str p) = Inr j" and "json_at j ''message'' = Inr msg"
    and "dump_fields (dtoa pf) (chat_fields f c msg now) = Inr txt" and "length txt \<le> MAX_PAYLOAD_SIZE"
    and "getRoom (ci_roomCode c) (room_mgr (data h)) \<noteq> None"
  shows "\<exists>k. advance 8 (handle_steps pf now f p) h =
     Inr (read_room (ci_roomCode c, room_erasures h (ci_roomCode c)) k, h)"
proof -
  have c: "client_at (f, client_erasures h f) h = Some c" using assms(2) by simp
  have same: "c\<lparr>ip := ip c\<rparr> = c" by simp
  show ?thesis
    using assms c by (auto simp: handle_steps_def message_steps_def broadcast_steps_def same eval_nat_numeral)
qed

text \<open>
  \<open>RoomManager::getRoom\<close> has the same fault: when a member sends a chat message and another worker handles the request
  with which the last member leaves, the room can be erased between \<open>getRoom\<close> and the loop over its members in
  \<open>broadcastPacketForRoom\<close>.
\<close>

theorem room_use_after_free:
  assumes "at_rest w" and "i < length (m_workers (pool (whole w)))" and "j < length (m_workers (pool (whole w)))"
    and "m_workers (pool (whole w)) ! i = Running (f, p)" and "m_workers (pool (whole w)) ! j = Running (g, e)"
    and "i \<noteq> j" and "pkt_type p = MESSAGE_SEND" and "getClient f (client_mgr (srv (whole w))) = Some c"
    and "isAuthenticated c" and "ci_roomCode c \<noteq> []" and "json_parse (payload_str p) = Inr js"
    and "json_at js ''message'' = Inr msg" and "dump_fields (dtoa pf) (chat_fields f c msg []) = Inr txt"
    and "length txt \<le> MAX_PAYLOAD_SIZE" and "getRoom (ci_roomCode c) (room_mgr (srv (whole w))) \<noteq> None"
    and "getRoom (ci_roomCode c) (room_mgr (packet_handle pf [] g e (srv (whole w)))) = None"
  shows "\<exists>w'. reachable (fine_step pf l) w w' \<and> faulted w'"
proof -
  let ?h = "shared_of w" and ?rp = "(ci_roomCode c, room_gen w (ci_roomCode c))"
  from assms(1) have rest: "\<not> faulted w" "progs w = (\<lambda>_. None)" by (simp_all add: at_rest_def)
  from chat_room_found [of p f ?h c js msg pf "[]" "txt"] assms(7-15) obtain k where
    k: "advance 8 (handle_steps pf [] f p) ?h = Inr (read_room ?rp k, ?h)" by auto
  let ?w1 = "put_shared ?h (w\<lparr>progs := (progs w)(i \<mapsto> read_room ?rp k)\<rparr>)"
  have r1: "reachable (fine_step pf l) w ?w1"
    by (rule worker_runs [OF rest(1) assms(2,4) _ k]) (simp add: rest)
  from handle_steps_run [of pf "[]" g e ?h] obtain h2 where
    "run_steps (handle_steps pf [] g e) ?h = Inr h2" and d: "data h2 = packet_handle pf [] g e (srv (whole w))" by auto
  from run_advances [OF this(1)] obtain n where b: "advance n (handle_steps pf [] g e) ?h = Inr (Return, h2)" ..
  let ?w2 = "put_shared h2 (?w1\<lparr>progs := (progs ?w1)(j \<mapsto> Return)\<rparr>)"
  have "reachable (fine_step pf l) ?w1 ?w2"
    using assms(3,5,6) rest b by (intro worker_runs [where p = e and f = g and n = n]) auto
  with r1 have r2: "reachable (fine_step pf l) w ?w2" by (rule reachable_trans [rotated])
  have "room_at ?rp h2 = None" using assms(16) d by (simp add: room_at_def)
  then have "fine_step pf l ?w2 (?w2\<lparr>faulted := True\<rparr>)"
    using rest assms(6)
    by (intro fault [where i = i and x = Use_After_Free and k = "\<lambda>h. case room_at ?rp h of None \<Rightarrow> Return | Some r \<Rightarrow> k r"
          and e = "\<lambda>h. if room_at ?rp h = None then Inl Use_After_Free else Inr h"])
      (auto simp: read_room_def)
  from next_state [where step = "fine_step pf l", OF r2 this] show ?thesis
    by (intro exI [of _ "?w2\<lparr>faulted := True\<rparr>"]) simp
qed

section \<open>One nickname for two clients\<close>

lemma nickname_program:
  assumes "pkt_type p = NICKNAME_REQUEST" and "json_parse (payload_str p) = Inr (JObject m)"
    and "map_of m ''nickname'' = Some (JString x)"
  shows "handle_steps pf now f p =
     locked (\<lambda>s. (isNicknameTaken x (client_mgr s), s)) (\<lambda>taken.
       let answer = answer_step f NICKNAME_RESPONSE_FAIL ''JSON parse error: '' in
       if taken then answer (Inr (text_packet NICKNAME_RESPONSE_FAIL ''Duplicated nickname.''))
       else locked (\<lambda>s. ((), s\<lparr>client_mgr := setNickname f x (client_mgr s)\<rparr>)) (\<lambda>_.
              answer (Inr (mk_packet NICKNAME_RESPONSE_OK 0 []))))"
  using assms by (simp add: handle_steps_def nickname_steps_def Let_def has_string_field string_field_object)

definition nickname_of :: "fd \<Rightarrow> fine_world \<Rightarrow> string option" where
  "nickname_of f w = map_option nickname (getClient f (client_mgr (srv (whole w))))"

text \<open>
  C27. \<open>NicknameHandler::handle\<close> tests a nickname and registers it in two critical sections. When two workers handle
  requests of two clients for the same free nickname, the second can make its whole request between the two: both
  clients are told that the nickname is theirs.
\<close>

theorem nickname_race:
  assumes "at_rest w" and "i < length (m_workers (pool (whole w)))" and "j < length (m_workers (pool (whole w)))"
    and "m_workers (pool (whole w)) ! i = Running (f, p)" and "m_workers (pool (whole w)) ! j = Running (g, q)"
    and "f \<noteq> g" and "pkt_type p = NICKNAME_REQUEST" and "pkt_type q = NICKNAME_REQUEST"
    and "json_parse (payload_str p) = Inr (JObject m)" and "map_of m ''nickname'' = Some (JString x)"
    and "json_parse (payload_str q) = Inr (JObject m')" and "map_of m' ''nickname'' = Some (JString x)"
    and "getClient f (client_mgr (srv (whole w))) = Some c" and "getClient g (client_mgr (srv (whole w))) = Some d"
    and "\<not> isNicknameTaken x (client_mgr (srv (whole w)))"
  shows "\<exists>w'. reachable (fine_step pf l) w w' \<and> \<not> faulted w' \<and> nickname_of f w' = Some x \<and> nickname_of g w' = Some x
         \<and> sends (srv (whole w')) = sends (srv (whole w)) @
             [(g, mk_packet NICKNAME_RESPONSE_OK 0 []), (f, mk_packet NICKNAME_RESPONSE_OK 0 [])]"
proof -
  let ?h = "shared_of w" and ?ok = "mk_packet NICKNAME_RESPONSE_OK 0 []"
  from assms(1) have rest: "\<not> faulted w" "progs w = (\<lambda>_. None)" by (simp_all add: at_rest_def)
  from assms(4-6) have ij: "i \<noteq> j" by auto
  define pi where "pi = locked (\<lambda>s. ((), s\<lparr>client_mgr := setNickname f x (client_mgr s)\<rparr>)) (\<lambda>_.
              answer_step f NICKNAME_RESPONSE_FAIL ''JSON parse error: '' (Inr ?ok))"
  have a: "advance 1 (handle_steps pf [] f p) ?h = Inr (pi, ?h)"
    using assms(15) by (simp add: nickname_program [OF assms(7,9,10)] pi_def shared_of_def)
  let ?w1 = "put_shared ?h (w\<lparr>progs := (progs w)(i \<mapsto> pi)\<rparr>)"
  have r1: "reachable (fine_step pf l) w ?w1"
    by (rule worker_runs [OF rest(1) assms(2,4) _ a]) (simp add: rest)
  let ?h2 = "?h\<lparr>data := sendPacket g ?ok ((data ?h)\<lparr>client_mgr := setNickname g x (client_mgr (data ?h))\<rparr>)\<rparr>"
  have b: "advance 3 (handle_steps pf [] g q) (shared_of ?w1) = Inr (Return, ?h2)"
    using assms(15) by (simp add: nickname_program [OF assms(8,11,12)] numeral_3_eq_3)
  let ?w2 = "put_shared ?h2 (?w1\<lparr>progs := (progs ?w1)(j \<mapsto> Return)\<rparr>)"
  have "reachable (fine_step pf l) ?w1 ?w2"
    using ij rest assms(3,5) by (intro worker_runs [OF _ _ _ _ b]) auto
  with r1 have r2: "reachable (fine_step pf l) w ?w2" by (blast intro: reachable_trans)
  let ?h3 = "?h2\<lparr>data := sendPacket f ?ok ((data ?h2)\<lparr>client_mgr := setNickname f x (client_mgr (data ?h2))\<rparr>)\<rparr>"
  have c: "advance 2 pi (shared_of ?w2) = Inr (Return, ?h3)"
    by (simp add: pi_def numeral_2_eq_2)
  let ?w3 = "put_shared ?h3 (?w2\<lparr>progs := (progs ?w2)(i \<mapsto> Return)\<rparr>)"
  have "reachable (fine_step pf l) w ?w3"
    using ij rest by (intro worker_continues [OF _ _ c r2]) auto
  moreover have "nickname_of f ?w3 = Some x" "nickname_of g ?w3 = Some x"
    using assms(6,13,14) by (simp_all add: nickname_of_def client_simps)
  ultimately show ?thesis using rest(1) by (intro exI [of _ ?w3]) (simp add: sendPacket_def)
qed

section \<open>One client in two rooms\<close>

lemma join_program:
  assumes "pkt_type p = JOIN_ROOM" and "json_parse (payload_str p) = Inr (JObject m)"
    and "map_of m ''roomCode'' = Some (JString code)"
  shows "handle_steps pf now f p = join_room_steps pf f code (answer_step f ROOM_JOIN_FAIL ''JSON parse error: '')"
  using assms by (simp add: handle_steps_def join_steps_def Let_def has_string_field string_field_object)

text \<open>A worker that has found its client in no room and is about to call \<open>joinRoom\<close>, and its next two steps.\<close>

definition about_to_join :: "platform \<Rightarrow> fd \<Rightarrow> string \<Rightarrow> nat \<Rightarrow> (json_error + packet \<Rightarrow> steps) \<Rightarrow> steps" where
  "about_to_join pf f code gen answer =
     locked (\<lambda>s. case joinRoom f code (room_mgr s) of (success, rm) \<Rightarrow> (success, s\<lparr>room_mgr := rm\<rparr>)) (\<lambda>success.
       if \<not> success
       then answer (Inr (text_packet ROOM_JOIN_FAIL ''Failed to join room. Room not found or full.''))
       else
         write_room (f, gen) code
           (case dump_fields (dtoa pf) [(''roomCode'', JString code)] of
              Inl e \<Rightarrow> answer (Inl e)
            | Inr str \<Rightarrow>
                read_shown_name (f, gen) (\<lambda>name.
                  (case dump_fields (dtoa pf) (shown_fields f name) of
                     Inl e \<Rightarrow> answer (Inl e)
                   | Inr bstr \<Rightarrow>
                       broadcast_steps (clipped_packet ROOM_USER_JOIN bstr) code f
                         (answer (Inr (clipped_packet ROOM_JOIN_OK str)))))))"

lemma join_check:
  assumes "getClient f (client_mgr (data h)) = Some c" and "ci_roomCode c = []"
  shows "advance 2 (join_room_steps pf f code answer) h = Inr (about_to_join pf f code (client_erasures h f) answer, h)"
  using assms by (simp add: join_room_steps_def about_to_join_def numeral_2_eq_2 client_at_def)

lemma join_enter:
  assumes "joinRoom f code (room_mgr (data h)) = (True, rm)" and "getClient f (client_mgr (data h)) \<noteq> None"
    and "client_erasures h f = gen"
  shows "\<exists>p'. advance 2 (about_to_join pf f code gen answer) h =
     Inr (p', h\<lparr>data := (data h)\<lparr>room_mgr := rm, client_mgr := set_room f code (client_mgr (data h))\<rparr>\<rparr>)"
  using assms by (simp add: about_to_join_def numeral_2_eq_2 client_at_def)

text \<open>
  C28. \<open>RoomHandler::handleJoinRoom\<close> reads the room code of its client, joins and writes the code in separate steps. When
  two join requests of one client are handled by two workers, both can read the code while it is still empty:
  the client becomes a member of both rooms and receives the chat of both, while its own entry names one.
\<close>

theorem join_race_two_rooms:
  assumes "at_rest w" and "i < length (m_workers (pool (whole w)))" and "j < length (m_workers (pool (whole w)))"
    and "m_workers (pool (whole w)) ! i = Running (f, p)" and "m_workers (pool (whole w)) ! j = Running (f, q)"
    and "i \<noteq> j" and "pkt_type p = JOIN_ROOM" and "pkt_type q = JOIN_ROOM"
    and "json_parse (payload_str p) = Inr (JObject m)" and "map_of m ''roomCode'' = Some (JString a)"
    and "json_parse (payload_str q) = Inr (JObject m')" and "map_of m' ''roomCode'' = Some (JString b)"
    and "getClient f (client_mgr (srv (whole w))) = Some c" and "ci_roomCode c = []"
    and "joinRoom f a (room_mgr (srv (whole w))) = (True, rm)" and "joinRoom f b rm = (True, rm')"
  shows "\<exists>w'. reachable (fine_step pf l) w w' \<and> \<not> faulted w' \<and>
           f \<in> set (room_members (srv (whole w')) a) \<and> f \<in> set (room_members (srv (whole w')) b) \<and> a \<noteq> b \<and>
           map_option ci_roomCode (getClient f (client_mgr (srv (whole w')))) = Some b"
proof -
  let ?h = "shared_of w" and ?ans = "answer_step f ROOM_JOIN_FAIL ''JSON parse error: ''"
  let ?join = "\<lambda>code. about_to_join pf f code (client_gen w f) ?ans"
  from assms(1) have rest: "\<not> faulted w" "progs w = (\<lambda>_. None)" by (simp_all add: at_rest_def)
  have c: "getClient f (client_mgr (data ?h)) = Some c" using assms(13) by simp
  let ?w1 = "put_shared ?h (w\<lparr>progs := (progs w)(i \<mapsto> ?join a)\<rparr>)"
  have r1: "reachable (fine_step pf l) w ?w1"
    using join_check [OF c assms(14), of pf a ?ans] rest(2)
    by (intro worker_runs [OF rest(1) assms(2,4)]) (simp_all add: join_program [OF assms(7,9,10)])
  let ?w2 = "put_shared ?h (?w1\<lparr>progs := (progs ?w1)(j \<mapsto> ?join b)\<rparr>)"
  have "reachable (fine_step pf l) ?w1 ?w2"
    using join_check [OF c assms(14), of pf b ?ans] rest assms(3,5,6)
    by (intro worker_runs [where p = q and f = f]) (auto simp: join_program [OF assms(8,11,12)])
  with r1 have r2: "reachable (fine_step pf l) w ?w2" by (blast intro: reachable_trans)
  let ?h3 = "?h\<lparr>data := (data ?h)\<lparr>room_mgr := rm, client_mgr := set_room f a (client_mgr (data ?h))\<rparr>\<rparr>"
  obtain pa where pa: "advance 2 (?join a) ?h = Inr (pa, ?h3)"
    using join_enter [of f a ?h rm "client_gen w f" pf ?ans] assms(13,15) by auto
  let ?w3 = "put_shared ?h3 (?w2\<lparr>progs := (progs ?w2)(i \<mapsto> pa)\<rparr>)"
  have r3: "reachable (fine_step pf l) w ?w3"
    using rest assms(6) pa by (intro worker_continues [OF _ _ _ r2, where p = "?join a"]) auto
  let ?h4 = "?h3\<lparr>data := (data ?h3)\<lparr>room_mgr := rm', client_mgr := set_room f b (client_mgr (data ?h3))\<rparr>\<rparr>"
  obtain pb where pb: "advance 2 (?join b) ?h3 = Inr (pb, ?h4)"
    using join_enter [of f b ?h3 rm' "client_gen w f" pf ?ans] assms(13,16) by (auto simp: client_simps)
  let ?w4 = "put_shared ?h4 (?w3\<lparr>progs := (progs ?w3)(j \<mapsto> pb)\<rparr>)"
  have "reachable (fine_step pf l) w ?w4"
    using rest assms(6) pb by (intro worker_continues [OF _ _ _ r3, where p = "?join b"]) auto
  moreover obtain xs ys where "members rm a = Some xs" "f \<in> set xs" "members rm b = Some ys" "f \<notin> set ys"
      "members rm' = (members rm)(b \<mapsto> ys @ [f])"
    using rr.join_member [OF assms(15)] joinRoom_True [OF assms(16)] by auto
  moreover from this have "a \<noteq> b" by auto
  ultimately show ?thesis using rest(1) assms(13)
    by (intro exI [of _ ?w4]) (auto simp: room_members_def client_simps)
qed

section \<open>Witnesses\<close>

text \<open>Two workers with the tasks \<open>s\<close> and \<open>t\<close>, in the demonstration state with a second room.\<close>

definition two_rooms :: room_manager where
  "two_rooms =
     \<lparr>rooms = [(''r'', \<lparr>roomCode = ''r'', roomName = ''n'', maxUserCnt = 3, clients = [5, 6]\<rparr>),
               (''s'', \<lparr>roomCode = ''s'', roomName = ''m'', maxUserCnt = 4, clients = [8, 9]\<rparr>)],
      rng_pos = 0\<rparr>"

definition racing :: "task \<Rightarrow> task \<Rightarrow> fine_world" where
  "racing s t =
     resting (demo_world\<lparr>srv := demo_server\<lparr>room_mgr := two_rooms\<rparr>,
       pool := \<lparr>m_task_queue = [], m_workers = [Running s, Running t], m_stop = False\<rparr>\<rparr>)"

lemma racing_rest: "at_rest (racing s t)"
  by (simp add: racing_def resting_def at_rest_def)

lemma racing_fields [simp]:
  "m_workers (pool (whole (racing s t))) = [Running s, Running t]"
  "client_mgr (srv (whole (racing s t))) = client_mgr demo_server"
  "room_mgr (srv (whole (racing s t))) = two_rooms"
  "sends (srv (whole (racing s t))) = []"
  "epoll_fds (whole (racing s t)) = {3, 5, 6, 7}"
  by (simp_all add: racing_def resting_def demo_world_def demo_server_def)

definition other_join :: packet where
  "other_join = text_packet JOIN_ROOM ''{\"roomCode\":\"s\"}''"

lemma other_join_parsed: "json_parse (payload_str other_join) = Inr (JObject [(''roomCode'', JString ''s'')])"
  unfolding other_join_def by code_simp

theorem message_use_after_free_witness:
  "\<exists>w'. reachable (fine_step demo_platform 3) (racing (5, demo_chat) (7, demo_request)) w' \<and> faulted w'"
  by (rule message_use_after_free [OF racing_rest, where i = 0 and f = 5 and p = demo_chat])
    (simp_all add: demo_client_of demo_chat_def)

theorem nickname_race_witness:
  "\<exists>w'. reachable (fine_step demo_platform 3) (racing (5, demo_request) (7, demo_request)) w'
      \<and> nickname_of 5 w' = Some ''a'' \<and> nickname_of 7 w' = Some ''a''"
proof -
  let ?w = "racing (5, demo_request) (7, demo_request)"
  have t: "pkt_type demo_request = NICKNAME_REQUEST" by (simp add: demo_request_def)
  have "\<exists>w'. reachable (fine_step demo_platform 3) ?w w' \<and> \<not> faulted w' \<and>
      nickname_of 5 w' = Some ''a'' \<and> nickname_of 7 w' = Some ''a'' \<and>
      sends (srv (whole w')) = sends (srv (whole ?w)) @
        [(7, mk_packet NICKNAME_RESPONSE_OK 0 []), (5, mk_packet NICKNAME_RESPONSE_OK 0 [])]"
    by (rule nickname_race [OF racing_rest _ _ _ _ _ t t demo_request_parsed _ demo_request_parsed,
          where i = 0 and j = 1])
      (simp_all add: demo_client_of demo_nicknames)
  then show ?thesis by auto
qed

theorem join_race_two_rooms_witness:
  "\<exists>w'. reachable (fine_step demo_platform 3) (racing (7, demo_join) (7, other_join)) w'
      \<and> 7 \<in> set (room_members (srv (whole w')) ''r'') \<and> 7 \<in> set (room_members (srv (whole w')) ''s'')"
proof -
  let ?w = "racing (7, demo_join) (7, other_join)"
  obtain rm where r: "joinRoom 7 ''r'' two_rooms = (True, rm)" and "joinRoom 7 ''s'' rm = (True, snd (joinRoom 7 ''s'' rm))"
    by (simp add: joinRoom_def two_rooms_def acceptNewUser_def capacity_def)
  from join_race_two_rooms [OF racing_rest [of "(7, demo_join)" "(7, other_join)"] _ _ _ _ _ _ _ demo_join_parsed _ other_join_parsed _ _ _ _ this(2),
      where i = 0 and j = 1 and a = "''r''" and c = "demo_client 7 [] []" and pf = demo_platform and l = 3] r
  show ?thesis by (auto simp: demo_client_of demo_client_def demo_join_def other_join_def)
qed

end
