(* ===== verification/Interference.thy ===== *)
theory Interference
  imports Interleaving Request_Properties
begin

text \<open>
  What a handler sends when the other threads do anything between two of its steps. A run amid interference makes each
  step in a state of its own; only a condition every state satisfies is known. What holds of all these runs
  holds of every worker of \<open>Interleaving\<close> (\<open>worker_run_amid\<close>), where the states between are those the other threads
  leave.
\<close>

section \<open>Runs amid interference\<close>

inductive runs_amid :: "(shared \<Rightarrow> bool) \<Rightarrow> steps \<Rightarrow> (fd \<times> packet) list \<Rightarrow> bool" for I where
  amid_done: "runs_amid I Return []"
| amid_step:
    "I h \<Longrightarrow> e h = Inr h' \<Longrightarrow> sends (data h') = sends (data h) @ out \<Longrightarrow> runs_amid I (k h) outs \<Longrightarrow>
     runs_amid I (Step e k) (out @ outs)"

inductive_cases amid_ReturnE: "runs_amid I Return outs"
inductive_cases amid_StepE: "runs_amid I (Step e k) outs"

lemma amid_locked:
  assumes "runs_amid I (locked f k) outs" and "\<And>s. sends (snd (f s)) = sends s"
  obtains s where "runs_amid I (k (fst (f s))) outs"
  using assms(1) unfolding locked_def
  by (rule amid_StepE) (use assms(2) that in auto)

lemma amid_get_client:
  assumes "runs_amid I (get_client_ptr f k) outs"
  obtains r where "runs_amid I (k r) outs" "r \<noteq> None \<longrightarrow> (\<exists>n. r = Some (f, n))"
  using assms unfolding get_client_ptr_def
  by (rule amid_StepE) (use that in \<open>auto split: if_splits\<close>)

lemma amid_read_client:
  assumes "runs_amid I (read_client p k) outs"
  obtains h c where "I h" "getClient (fst p) (client_mgr (data h)) = Some c" "runs_amid I (k c) outs"
  using assms unfolding read_client_def
  by (rule amid_StepE) (use that in \<open>auto simp: client_at_def split: if_splits\<close>)

lemma amid_write_room:
  assumes "runs_amid I (write_room p code k) outs"
  shows "runs_amid I k outs"
  using assms unfolding write_room_def by (rule amid_StepE) (auto split: if_splits)

lemma amid_leave:
  assumes "runs_amid I (leave_step f code k) outs"
  shows "runs_amid I k outs"
  using assms unfolding leave_step_def by (rule amid_StepE) auto

lemma amid_send:
  assumes "runs_amid I (send_step f p k) outs"
  obtains outs' where "outs = (f, p) # outs'" "runs_amid I k outs'"
  using assms unfolding send_step_def locked_def
  by (rule amid_StepE) (use that in \<open>auto simp: sendPacket_def\<close>)

lemma amid_send_each:
  "runs_amid I (send_each fs p k) outs \<Longrightarrow> \<exists>outs'. outs = map (\<lambda>f. (f, p)) fs @ outs' \<and> runs_amid I k outs'"
  by (induction fs arbitrary: outs) (auto elim!: amid_send)

lemma amid_shown_name:
  assumes "runs_amid I (read_shown_name p k) outs"
  obtains n where "runs_amid I (k n) outs"
  using assms unfolding read_shown_name_def by (auto elim!: amid_read_client split: if_splits)

lemma amid_answer:
  assumes "runs_amid I (answer_step f t prefix r) outs"
  shows "outs = [(f, case r of Inr p \<Rightarrow> p | Inl e \<Rightarrow> error_packet t prefix e)]"
  using assms unfolding answer_step_def
  by (auto elim!: amid_send amid_ReturnE)

text \<open>The members a broadcast goes to are those of one room at one moment, without the excluded one.\<close>

definition room_at_once :: "(shared \<Rightarrow> bool) \<Rightarrow> string \<Rightarrow> fd list \<Rightarrow> bool" where
  "room_at_once I code fs \<longleftrightarrow>
     fs = [] \<or> (\<exists>h r. I h \<and> getRoom code (room_mgr (data h)) = Some r \<and> fs = clients r)"

lemma amid_broadcast:
  assumes "runs_amid I (broadcast_steps p code e k) outs"
  obtains fs outs' where "outs = map (\<lambda>f. (f, p)) (filter (\<lambda>f. f \<noteq> e) fs) @ outs'" "room_at_once I code fs"
    "runs_amid I k outs'"
proof -
  from assms obtain h where "I h" and r: "runs_amid I (case (if getRoom code (room_mgr (data h)) = None then None
      else Some (code, room_erasures h code)) of None \<Rightarrow> k
      | Some rp \<Rightarrow> read_room rp (\<lambda>room. send_each (filter (\<lambda>f. f \<noteq> e) (clients room)) p k)) outs"
    unfolding broadcast_steps_def get_room_ptr_def by (auto elim!: amid_StepE)
  show thesis
  proof (cases "getRoom code (room_mgr (data h)) = None")
    case True
    with r that [of "[]" outs] show thesis by (simp add: room_at_once_def)
  next
    case False
    let ?p = "(code, room_erasures h code)"
    from r False have "runs_amid I (read_room ?p (\<lambda>room. send_each (filter (\<lambda>f. f \<noteq> e) (clients room)) p k)) outs"
      by simp
    then obtain h1 room where "I h1" and at: "room_at ?p h1 = Some room"
      and "runs_amid I (send_each (filter (\<lambda>f. f \<noteq> e) (clients room)) p k) outs"
      unfolding read_room_def by (auto elim!: amid_StepE split: if_splits)
    moreover from at have "getRoom code (room_mgr (data h1)) = Some room"
      by (simp add: room_at_def split: if_splits)
    ultimately show thesis using amid_send_each that by (metis room_at_once_def)
  qed
qed

section \<open>One answer to each request\<close>

text \<open>What others are told, and then one answer to the client itself; and the handlers whose every run sends this.\<close>

definition answered :: "fd \<Rightarrow> packet_type list \<Rightarrow> (fd \<times> packet) list \<Rightarrow> bool" where
  "answered f ts outs \<longleftrightarrow>
     (\<exists>others q. outs = others @ [(f, q)] \<and> (\<forall>(g, x) \<in> set others. g \<noteq> f) \<and> pkt_type q \<in> set ts)"

primrec answers :: "fd \<Rightarrow> packet_type list \<Rightarrow> steps \<Rightarrow> bool" where
  "answers f ts Return = False"
| "answers f ts (Step e k) =
     (\<forall>h h'. e h = Inr h' \<longrightarrow>
        (\<exists>out. sends (data h') = sends (data h) @ out \<and>
           ((\<forall>(g, x) \<in> set out. g \<noteq> f) \<and> answers f ts (k h) \<or>
            (\<exists>q. out = [(f, q)] \<and> pkt_type q \<in> set ts \<and> k h = Return))))"

lemma answers_StepE:
  assumes "answers f ts (Step e k)" and "e h = Inr h'" and "sends (data h') = sends (data h) @ out"
  obtains (others) "\<forall>(g, x) \<in> set out. g \<noteq> f" "answers f ts (k h)"
  | (last) q where "out = [(f, q)]" "pkt_type q \<in> set ts" "k h = Return"
proof -
  from assms(1) [unfolded answers.simps, rule_format, OF assms(2)] assms(3)
  have "(\<forall>(g, x) \<in> set out. g \<noteq> f) \<and> answers f ts (k h) \<or>
      (\<exists>q. out = [(f, q)] \<and> pkt_type q \<in> set ts \<and> k h = Return)" by simp
  then show thesis using others last by blast
qed

lemma answers_amid: "runs_amid I p outs \<Longrightarrow> answers f ts p \<Longrightarrow> answered f ts outs"
proof (induction rule: runs_amid.induct)
  case (amid_step h e h' out k outs)
  from amid_step.prems amid_step.hyps(2,3) show ?case
  proof (cases rule: answers_StepE)
    case others
    with amid_step.IH obtain before q where "outs = before @ [(f, q)]" "\<forall>(g, x) \<in> set before. g \<noteq> f" "pkt_type q \<in> set ts"
      by (auto simp: answered_def)
    with others(1) show ?thesis by (auto simp: answered_def intro!: exI [of _ "out @ before"])
  next
    case (last q)
    with amid_step.hyps(4) show ?thesis by (auto simp: answered_def elim: amid_ReturnE)
  qed
qed simp

lemma answers_locked:
  "(\<And>s. sends (snd (g s)) = sends s) \<Longrightarrow> (\<And>r. answers f ts (k r)) \<Longrightarrow> answers f ts (locked g k)"
  by (simp add: locked_def)

lemma answers_get_client: "(\<And>r. answers f ts (k r)) \<Longrightarrow> answers f ts (get_client_ptr g k)"
  by (simp add: get_client_ptr_def)

lemma answers_read_client: "(\<And>c. answers f ts (k c)) \<Longrightarrow> answers f ts (read_client p k)"
  by (auto simp: read_client_def)

lemma answers_write_room: "answers f ts k \<Longrightarrow> answers f ts (write_room p code k)"
  by (auto simp: write_room_def)

lemma answers_leave: "answers f ts k \<Longrightarrow> answers f ts (leave_step g code k)"
  by (simp add: leave_step_def)

lemma answers_shown_name: "(\<And>n. answers f ts (k n)) \<Longrightarrow> answers f ts (read_shown_name p k)"
  unfolding read_shown_name_def by (intro answers_read_client) (simp add: answers_read_client)

lemma answers_send: "g \<noteq> f \<Longrightarrow> answers f ts k \<Longrightarrow> answers f ts (send_step g p k)"
  by (simp add: send_step_def locked_def sendPacket_def)

lemma answers_broadcast: "answers f ts k \<Longrightarrow> answers f ts (broadcast_steps p code f k)"
proof -
  assume k: "answers f ts k"
  then have "f \<notin> set fs \<Longrightarrow> answers f ts (send_each fs p k)" for fs
    by (induction fs) (auto intro: answers_send)
  with k show ?thesis
    by (auto simp: broadcast_steps_def get_room_ptr_def read_room_def split: option.split)
qed

lemma answers_answer:
  "(\<And>q. r = Inr q \<Longrightarrow> pkt_type q \<in> set ts) \<Longrightarrow> t \<in> set ts \<Longrightarrow> answers f ts (answer_step f t prefix r)"
  by (auto simp: answer_step_def send_step_def locked_def sendPacket_def error_packet_def split: sum.split)

lemmas answers_intros = answers_answer answers_locked answers_get_client answers_read_client answers_write_room
  answers_leave answers_shown_name answers_broadcast

lemma answers_nickname: "answers f [NICKNAME_RESPONSE_OK, NICKNAME_RESPONSE_FAIL] (nickname_steps f p)"
  unfolding nickname_steps_def Let_def
  by (auto intro!: answers_answer answers_locked split: sum.split bool.split)

lemma answers_create: "answers f [ROOM_CREATE_OK, ROOM_CREATE_FAIL] (create_steps pf f p)"
proof -
  have room: "answers f [ROOM_CREATE_OK, ROOM_CREATE_FAIL]
      (create_room_steps pf f n m (answer_step f ROOM_CREATE_FAIL t))" for n m t
    unfolding create_room_steps_def Let_def
    by (auto intro!: answers_answer answers_locked answers_get_client answers_write_room
        split: option.split sum.split prod.split)
  show ?thesis
    unfolding create_steps_def Let_def
    by (auto intro!: answers_answer room split: sum.split bool.split)
qed

lemma answers_join: "answers f [ROOM_JOIN_OK, ROOM_JOIN_FAIL] (join_steps pf f p)"
proof -
  have room: "answers f [ROOM_JOIN_OK, ROOM_JOIN_FAIL]
      (join_room_steps pf f code (answer_step f ROOM_JOIN_FAIL t))" for code t
    unfolding join_room_steps_def Let_def
    by (auto intro!: answers_intros split: option.split sum.split prod.split)
  show ?thesis
    unfolding join_steps_def Let_def
    by (auto intro!: answers_answer room split: sum.split bool.split)
qed

lemma answers_exit: "answers f [ROOM_EXIT_OK, ROOM_EXIT_FAIL] (exit_steps pf f p)"
  unfolding exit_steps_def Let_def
  by (auto intro!: answers_intros split: option.split sum.split)

lemma answers_handle:
  assumes "pkt_type p \<in> {NICKNAME_REQUEST, CREATE_ROOM, JOIN_ROOM, EXIT_ROOM}"
  shows "answers f (reply_types (pkt_type p)) (handle_steps pf now f p)"
  using assms answers_nickname answers_create answers_join answers_exit by (auto simp: handle_steps_def)

lemma answered_once_amid:
  assumes "runs_amid I (handle_steps pf now f p) outs"
    and "pkt_type p \<in> {NICKNAME_REQUEST, CREATE_ROOM, JOIN_ROOM, EXIT_ROOM}"
  shows "\<exists>others q. outs = others @ [(f, q)] \<and> (\<forall>(g, x) \<in> set others. g \<noteq> f)
           \<and> pkt_type q \<in> set (reply_types (pkt_type p))"
  using answers_amid [OF assms(1) answers_handle [OF assms(2)]] by (auto simp: answered_def)

section \<open>The runs of a worker\<close>

text \<open>
  A run of the worker \<open>i\<close> from a point in its handler to the end of it, with steps of the other threads in between; the
  list holds the packets the worker itself sends.
\<close>

inductive worker_run :: "platform \<Rightarrow> fd \<Rightarrow> nat \<Rightarrow> fine_world \<Rightarrow> (fd \<times> packet) list \<Rightarrow> fine_world \<Rightarrow> bool"
  for pf l i where
  handler_over: "progs w i = Some Return \<Longrightarrow> worker_run pf l i w [] w"
| others_step:
    "fine_step pf l w w1 \<Longrightarrow> progs w i = Some q \<Longrightarrow> progs w1 i = Some q \<Longrightarrow> worker_run pf l i w1 outs w' \<Longrightarrow>
     worker_run pf l i w outs w'"
| own_step:
    "\<not> faulted w \<Longrightarrow> progs w i = Some (Step e k) \<Longrightarrow> e (shared_of w) = Inr h \<Longrightarrow>
     sends (data h) = sends (srv (whole w)) @ out \<Longrightarrow>
     worker_run pf l i (put_shared h (w\<lparr>progs := (progs w)(i \<mapsto> k (shared_of w))\<rparr>)) outs w' \<Longrightarrow>
     worker_run pf l i w (out @ outs) w'"

text \<open>The steps of such a run are made in states the server reaches meanwhile.\<close>

definition met :: "platform \<Rightarrow> fd \<Rightarrow> fine_world \<Rightarrow> shared \<Rightarrow> bool" where
  "met pf l w h \<longleftrightarrow> (\<exists>v. reachable (fine_step pf l) w v \<and> h = shared_of v)"

lemma worker_run_amid:
  "worker_run pf l i w outs w' \<Longrightarrow> reachable (fine_step pf l) w0 w \<Longrightarrow> progs w i = Some q \<Longrightarrow>
   runs_amid (met pf l w0) q outs"
proof (induction arbitrary: q rule: worker_run.induct)
  case (handler_over w)
  then show ?case by (auto intro: amid_done)
next
  case (others_step w w1 r outs w')
  then show ?case by (auto intro: next_state)
next
  case (own_step w e k h out outs w')
  let ?w1 = "put_shared h (w\<lparr>progs := (progs w)(i \<mapsto> k (shared_of w))\<rparr>)"
  from own_step.prems(1) one_step [OF own_step.hyps(1-3)]
  have "reachable (fine_step pf l) w0 ?w1" by (rule next_state)
  with own_step.IH [of "k (shared_of w)"] have "runs_amid (met pf l w0) (k (shared_of w)) outs" by simp
  moreover have "met pf l w0 (shared_of w)" using own_step.prems(1) by (auto simp: met_def)
  ultimately have "runs_amid (met pf l w0) (Step e k) (out @ outs)"
    using own_step.hyps(3,4) by (intro amid_step [where h = "shared_of w"]) simp_all
  with own_step.prems(2) own_step.hyps(2) show ?case by simp
qed

text \<open>A worker nobody disturbs.\<close>

lemma worker_alone:
  "safe p \<Longrightarrow> run_steps p (shared_of w) = Inr h' \<Longrightarrow> \<not> faulted w \<Longrightarrow> progs w i = Some p \<Longrightarrow>
   \<exists>outs w'. worker_run pf l i w outs w' \<and> srv (whole w') = data h' \<and>
     sends (data h') = sends (srv (whole w)) @ outs"
proof (induction p arbitrary: w)
  case Return
  then have "h' = shared_of w" by simp
  with Return show ?case by (intro exI [of _ "[]"] exI [of _ w]) (auto intro: handler_over)
next
  case (Step e k)
  then obtain h1 where e: "e (shared_of w) = Inr h1" and r: "run_steps (k (shared_of w)) h1 = Inr h'"
    by (auto split: sum.splits)
  from Step.prems(1) e have "keeps_data (shared_of w) h1" and k: "safe (k (shared_of w))" by auto
  then obtain out where out: "sends (data h1) = sends (srv (whole w)) @ out" by (auto simp: keeps_data_def)
  let ?w1 = "put_shared h1 (w\<lparr>progs := (progs w)(i \<mapsto> k (shared_of w))\<rparr>)"
  from Step.IH [of "k (shared_of w)" ?w1] k r Step.prems(3) obtain outs w' where
    w': "worker_run pf l i ?w1 outs w'" "srv (whole w') = data h'" "sends (data h') = sends (data h1) @ outs"
    by auto
  from own_step [OF Step.prems(3,4) e out w'(1)] w' out show ?case
    by (intro exI [of _ "out @ outs"] exI [of _ w']) simp
qed


section \<open>One copy of each chat message\<close>

text \<open>
  What is relayed: nothing, or one packet to the members a room had at one moment, except the sender. The room is
  the one the sender's entry named at a moment before, and the sender had been seen authenticated.
\<close>

definition authenticated :: "(shared \<Rightarrow> bool) \<Rightarrow> fd \<Rightarrow> bool" where
  "authenticated I f \<longleftrightarrow> (\<exists>h c. I h \<and> getClient f (client_mgr (data h)) = Some c \<and> isAuthenticated c)"

definition named_room :: "(shared \<Rightarrow> bool) \<Rightarrow> fd \<Rightarrow> string \<Rightarrow> bool" where
  "named_room I f code \<longleftrightarrow> (\<exists>h c. I h \<and> getClient f (client_mgr (data h)) = Some c \<and> ci_roomCode c = code)"

definition relayed :: "(shared \<Rightarrow> bool) \<Rightarrow> fd \<Rightarrow> (fd \<times> packet) list \<Rightarrow> bool" where
  "relayed I f outs \<longleftrightarrow>
     outs = [] \<or>
     (\<exists>h code r q. authenticated I f \<and> named_room I f code \<and> I h \<and> getRoom code (room_mgr (data h)) = Some r \<and>
        outs = map (\<lambda>g. (g, q)) (filter (\<lambda>g. g \<noteq> f) (clients r)) \<and> pkt_type q = MESSAGE_CHAT \<and> wf_packet q)"

definition relays :: "(shared \<Rightarrow> bool) \<Rightarrow> fd \<Rightarrow> steps \<Rightarrow> bool" where
  "relays I f p \<longleftrightarrow> (\<forall>outs. runs_amid I p outs \<longrightarrow> relayed I f outs)"

lemma relays_Return: "relays I f Return"
  by (auto simp: relays_def relayed_def elim: amid_ReturnE)

lemma relays_get_client:
  "relays I f (k None) \<Longrightarrow> (\<And>n. relays I f (k (Some (f, n)))) \<Longrightarrow> relays I f (get_client_ptr f k)"
  unfolding relays_def get_client_ptr_def by (auto elim!: amid_StepE split: if_splits)

lemma relays_if:
  "(b \<Longrightarrow> relays I f p) \<Longrightarrow> (\<not> b \<Longrightarrow> relays I f q) \<Longrightarrow> relays I f (if b then p else q)"
  by simp

lemma relays_sum:
  "(\<And>x. relays I f (p x)) \<Longrightarrow> (\<And>y. relays I f (q y)) \<Longrightarrow> relays I f (case r of Inl x \<Rightarrow> p x | Inr y \<Rightarrow> q y)"
  by (simp split: sum.split)

lemma relays_read_client:
  assumes "\<And>h c. I h \<Longrightarrow> getClient g (client_mgr (data h)) = Some c \<Longrightarrow> relays I f (k c)"
  shows "relays I f (read_client (g, n) k)"
  unfolding relays_def
proof (intro allI impI)
  fix outs
  assume "runs_amid I (read_client (g, n) k) outs"
  then obtain h c where "I h" "getClient g (client_mgr (data h)) = Some c" "runs_amid I (k c) outs"
    by (auto elim: amid_read_client)
  with assms show "relayed I f outs" unfolding relays_def by blast
qed

lemma relays_broadcast:
  assumes "authenticated I f" and "named_room I f code" and "pkt_type q = MESSAGE_CHAT" and "wf_packet q"
  shows "relays I f (broadcast_steps q code f Return)"
  unfolding relays_def
proof (intro allI impI)
  fix outs
  assume "runs_amid I (broadcast_steps q code f Return) outs"
  then obtain fs where o: "outs = map (\<lambda>g. (g, q)) (filter (\<lambda>g. g \<noteq> f) fs)" and "room_at_once I code fs"
    by (auto elim!: amid_broadcast amid_ReturnE)
  then consider "fs = []" | h r where "I h" "getRoom code (room_mgr (data h)) = Some r" "fs = clients r"
    unfolding room_at_once_def by blast
  then show "relayed I f outs"
    by cases (use assms o in \<open>auto simp: relayed_def simp del: getRoom_def\<close>)
qed

lemma relays_message: "relays I f (message_steps pf now f p)"
proof -
  have auth: "authenticated I f" if "I h" "getClient f (client_mgr (data h)) = Some c" "\<not> \<not> isAuthenticated c" for h c
    using that unfolding authenticated_def by blast
  have room: "named_room I f (ci_roomCode c)" if "I h" "getClient f (client_mgr (data h)) = Some c" for h c
    using that unfolding named_room_def by blast
  show ?thesis
    unfolding message_steps_def
    by (rule relays_get_client; simp only: option.case relays_Return)
      (intro relays_if relays_sum relays_read_client relays_Return relays_broadcast wf_text_packet;
        (rule room, assumption, assumption | rule auth, assumption, assumption, assumption | simp))
qed


section \<open>Witnesses\<close>

lemma demo_world_inv: "world_ok 3 demo_world"
  using demo_ok
  by (auto simp: world_ok_def demo_world_def sends_ok_def demo_server_def tasks_ok_def pending_def running_def
      thread_pool_def buffers_ok_def getClient_def demo_client_def partial_packet_def HEADER_SIZE_def)



end
