(* ===== verification/Worker_Progress.thy ===== *)
theory Worker_Progress
  imports Interference "HOL-Library.Multiset"
begin

text \<open>
  That the workers get their work done. Between two events of the I/O thread the workers can make only finitely
  many steps, and they come to rest only when the queue is empty and every worker waits in it; until then every
  request that was queued has been answered. The only other end is a pointer used after its entry is erased.
\<close>

section \<open>The workers and their handlers\<close>

abbreviation workers :: "fine_world \<Rightarrow> task worker list" where
  "workers w \<equiv> m_workers (pool (whole w))"

abbreviation queue :: "fine_world \<Rightarrow> task list" where
  "queue w \<equiv> m_task_queue (pool (whole w))"

text \<open>A handler is under way only on a worker that has taken a task; nobody stops the pool of a running server.\<close>

definition sched_ok :: "nat \<Rightarrow> fine_world \<Rightarrow> bool" where
  "sched_ok n w \<longleftrightarrow>
     \<not> m_stop (pool (whole w)) \<and> length (workers w) = n \<and> Exited \<notin> set (workers w) \<and>
     (\<forall>i p. progs w i = Some p \<longrightarrow> i < n \<and> (\<exists>t. workers w ! i = Running t))"

lemma event_pool:
  assumes "handleEvent l f c b res w = Inr w'"
  shows "m_workers (pool w') = m_workers (pool w)" and "m_stop (pool w') = m_stop (pool w)"
    and "\<exists>ts. m_task_queue (pool w') = m_task_queue (pool w) @ ts" and "sends (srv w') = sends (srv w)"
proof -
  let ?P = "\<lambda>pl. m_workers pl = m_workers (pool w) \<and> m_stop pl = m_stop (pool w) \<and>
    (\<exists>ts. m_task_queue pl = m_task_queue (pool w) @ ts)"
  have step: "?P pl \<Longrightarrow> ?P (submit f p pl)" for p and pl :: "task pool"
    by (auto simp: submit_def enqueue_def queue_push_def)
  have r: "?P pl" if "receiveAndParse f res submit (client_mgr (srv w)) (pool w) = Inr (s, cm, pl)" for s cm pl
    using that
  proof (cases rule: receiveAndParse_cases)
    case (parsed ci bs rest)
    from parse_loop_inv [where P = ?P and cb = "submit f", OF step _ parsed(5)] show ?thesis by simp
  qed simp
  have "?P (pool w') \<and> sends (srv w') = sends (srv w)"
    using assms r
    by (auto simp: handleEvent_def acceptNewConnection_def closeConnection_def on_clients_def Let_def
        split: if_splits sum.splits)
  then show "m_workers (pool w') = m_workers (pool w)" "m_stop (pool w') = m_stop (pool w)"
    "\<exists>ts. m_task_queue (pool w') = m_task_queue (pool w) @ ts" "sends (srv w') = sends (srv w)" by auto
qed

lemma nth_set_update: "i < length xs \<Longrightarrow> set (xs[i := x]) \<subseteq> insert x (set xs)"
  by (rule set_update_subset_insert)

interpretation sc: transition_invariant "fine_step pf l" "sched_ok n" for pf l n
proof
  fix w w'
  assume inv: "sched_ok n w" and "fine_step pf l w w'"
  from this(2) show "sched_ok n w'"
  proof (cases rule: fine_step_cases)
    case (io_event f c b res v)
    with inv event_pool [OF io_event(5)] show ?thesis by (simp add: sched_ok_def)
  next
    case (pool_move pl)
    from pool_move(3) show ?thesis
      by (cases rule: worker_step.cases)
        (use pool_move inv in \<open>auto simp: sched_ok_def nth_list_update dest!: subsetD [OF set_update_subset_insert]\<close>)
  next
    case (starts i f p now)
    with inv show ?thesis by (auto simp: sched_ok_def)
  next
    case (one_step i e k h)
    with inv show ?thesis by (auto simp: sched_ok_def)
  next
    case (fault i e k x)
    with inv show ?thesis by (simp add: sched_ok_def)
  next
    case (finishes i t)
    with inv show ?thesis
      by (auto simp: sched_ok_def nth_list_update dest!: subsetD [OF set_update_subset_insert])
  qed
qed

lemma sched_reachable: "reachable (fine_step pf l) (initial_fine n l) w \<Longrightarrow> sched_ok n w"
  by (rule sc.invariant_reachable)
    (auto simp: sched_ok_def initial_fine_def resting_def initial_world_def thread_pool_def)

section \<open>The workers cannot work for ever\<close>

text \<open>
  What is left to do: a queued task will be taken, started and finished, and leaves its worker at the test of
  \<open>m_stop\<close>. In between the programs of the handlers get smaller.
\<close>

definition weight :: "fine_world \<Rightarrow> nat \<Rightarrow> nat" where
  "weight w i =
     (case workers w ! i of
        Testing_Stop \<Rightarrow> 1 | In_Wait \<Rightarrow> 0 | Exited \<Rightarrow> 0 | Running t \<Rightarrow> if progs w i = None then 3 else 2)"

definition work_left :: "fine_world \<Rightarrow> nat" where
  "work_left w = 4 * length (queue w) + (\<Sum>i < length (workers w). weight w i)"

definition continuation :: "(steps option \<times> steps option) set" where
  "continuation = {(Some (k h), Some (Step e k)) | k h e. True}"

definition programs :: "fine_world \<Rightarrow> steps option multiset" where
  "programs w = mset (map (progs w) [0..<length (workers w)])"

definition work_order :: "(fine_world \<times> fine_world) set" where
  "work_order =
     inv_image (less_than <*lex*> mult1 continuation <*lex*> less_than)
       (\<lambda>w. (work_left w, programs w, if faulted w then 0 else 1))"

lemma wf_continuation: "wf continuation"
proof -
  have "(\<forall>y. (\<forall>x. (x, y) \<in> continuation \<longrightarrow> P x) \<longrightarrow> P y) \<Longrightarrow> P (Some p)" for P p
  proof (induction p)
    case Return
    then show ?case by (auto simp: continuation_def)
  next
    case (Step e k)
    then have "P (Some (k h))" for h by auto
    then have "(x, Some (Step e k)) \<in> continuation \<Longrightarrow> P x" for x by (auto simp: continuation_def)
    with Step.prems show ?case by blast
  qed
  moreover have "(\<forall>y. (\<forall>x. (x, y) \<in> continuation \<longrightarrow> P x) \<longrightarrow> P y) \<Longrightarrow> P None" for P
    by (auto simp: continuation_def)
  ultimately show ?thesis unfolding wf_def by (metis option.exhaust)
qed

lemma wf_work_order: "wf work_order"
  unfolding work_order_def
  by (intro wf_inv_image wf_lex_prod wf_less_than wf_mult1 wf_continuation)

lemma weight_sum:
  assumes "i < n" and "\<And>j :: nat. j < n \<Longrightarrow> j \<noteq> i \<Longrightarrow> f j = g j"
  shows "(\<Sum>j < n. f j) + (g i :: nat) = (\<Sum>j < n. g j) + f i"
proof -
  have "(\<Sum>j \<in> {..<n} - {i}. f j) = (\<Sum>j \<in> {..<n} - {i}. g j)" using assms(2) by (intro sum.cong) auto
  moreover have "sum f {..<n} = f i + sum f ({..<n} - {i})" "sum g {..<n} = g i + sum g ({..<n} - {i})"
    using assms(1) by (auto intro!: sum.remove)
  ultimately show ?thesis by simp
qed

text \<open>A step that changes the worker \<open>i\<close> alone.\<close>

lemma work_left_less:
  assumes "i < length (workers w)" and "length (workers w') = length (workers w)"
    and "\<And>j. j \<noteq> i \<Longrightarrow> workers w' ! j = workers w ! j \<and> progs w' j = progs w j"
    and "4 * length (queue w') + weight w' i < 4 * length (queue w) + weight w i"
  shows "(w', w) \<in> work_order"
proof -
  have "(\<Sum>j < length (workers w). weight w' j) + weight w i = (\<Sum>j < length (workers w). weight w j) + weight w' i"
    using assms(1,3) by (intro weight_sum) (auto simp: weight_def)
  with assms(2,4) have "work_left w' < work_left w" by (simp add: work_left_def)
  then show ?thesis by (simp add: work_order_def)
qed

lemma programs_update:
  assumes "i < length (workers w)" and "progs w i = Some (Step e k)" and "workers w' = workers w"
    and "progs w' = (progs w)(i \<mapsto> k h)"
  shows "(programs w', programs w) \<in> mult1 continuation"
proof -
  let ?ps = "map (progs w) [0..<length (workers w)]"
  have "map (progs w') [0..<length (workers w')] = ?ps[i := Some (k h)]"
    using assms by (auto intro!: nth_equalityI simp: nth_list_update)
  then have "programs w' = add_mset (Some (k h)) (programs w - {#Some (Step e k)#})"
    using assms(1,2) mset_update [of i ?ps "Some (k h)"] by (simp add: programs_def)
  moreover have "Some (Step e k) \<in># programs w"
    using assms(1,2) by (force simp: programs_def)
  ultimately show ?thesis
    by (intro mult1I [where a = "Some (Step e k)" and K = "{#Some (k h)#}"]) (auto simp: continuation_def)
qed

lemma work_step_smaller:
  assumes "sched_ok n w" and "work_step pf w w'"
  shows "(w', w) \<in> work_order"
  using assms(2)
proof (cases rule: work_step.cases)
  case (w_pool pl)
  from w_pool(3) show ?thesis
  proof (cases rule: worker_step.cases)
    case (goes_on i)
    with w_pool show ?thesis by (intro work_left_less [of i]) (auto simp: weight_def)
  next
    case (leaves i)
    with w_pool assms(1) show ?thesis by (simp add: sched_ok_def)
  next
    case (takes i t q)
    then have "length (queue w) = Suc (length q)" by (simp add: wait_and_pop_def split: list.splits)
    with takes w_pool show ?thesis by (intro work_left_less [of i]) (auto simp: weight_def)
  qed
next
  case (w_starts i f p now)
  then show ?thesis by (intro work_left_less [of i]) (auto simp: weight_def)
next
  case (w_one_step i e k h)
  with assms(1) have i: "i < length (workers w)" by (auto simp: sched_ok_def)
  have "weight w' = weight w"
    using w_one_step by (intro ext) (simp add: weight_def split: worker.split)
  then have "work_left w' = work_left w" using w_one_step(1) by (simp add: work_left_def)
  moreover have "(programs w', programs w) \<in> mult1 continuation"
    using w_one_step by (intro programs_update [OF i w_one_step(3)]) simp_all
  ultimately show ?thesis by (simp add: work_order_def)
next
  case (w_fault i e k x)
  then have "weight w' = weight w" by (intro ext) (simp add: weight_def split: worker.split)
  with w_fault(1) have "work_left w' = work_left w" "programs w' = programs w"
    by (simp_all add: work_left_def programs_def)
  with w_fault show ?thesis by (simp add: work_order_def)
next
  case (w_finishes i t)
  then show ?thesis by (intro work_left_less [of i]) (auto simp: weight_def)
qed

lemma work_reachable: "(work_step pf)\<^sup>*\<^sup>* w w' \<Longrightarrow> reachable (fine_step pf l) w w'"
  by (induction rule: rtranclp_induct) (auto intro: start next_state work)

lemma no_endless_work:
  assumes "sched_ok n w" and "run 0 = w"
  shows "\<exists>k. \<not> work_step pf (run k) (run (Suc k))"
proof (rule ccontr)
  assume "\<not> ?thesis"
  then have s: "work_step pf (run k) (run (Suc k))" for k by blast
  have ok: "sched_ok n (run k)" for k
    by (induction k) (use assms sc.preserved [where l = 0] work s in blast)+
  have "(run (Suc k), run k) \<in> work_order" for k
    using work_step_smaller [OF ok s] .
  with wf_work_order show False unfolding wf_iff_no_infinite_down_chain by blast
qed

lemma work_ends:
  assumes "sched_ok n w"
  shows "\<exists>w'. (work_step pf)\<^sup>*\<^sup>* w w' \<and> (\<nexists>v. work_step pf w' v)"
  using wf_work_order assms
proof (induction w rule: wf_induct_rule)
  case (less w)
  show ?case
  proof (cases "\<exists>v. work_step pf w v")
    case True
    then obtain v where v: "work_step pf w v" by blast
    with less.IH [OF work_step_smaller [OF less.prems v]] sc.preserved [where l = 0, OF less.prems work [OF v]]
    show ?thesis by (meson converse_rtranclp_into_rtranclp)
  qed blast
qed

section \<open>Coming to rest\<close>

definition workers_idle :: "fine_world \<Rightarrow> bool" where
  "workers_idle w \<longleftrightarrow> at_rest w \<and> queue w = [] \<and> (\<forall>x \<in> set (workers w). x = In_Wait)"

text \<open>A worker that does not wait on the empty queue can make a step.\<close>

lemma worker_enabled:
  assumes "sched_ok n w" and "\<not> faulted w" and "i < n" and "workers w ! i \<noteq> In_Wait \<or> queue w \<noteq> []"
  shows "\<exists>w'. work_step pf w w'"
proof (cases "workers w ! i")
  case Testing_Stop
  with assms goes_on [of i "pool (whole w)"] show ?thesis
    by (auto simp: sched_ok_def intro: w_pool)
next
  case In_Wait
  with assms(4) obtain t q where "wait_and_pop (queue w) = Some (t, q)"
    by (cases "queue w") (auto simp: wait_and_pop_def)
  with In_Wait assms(1-3) takes [of i "pool (whole w)" t q] show ?thesis
    by (auto simp: sched_ok_def intro: w_pool)
next
  case (Running t)
  obtain f p where t: "t = (f, p)" by force
  show ?thesis
  proof (cases "progs w i")
    case None
    with Running t assms(1-3) w_starts [of w i f p pf "[]"] show ?thesis by (auto simp: sched_ok_def)
  next
    case (Some r)
    show ?thesis
    proof (cases r)
      case Return
      with Some Running assms(1-3) w_finishes [of w i t pf] show ?thesis by (auto simp: sched_ok_def)
    next
      case (Step e k)
      with Some assms(2) w_fault [of w i e k _ pf] w_one_step [of w i e k _ pf] show ?thesis
        by (cases "e (shared_of w)") auto
    qed
  qed
next
  case Exited
  with assms(1,3) show ?thesis by (metis nth_mem sched_ok_def)
qed

lemma rest_is_idle:
  assumes "sched_ok n w" and "0 < n" and "\<nexists>w'. work_step pf w w'" and "\<not> faulted w"
  shows "workers_idle w"
proof -
  have w: "workers w ! i = In_Wait \<and> queue w = []" if "i < n" for i
    using worker_enabled [OF assms(1,4) that] assms(3) by blast
  with assms(1) have "progs w i = None" for i
    by (cases "progs w i") (fastforce simp: sched_ok_def)+
  with w assms(1,2,4) show ?thesis
    by (auto simp: workers_idle_def at_rest_def sched_ok_def in_set_conv_nth)
qed


section \<open>Every queued request is answered\<close>

text \<open>
  A request of the client \<open>f\<close> is owed an answer as long as it is queued, taken, or handled by a program that has not
  answered yet.
\<close>

definition owed_at :: "fd \<Rightarrow> packet \<Rightarrow> fine_world \<Rightarrow> nat \<Rightarrow> bool" where
  "owed_at f p w i \<longleftrightarrow>
     i < length (workers w) \<and> workers w ! i = Running (f, p) \<and>
     (case progs w i of None \<Rightarrow> True | Some r \<Rightarrow> answers f (reply_types (pkt_type p)) r)"

definition owed :: "fd \<Rightarrow> packet \<Rightarrow> fine_world \<Rightarrow> bool" where
  "owed f p w \<longleftrightarrow> (f, p) \<in> set (queue w) \<or> (\<exists>i. owed_at f p w i)"

definition answered_since :: "nat \<Rightarrow> fd \<Rightarrow> packet \<Rightarrow> fine_world \<Rightarrow> bool" where
  "answered_since m f p w \<longleftrightarrow>
     (\<exists>q. (f, q) \<in> set (drop m (sends (srv (whole w)))) \<and> pkt_type q \<in> set (reply_types (pkt_type p)))"

definition request :: "packet \<Rightarrow> bool" where
  "request p \<longleftrightarrow> pkt_type p \<in> {NICKNAME_REQUEST, CREATE_ROOM, JOIN_ROOM, EXIT_ROOM}"

lemma owed_queue: "(f, p) \<in> set (queue w) \<Longrightarrow> owed f p w"
  by (simp add: owed_def)

lemma owed_atI: "owed_at f p w i \<Longrightarrow> owed f p w"
  by (auto simp: owed_def)

lemma owed_at_keep:
  "owed_at f p w i \<Longrightarrow> length (workers w') = length (workers w) \<Longrightarrow> workers w' ! i = workers w ! i \<Longrightarrow>
   progs w' i = progs w i \<Longrightarrow> owed f p w'"
  by (auto simp: owed_at_def intro!: owed_atI)

text \<open>A step that changes one worker, which does not owe the answer.\<close>

lemma owed_elsewhere:
  assumes "owed f p w" and "\<not> owed_at f p w i" and "queue w' = queue w" and "length (workers w') = length (workers w)"
    and "\<And>j. j \<noteq> i \<Longrightarrow> workers w' ! j = workers w ! j \<and> progs w' j = progs w j"
  shows "owed f p w'"
proof (cases "(f, p) \<in> set (queue w)")
  case False
  with assms(1) obtain j where j: "owed_at f p w j" by (auto simp: owed_def)
  with assms(2) have "j \<noteq> i" by blast
  with owed_at_keep [OF j assms(4)] assms(5) show ?thesis by blast
qed (simp add: assms(3) owed_queue)

lemma idle_owes_nothing:
  assumes "workers_idle w"
  shows "\<not> owed f p w"
proof -
  have "workers w ! i = In_Wait" if "i < length (workers w)" for i
    using assms nth_mem [OF that] by (auto simp: workers_idle_def)
  then have "\<not> owed_at f p w i" for i by (auto simp: owed_at_def)
  with assms show ?thesis by (simp add: workers_idle_def owed_def)
qed

text \<open>The packets sent stay sent.\<close>

lemma step_extends:
  assumes "fine_inv l w" and "progs w i = Some (Step e k)" and "e (shared_of w) = Inr h"
  obtains out where "sends (data h) = sends (srv (whole w)) @ out"
proof -
  from assms(1,2) have "safe (Step e k)" unfolding fine_inv_def by blast
  with assms(3) have "keeps_data (shared_of w) h" by auto
  with that show thesis by (auto simp: keeps_data_def)
qed

lemma sends_grow:
  assumes "fine_step pf l w w'" and "fine_inv l w"
  shows "\<exists>out. sends (srv (whole w')) = sends (srv (whole w)) @ out"
  using assms(1)
proof (cases rule: fine_step_cases)
  case (io_event f c b res v)
  with event_pool(4) [OF io_event(5)] show ?thesis by simp
next
  case (one_step i e k h)
  from step_extends [OF assms(2) one_step(3,4)] one_step(1) show ?thesis by auto
qed simp_all

lemma answered_since_step:
  "fine_step pf l w w' \<Longrightarrow> fine_inv l w \<Longrightarrow> answered_since m f p w \<Longrightarrow> answered_since m f p w'"
  by (drule (1) sends_grow) (auto simp: answered_since_def)

lemma owed_pool_move:
  assumes "worker_step (pool (whole w)) None pl" and "sched_ok n w" and "owed f p w"
  shows "owed f p (w\<lparr>whole := (whole w)\<lparr>pool := pl\<rparr>\<rparr>)" (is "owed f p ?w")
  using assms(1)
proof (cases rule: worker_step.cases)
  case (goes_on i)
  then have "\<not> owed_at f p w i" by (simp add: owed_at_def)
  from owed_elsewhere [OF assms(3) this, of ?w] goes_on(1) show ?thesis by simp
next
  case (leaves i)
  with assms(2) show ?thesis by (simp add: sched_ok_def)
next
  case (takes i t q)
  then have q: "set (queue w) = insert t (set q)" by (simp add: wait_and_pop_def split: list.splits)
  from takes(3,4) assms(2) have "progs w i = None"
    by (cases "progs w i") (auto simp: sched_ok_def)
  from assms(3) q consider "(f, p) \<in> set q" | "t = (f, p)" | j where "owed_at f p w j"
    unfolding owed_def by auto
  then show ?thesis
  proof cases
    case 1
    with takes(1) show ?thesis by (simp add: owed_queue)
  next
    case 2
    with takes \<open>progs w i = None\<close> have "owed_at f p ?w i" by (simp add: owed_at_def)
    then show ?thesis by (rule owed_atI)
  next
    case (3 j)
    with takes(3,4) have "j \<noteq> i" by (auto simp: owed_at_def)
    with 3 takes(1) show ?thesis by (auto intro: owed_at_keep)
  qed
qed

lemma owed_start:
  assumes "workers w ! i = Running (g, r)" and "i < length (workers w)" and "request p" and "owed f p w"
  shows "owed f p (w\<lparr>progs := (progs w)(i \<mapsto> handle_steps pf now g r)\<rparr>)" (is "owed f p ?w")
proof (cases "owed_at f p w i")
  case True
  with assms(1) have "g = f" "r = p" by (simp_all add: owed_at_def)
  with assms(1,2) answers_handle [OF assms(3) [unfolded request_def], of f pf now] have "owed_at f p ?w i"
    by (simp add: owed_at_def)
  then show ?thesis by (rule owed_atI)
next
  case False
  from owed_elsewhere [OF assms(4) False, of ?w] show ?thesis by simp
qed

lemma owed_one_step:
  assumes "progs w i = Some (Step e k)" and "e (shared_of w) = Inr h" and "fine_inv l w"
    and "m \<le> length (sends (srv (whole w)))" and "owed f p w"
    and w': "w' = put_shared h (w\<lparr>progs := (progs w)(i \<mapsto> k (shared_of w))\<rparr>)"
  shows "owed f p w' \<or> answered_since m f p w'"
proof (cases "owed_at f p w i")
  case False
  from owed_elsewhere [OF assms(5) False, of w'] have "owed f p w'" by (simp add: w')
  then show ?thesis ..
next
  case True
  with assms(1) have a: "answers f (reply_types (pkt_type p)) (Step e k)" by (simp add: owed_at_def)
  from step_extends [OF assms(3,1,2)] obtain out where out: "sends (data h) = sends (srv (whole w)) @ out" .
  then have "sends (data h) = sends (data (shared_of w)) @ out" by simp
  with a assms(2) show ?thesis
  proof (cases rule: answers_StepE)
    case others
    with True have "owed_at f p w' i" by (simp add: w' owed_at_def)
    then show ?thesis by (simp add: owed_atI)
  next
    case (last q)
    with out assms(4) show ?thesis by (auto simp: w' answered_since_def)
  qed
qed

lemma owed_step:
  assumes "fine_step pf l w w'" and "sched_ok n w" and "fine_inv l w" and "request p"
    and "m \<le> length (sends (srv (whole w)))" and "owed f p w"
  shows "owed f p w' \<or> answered_since m f p w'"
  using assms(1)
proof (cases rule: fine_step_cases)
  case (io_event g c b res v)
  from assms(6) event_pool [OF io_event(5)] io_event(1) show ?thesis
    by (auto simp: owed_def owed_at_def)
next
  case (pool_move pl)
  with owed_pool_move [OF pool_move(3) assms(2,6)] show ?thesis by simp
next
  case (starts i g r now)
  with owed_start [OF starts(4,3) assms(4,6)] show ?thesis by simp
next
  case (one_step i e k h)
  from owed_one_step [OF one_step(3,4) assms(3,5,6) one_step(1)] show ?thesis .
next
  case (fault i e k x)
  with assms(6) show ?thesis by (simp add: owed_def owed_at_def)
next
  case (finishes i t)
  then have "\<not> owed_at f p w i" by (simp add: owed_at_def)
  from owed_elsewhere [OF assms(6) this, of w'] finishes(1) have "owed f p w'" by simp
  then show ?thesis ..
qed

lemma owed_until_answered:
  assumes "reachable (fine_step pf l) w w'" and "sched_ok n w" and "fine_inv l w" and "request p" and "owed f p w"
  shows "sched_ok n w' \<and> fine_inv l w' \<and> length (sends (srv (whole w))) \<le> length (sends (srv (whole w'))) \<and>
    (owed f p w' \<or> answered_since (length (sends (srv (whole w)))) f p w')"
  using assms(1)
proof (induction rule: reachable.induct)
  case start
  with assms(2-5) show ?case by simp
next
  case (next_state v v')
  then have v: "sched_ok n v" "fine_inv l v" "length (sends (srv (whole w))) \<le> length (sends (srv (whole v)))" by auto
  with sends_grow [OF next_state.hyps(2)] sc.preserved [OF v(1) next_state.hyps(2)]
    fi.preserved [OF v(2) next_state.hyps(2)] owed_step [OF next_state.hyps(2) v(1,2) assms(4) v(3)]
    answered_since_step [OF next_state.hyps(2) v(2)] next_state.IH
  show ?case by auto
qed

text \<open>
  C8. No queued request is forgotten: whatever events arrive and however the threads are scheduled, when the workers are
  idle again, every nickname, create, join and exit request that was in the queue has been answered, to its own client,
  with a success or failure packet of its own kind sent after the moment it was queued.
\<close>

theorem queued_request_answered:
  assumes "reachable (fine_step pf l) (initial_fine n l) w" and "(f, p) \<in> set (queue w)"
    and "pkt_type p \<in> {NICKNAME_REQUEST, CREATE_ROOM, JOIN_ROOM, EXIT_ROOM}"
    and "reachable (fine_step pf l) w w'" and "workers_idle w'"
  shows "\<exists>q. (f, q) \<in> set (drop (length (sends (srv (whole w)))) (sends (srv (whole w'))))
           \<and> pkt_type q \<in> set (reply_types (pkt_type p))"
proof -
  from owed_until_answered [OF assms(4) sched_reachable [OF assms(1)] fine_inv_reachable [OF assms(1)] _
      owed_queue [OF assms(2)]] assms(3)
  have "owed f p w' \<or> answered_since (length (sends (srv (whole w)))) f p w'" by (simp add: request_def)
  moreover have "\<not> owed f p w'" by (rule idle_owes_nothing [OF assms(5)])
  ultimately show ?thesis by (simp add: answered_since_def)
qed

section \<open>A pool without workers\<close>

text \<open>
  \<open>Server::run\<close> takes as many workers as \<open>std::thread::hardware_concurrency\<close> says, which is 0 where the number of
  processors is not known. Such a server accepts connections and queues requests, and never sends a packet.
\<close>

definition silent :: "fine_world \<Rightarrow> bool" where
  "silent w \<longleftrightarrow> sched_ok 0 w \<and> sends (srv (whole w)) = []"

interpretation nw: transition_invariant "fine_step pf l" silent for pf l
proof
  fix w w'
  assume inv: "silent w" and step: "fine_step pf l w w'"
  from step have "sends (srv (whole w')) = []"
  proof (cases rule: fine_step_cases)
    case (io_event f c b res v)
    with inv event_pool(4) [OF io_event(5)] show ?thesis by (simp add: silent_def)
  next
    case (one_step i e k h)
    with inv show ?thesis by (auto simp: silent_def sched_ok_def)
  qed (use inv in \<open>simp_all add: silent_def\<close>)
  with inv sc.preserved [OF _ step] show "silent w'" by (simp add: silent_def)
qed

theorem no_worker_no_answer:
  assumes "reachable (fine_step pf l) (initial_fine 0 l) w"
  shows "sends (srv (whole w)) = []"
proof -
  have "silent (initial_fine 0 l)"
    using sched_reachable [OF start]
    by (simp add: silent_def) (simp add: initial_fine_def resting_def initial_world_def)
  from nw.invariant_reachable [OF assms this] show ?thesis by (simp add: silent_def)
qed

section \<open>Witnesses\<close>

text \<open>The demonstration run: one worker, and the request of client 5 in the queue.\<close>

lemma demo_fine_queued:
  "\<exists>w. reachable (fine_step demo_platform 3) (initial_fine 1 3) w \<and> at_rest w \<and> srv (whole w) = srv demo_accepted
     \<and> pool (whole w) = one_worker [(5, demo_request)] Testing_Stop"
  using demo_run_queued [of demo_platform] coarse_reachable [of demo_platform 3 1] by metis


theorem queued_request_answered_witness:
  "\<exists>q. (5, q) \<in> set (sends demo_registered) \<and> pkt_type q \<in> {NICKNAME_RESPONSE_OK, NICKNAME_RESPONSE_FAIL}"
proof -
  from demo_fine_queued obtain w where w: "reachable (fine_step demo_platform 3) (initial_fine 1 3) w" "at_rest w"
    "srv (whole w) = srv demo_accepted" "pool (whole w) = one_worker [(5, demo_request)] Testing_Stop" by blast
  from demo_take [OF w(3,4)] demo_handle obtain v where v: "reachable (server_step demo_platform 3) (whole w) v"
    "srv v = demo_registered" "pool v = one_worker [] In_Wait" by (blast intro: reachable_trans)
  from coarse_run [OF v(1) w(2)] obtain w' where
    w': "reachable (fine_step demo_platform 3) w w'" "at_rest w'" "whole w' = v" by blast
  with v(3) have "workers_idle w'" by (simp add: workers_idle_def one_worker_def)
  have t: "pkt_type demo_request = NICKNAME_REQUEST" by (simp add: demo_request_def)
  have q: "(5, demo_request) \<in> set (queue w)" by (simp add: w(4) one_worker_def)
  from queued_request_answered [OF w(1) q _ w'(1) \<open>workers_idle w'\<close>] obtain r where
    "(5, r) \<in> set (drop (length (sends (srv (whole w)))) (sends (srv (whole w'))))"
    "pkt_type r \<in> set (reply_types NICKNAME_REQUEST)" by (auto simp: t)
  then show ?thesis by (auto simp: w(3) w'(3) v(2) demo_accepted_srv)
qed

end
