(* ===== verification/Single_Worker.thy ===== *)
theory Single_Worker
  imports Worker_Progress
begin

text \<open>
  What a pool with one worker keeps. \<open>Races\<close> shows two workers giving one nickname to two clients; with one worker, as on
  a machine with one processor, only the event loop runs between the steps of a handler, and what the handler has
  found out about the nicknames stays true.
\<close>

section \<open>Handlers disturbed by the event loop only\<close>

text \<open>What the event loop does to the tables.\<close>

definition io_change :: "server \<Rightarrow> server \<Rightarrow> bool" where
  "io_change s s' \<longleftrightarrow>
     (\<exists>f a. s' = s\<lparr>client_mgr := addClient f a (client_mgr s)\<rparr>) \<or>
     (\<exists>f. s' = s\<lparr>client_mgr := removeClient f (client_mgr s)\<rparr>) \<or>
     (\<exists>f b. s' = s\<lparr>client_mgr := set_buffer f b (client_mgr s)\<rparr>)"

definition nicks_ok :: "server \<Rightarrow> bool" where
  "nicks_ok s \<longleftrightarrow> cm_ok (client_mgr s)"

text \<open>Every step of the program, made after any changes by the event loop, keeps the nicknames unique.\<close>

primrec minds :: "steps \<Rightarrow> server \<Rightarrow> bool" where
  "minds Return = (\<lambda>s. True)"
| "minds (Step e k) =
     (\<lambda>s. \<forall>h h'. reachable io_change s (data h) \<and> nicks_ok (data h) \<and> e h = Inr h' \<longrightarrow>
        nicks_ok (data h') \<and> minds (k h) (data h'))"

lemma minds_io: "minds p s \<Longrightarrow> io_change s s' \<Longrightarrow> minds p s'"
  by (cases p) (auto dest: reachable_step)

lemma guarantees_minds: "guarantees (\<lambda>h h'. nicks_ok (data h) \<longrightarrow> nicks_ok (data h')) p \<Longrightarrow> minds p s"
proof (induction p arbitrary: s)
  case (Step e k)
  then show ?case by auto
qed simp

interpretation nk: step_guarantee "\<lambda>h h'. nicks_ok (data h) \<longrightarrow> nicks_ok (data h')"
  by unfold_locales (auto simp: nicks_ok_def sendPacket_def intro: cm_ok_set_room)

lemma free_nickname_io: "reachable io_change s s' \<Longrightarrow> \<not> isNicknameTaken n (client_mgr s) \<Longrightarrow> \<not> isNicknameTaken n (client_mgr s')"
proof (induction rule: reachable.induct)
  case (next_state s' s'')
  then show ?case
    by (auto simp: io_change_def isNicknameTaken_def addClient_def removeClient_def set_buffer_def update_client_def
        split: option.splits if_splits)
qed

lemma minds_set:
  assumes "\<not> isNicknameTaken n (client_mgr s)"
  shows "minds (locked (\<lambda>s. ((), s\<lparr>client_mgr := setNickname f n (client_mgr s)\<rparr>)) (\<lambda>_. answer_step f t a (Inr (mk_packet u 0 [])))) s"
  using free_nickname_io [OF _ assms]
  by (auto simp: locked_def nicks_ok_def intro!: guarantees_minds nk.answer cm_ok_setNickname)

lemma minds_nickname: "minds (nickname_steps f p) s"
proof -
  have ask: "minds (locked (\<lambda>s. (isNicknameTaken n (client_mgr s), s)) (\<lambda>taken. if taken then q else r)) s"
    if "\<And>s. minds q s" and "\<And>s. \<not> isNicknameTaken n (client_mgr s) \<Longrightarrow> minds r s" for n q r s
    using that by (simp add: locked_def)
  have ans: "minds (answer_step f NICKNAME_RESPONSE_FAIL a r) s" if "\<And>q. r = Inr q \<Longrightarrow> wf_packet q" for a r s
    by (rule guarantees_minds) (rule nk.answer, rule that)
  show ?thesis
    unfolding nickname_steps_def Let_def
    by (auto intro!: ask ans minds_set wf_text_packet simp: MAX_PAYLOAD_SIZE_def split: sum.split bool.split)
qed

lemma minds_handle: "minds (handle_steps pf now f p) s"
proof (cases "pkt_type p = NICKNAME_REQUEST")
  case True
  then show ?thesis by (simp add: handle_steps_def minds_nickname)
next
  case False
  then show ?thesis by (intro guarantees_minds nk.other_request)
qed

section \<open>The invariant\<close>

definition minded :: "steps option \<Rightarrow> server \<Rightarrow> bool" where
  "minded r s \<longleftrightarrow> nicks_ok s \<and> (\<forall>p. r = Some p \<longrightarrow> minds p s)"

lemma minded_io: "minded r s \<Longrightarrow> io_change s s' \<Longrightarrow> minded r s'"
  by (auto simp: minded_def nicks_ok_def intro: minds_io)
    (auto simp: io_change_def cm_ok_addClient cm_ok_removeClient cm_ok_set_buffer)

interpretation mi: table_invariant "minded r" for r
  by unfold_locales (erule minded_io, auto simp: io_change_def)+

definition alone_inv :: "fd \<Rightarrow> fine_world \<Rightarrow> bool" where
  "alone_inv l w \<longleftrightarrow> fine_inv l w \<and> sched_ok 1 w \<and> minded (progs w 0) (srv (whole w))"

interpretation ai: transition_invariant "fine_step pf l" "alone_inv l" for pf l
proof
  fix w w'
  assume inv: "alone_inv l w" and step: "fine_step pf l w w'"
  have one: "i = 0" if "progs w i = Some p" for i p
    using inv that by (auto simp: alone_inv_def sched_ok_def)
  from step have "minded (progs w' 0) (srv (whole w'))"
  proof (cases rule: fine_step_cases)
    case (io_event f c b res v)
    have "world_with (minded (progs w 0)) l (whole w)"
      using inv by (simp add: alone_inv_def fine_inv_def world_with_def)
    from mi.keeps_event [OF this _ io_event(4,5)] inv io_event(1) show ?thesis
      by (simp add: alone_inv_def fine_inv_def world_with_def)
  next
    case (pool_move pl)
    with inv show ?thesis by (simp add: alone_inv_def)
  next
    case (starts i f p now)
    with inv have "i = 0" by (simp add: alone_inv_def sched_ok_def)
    with starts inv show ?thesis by (simp add: alone_inv_def minded_def minds_handle)
  next
    case (one_step i e k h)
    with inv one [OF one_step(3)] have "minds (Step e k) (srv (whole w))" "nicks_ok (srv (whole w))"
      by (simp_all add: alone_inv_def minded_def)
    then have "nicks_ok (data h) \<and> minds (k (shared_of w)) (data h)"
      using one_step(4) start [of io_change "srv (whole w)"] shared_of_simps(1) [of w] by (metis minds.simps(2))
    with one_step(1) one [OF one_step(3)] show ?thesis by (simp add: minded_def)
  next
    case (fault i e k x)
    with inv show ?thesis by (simp add: alone_inv_def)
  next
    case (finishes i t)
    with inv show ?thesis by (auto simp: alone_inv_def minded_def)
  qed
  with inv fi.preserved [OF _ step] sc.preserved [OF _ step] show "alone_inv l w'" by (simp add: alone_inv_def)
qed

lemma alone_inv_initial: "alone_inv l (initial_fine 1 l)"
  using fine_inv_reachable [OF start, of l 1] sched_reachable [OF start, of 1 l]
  by (auto simp: alone_inv_def minded_def nicks_ok_def)
    (simp_all add: initial_fine_def resting_def initial_world_def cm_ok_empty)

text \<open>
  C10. With one worker the nickname check is sound although it is split in two critical sections: however the event loop
  interleaves with the handlers, connections and disconnections between the check and the registration included, in
  every state no two authenticated clients share a nickname, and every nickname in use is in the set the check reads.
  (With two workers this fails, as \<open>nickname_race\<close> shows.)
\<close>

theorem one_worker_nicknames_unique:
  assumes "reachable (fine_step pf l) (initial_fine 1 l) w"
    and "getClient f (client_mgr (srv (whole w))) = Some c" and "isAuthenticated c"
  shows "isNicknameTaken (nickname c) (client_mgr (srv (whole w)))
         \<and> (\<forall>g d. getClient g (client_mgr (srv (whole w))) = Some d \<and> isAuthenticated d
                \<and> nickname d = nickname c \<longrightarrow> g = f)"
proof -
  from ai.invariant_reachable [OF assms(1) alone_inv_initial] have "cm_ok (client_mgr (srv (whole w)))"
    by (simp add: alone_inv_def minded_def nicks_ok_def)
  with assms(2,3) show ?thesis
    unfolding cm_ok_def nicks_covered_def nicks_unique_def isNicknameTaken_def by metis
qed

theorem one_worker_nicknames_unique_witness:
  "isNicknameTaken ''a'' (client_mgr demo_registered)"
proof -
  from demo_run obtain v where v: "reachable (server_step demo_platform 3) (initial_world 1 3) v" "srv v = demo_registered"
    by blast
  from coarse_reachable [OF v(1)] v(2) obtain w where
    w: "reachable (fine_step demo_platform 3) (initial_fine 1 3) w" "srv (whole w) = demo_registered" by auto
  have "getClient 5 (client_mgr (srv (whole w))) =
      Some ((new_client 5 ''10.0.0.1'')\<lparr>nickname := ''a'', isAuthenticated := True\<rparr>)"
    by (simp add: w demo_registered_def getClient_def)
  from one_worker_nicknames_unique [OF w(1) this] show ?thesis by (simp add: w)
qed

end
