(* ===== verification/Stream_Properties.thy ===== *)
theory Stream_Properties
  imports Packet_Receiver Packet_Sender
begin

text \<open>
  Bytes on a connection: what the receiving side makes of a stream cut into arbitrary pieces by \<open>recv\<close>, what
  the sending side puts on the wire when the kernel accepts it piecewise, and the two together.
\<close>

section \<open>Receiving in pieces\<close>

text \<open>The event loop's calls for one client, one chunk of bytes per readable event.\<close>

fun receive_all ::
  "fd \<Rightarrow> string list \<Rightarrow> (fd \<Rightarrow> packet \<Rightarrow> 's \<Rightarrow> 's) \<Rightarrow> client_manager \<Rightarrow> 's
   \<Rightarrow> memory_error + client_manager \<times> 's" where
  "receive_all f [] cb m s = Inr (m, s)"
| "receive_all f (c # cs) cb m s =
     (case receiveAndParse f (Recv c) cb m s of
        Inl e \<Rightarrow> Inl e
      | Inr (b, m', s') \<Rightarrow> receive_all f cs cb m' s')"

lemma receive_all_feed:
  assumes "getClient f m = Some c" and "\<forall>x \<in> set cs. x \<noteq> []"
  shows "case feed (parse_loop (cb f)) cs (recvBuffer c) s of
      Inl e \<Rightarrow> receive_all f cs cb m s = Inl e
    | Inr (rest, s') \<Rightarrow> \<exists>m'. receive_all f cs cb m s = Inr (m', s')
        \<and> getClient f m' = Some (c\<lparr>recvBuffer := rest\<rparr>)
        \<and> (\<forall>g. g \<noteq> f \<longrightarrow> getClient g m' = getClient g m) \<and> m_nicknames m' = m_nicknames m"
  using assms
proof (induction cs arbitrary: m c s)
  case Nil
  then show ?case by simp
next
  case (Cons x cs)
  note step = receiveAndParse_eq [OF Cons.prems(1), of x cb s]
  show ?case
  proof (cases "parse_loop (cb f) (recvBuffer c @ x) s")
    case (Inl e)
    with step Cons.prems show ?thesis by simp
  next
    case (Inr rs)
    obtain r s1 where rs: "rs = (r, s1)" by force
    let ?m = "set_buffer f r (set_buffer f (recvBuffer c @ x) m)"
    have c1: "getClient f ?m = Some (c\<lparr>recvBuffer := r\<rparr>)"
      using Cons.prems(1) by (simp add: client_simps)
    from Cons.IH [OF c1, of s1] Cons.prems(2) step Inr rs Cons.prems(1)
    show ?thesis by (auto simp: client_simps split: sum.splits)
  qed
qed

text \<open>
  C1. Reassembly. However the bytes of a sequence of well-formed packets, followed by the beginning of
  another, are cut into pieces, the receiver hands exactly these packets, in order, to its callback, keeps
  the beginning of the next one in the client's buffer, and changes nothing else.
\<close>

theorem stream_reassembly:
  assumes "getClient f m = Some c" and "recvBuffer c = []" and "\<forall>x \<in> set cs. x \<noteq> []"
    and "\<forall>p \<in> set ps. wf_packet p \<and> canonical_type (pkt_type p)" and "partial_packet rest"
    and "concat cs = concat (map packet_bytes ps) @ rest"
  shows "\<exists>m'. receive_all f cs cb m s = Inr (m', fold (cb f) ps s)
           \<and> getClient f m' = Some (c\<lparr>recvBuffer := rest\<rparr>)
           \<and> (\<forall>g. g \<noteq> f \<longrightarrow> getClient g m' = getClient g m)"
proof -
  have "parse_loop (cb f) [] s = Inr ([], s)" by (rule parse_loop_partial) simp
  from pp.feed_eq_parse [OF this, of cs]
  have "feed (parse_loop (cb f)) cs [] s = Inr (rest, fold (cb f) ps s)"
    using parse_loop_packets [OF assms(4), of "cb f" rest s] assms(6)
    by (simp add: parse_loop_partial [OF assms(5)])
  with receive_all_feed [OF assms(1,3), of cb s] assms(2)
  show ?thesis by auto
qed

definition collect :: "fd \<Rightarrow> packet \<Rightarrow> packet list \<Rightarrow> packet list" where
  "collect f p ps = ps @ [p]"

definition hello_packet :: packet where
  "hello_packet = text_packet MESSAGE_CHAT ''hello''"

lemma hello_packet_ok: "wf_packet hello_packet" "canonical_type (pkt_type hello_packet)"
  by (auto simp: hello_packet_def MAX_PAYLOAD_SIZE_def intro!: wf_text_packet)

lemma hello_bytes: "packet_bytes hello_packet = header_bytes (header hello_packet) @ ''hello''"
  by (simp add: packet_bytes_wf hello_packet_ok) (simp add: hello_packet_def text_packet_def)

theorem stream_reassembly_witness:
  "\<exists>m'. receive_all 5 [take 3 (packet_bytes hello_packet), drop 3 (packet_bytes hello_packet) @ ''ab'']
          collect (addClient 5 [] empty_client_manager) [] = Inr (m', [hello_packet])"
proof -
  let ?b = "packet_bytes hello_packet"
  have len: "length ?b = 9"
    using length_header_bytes [of "header hello_packet"] by (simp add: hello_bytes HEADER_SIZE_def)
  have c: "getClient 5 (addClient 5 [] empty_client_manager) = Some (new_client 5 [])"
    by (simp add: client_simps)
  have ne: "\<forall>x \<in> set [take 3 ?b, drop 3 ?b @ ''ab'']. x \<noteq> []" using len by auto
  have p: "partial_packet ''ab''" by (simp add: partial_packet_def HEADER_SIZE_def)
  show ?thesis
    using stream_reassembly [OF c _ ne _ p, of "[hello_packet]" collect "[]"] hello_packet_ok
    by (auto simp: new_client_def collect_def)
qed

text \<open>
  The cut of the stream never matters: two ways of cutting the same bytes into pieces, well formed or
  not, lead to the same tasks and the same bytes left in the buffer, or to the same memory error.
\<close>

theorem chunking_irrelevant:
  assumes "getClient f m = Some c" and "partial_packet (recvBuffer c)"
    and "\<forall>x \<in> set cs \<union> set ds. x \<noteq> []" and "concat cs = concat ds"
  shows "map_sum id (\<lambda>(m', s'). (getClient f m', s')) (receive_all f cs cb m s)
       = map_sum id (\<lambda>(m', s'). (getClient f m', s')) (receive_all f ds cb m s)"
proof -
  have "parse_loop (cb f) (recvBuffer c) s = Inr (recvBuffer c, s)"
    using assms(2) by (rule parse_loop_partial)
  from pp.feed_chunking [OF this assms(4)]
  have eq: "feed (parse_loop (cb f)) cs (recvBuffer c) s = feed (parse_loop (cb f)) ds (recvBuffer c) s" .
  from assms(3) have "\<forall>x \<in> set cs. x \<noteq> []" "\<forall>x \<in> set ds. x \<noteq> []" by auto
  from receive_all_feed [OF assms(1) this(1), of cb s] receive_all_feed [OF assms(1) this(2), of cb s] eq
  show ?thesis by (auto split: sum.splits)
qed

theorem chunking_irrelevant_witness:
  "map_sum id (\<lambda>(m', s'). (getClient 5 m', s'))
     (receive_all 5 [''ab'', ''c''] collect (addClient 5 [] empty_client_manager) [])
   = map_sum id (\<lambda>(m', s'). (getClient 5 m', s'))
     (receive_all 5 [''a'', ''bc''] collect (addClient 5 [] empty_client_manager) [])"
proof -
  have c: "getClient 5 (addClient 5 [] empty_client_manager) = Some (new_client 5 [])"
    by (simp add: client_simps)
  show ?thesis
    by (rule chunking_irrelevant [OF c]) (simp_all add: new_client_def)
qed

text \<open>
  C18. A client needs no login to corrupt the server's stack: as soon as a header with a size above 1024
  and that many bytes have arrived, in whatever pieces, \<open>parsePackets\<close> copies the packet into its local
  \<open>Packet\<close> and writes past the end of it, by as many bytes as the size exceeds 1024.
\<close>

theorem oversized_packet_overflows:
  assumes "getClient f m = Some c" and "recvBuffer c = []" and "\<forall>x \<in> set cs. x \<noteq> []"
    and "MAX_PAYLOAD_SIZE < unat (psize h)" and "length body = unat (psize h)"
    and "concat cs = header_bytes h @ body"
  shows "receive_all f cs cb m s = Inl (Stack_Overflow (unat (psize h) - MAX_PAYLOAD_SIZE))"
proof -
  have start: "parse_loop (cb f) [] s = Inr ([], s)" by (rule parse_loop_partial) simp
  have "HEADER_SIZE + unat (read_size (header_bytes h @ body)) \<le> length (header_bytes h @ body)"
    using assms(5) by simp
  from parse_loop_step [OF this, of "cb f" s] assms(4)
  have "parse_loop (cb f) (header_bytes h @ body) s = Inl (Stack_Overflow (unat (psize h) - MAX_PAYLOAD_SIZE))"
    by simp
  with pp.feed_eq_parse [OF start, of cs] assms(6) receive_all_feed [OF assms(1,3), of cb s] assms(2)
  show ?thesis by simp
qed

theorem oversized_packet_overflows_witness:
  "receive_all 5 [header_bytes \<lparr>ptype = MESSAGE_SEND, psize = 2000\<rparr>, replicate 2000 (CHR ''x'')]
     collect (addClient 5 [] empty_client_manager) [] = Inl (Stack_Overflow 976)"
proof -
  let ?h = "\<lparr>ptype = MESSAGE_SEND, psize = 2000\<rparr> :: packet_header"
  have c: "getClient 5 (addClient 5 [] empty_client_manager) = Some (new_client 5 [])"
    by (simp add: client_simps)
  have ne: "\<forall>x \<in> set [header_bytes ?h, replicate 2000 (CHR ''x'')]. x \<noteq> []"
    by (simp add: header_bytes_def store16_def)
  show ?thesis
    using oversized_packet_overflows [OF c _ ne, of ?h "replicate 2000 (CHR ''x'')" collect "[]"]
    by (simp add: new_client_def MAX_PAYLOAD_SIZE_def)
qed

section \<open>Sending in pieces\<close>

text \<open>
  C17. What \<open>PacketSender::send\<close> puts on the wire. Whatever pieces the kernel accepts and however often it
  makes the loop wait, the bytes accepted are a prefix of the packet's bytes; when the loop ends without
  an error they are all of them; and it does end so once the kernel has accepted enough bytes and has
  reported no error.
\<close>

theorem packet_send_correct:
  assumes "kernel_ok (length (packet_bytes p)) as" and "packet_send p as = (st, out)"
  shows "(\<exists>n. out = take n (packet_bytes p)) \<and> (st = Sent_All \<longrightarrow> out = packet_bytes p)
         \<and> (Send_Failed \<notin> set as \<and> length (packet_bytes p) \<le> accepted as \<longrightarrow> st = Sent_All)"
  using send_loop_prefix [of "packet_bytes p" 0 as] send_loop_complete [of as "packet_bytes p" 0] assms
  by (auto simp: packet_send_def)

theorem packet_send_correct_witness:
  "packet_send hello_packet [Sent 3, Would_Block, Sent 6] = (Sent_All, packet_bytes hello_packet)"
proof -
  have len: "length (packet_bytes hello_packet) = 9"
    using length_header_bytes [of "header hello_packet"] by (simp add: hello_bytes HEADER_SIZE_def)
  have ok: "kernel_ok (length (packet_bytes hello_packet)) [Sent 3, Would_Block, Sent 6]" by (simp add: len)
  obtain st out where "packet_send hello_packet [Sent 3, Would_Block, Sent 6] = (st, out)" by force
  with packet_send_correct [OF ok this] len show ?thesis by simp
qed

text \<open>
  C16. Sender and receiver fit. If every packet of a list is sent to its end, one after the other and in
  whatever pieces, and the bytes arrive in whatever other pieces, the receiving side gets exactly the
  packets of the list, in order, with an empty buffer at the end.
\<close>

theorem sent_packets_arrive:
  assumes "getClient f m = Some c" and "recvBuffer c = []"
    and "\<forall>p \<in> set ps. wf_packet p \<and> canonical_type (pkt_type p)"
    and "list_all2 (\<lambda>p (as, out). kernel_ok (length (packet_bytes p)) as
           \<and> packet_send p as = (Sent_All, out)) ps runs"
    and "concat cs = concat (map snd runs)" and "\<forall>x \<in> set cs. x \<noteq> []"
  shows "\<exists>m'. receive_all f cs cb m s = Inr (m', fold (cb f) ps s) \<and> getClient f m' = Some c"
proof -
  have "map snd runs = map packet_bytes ps"
    using assms(4)
  proof (induction rule: list_all2_induct)
    case (Cons p ps r runs)
    obtain as out where r: "r = (as, out)" by force
    with Cons(1) send_loop_prefix [of "packet_bytes p" 0 as] show ?case
      using Cons(3) by (simp add: packet_send_def)
  qed simp
  with assms(5) have bytes: "concat cs = concat (map packet_bytes ps)" by simp
  have start: "parse_loop (cb f) [] s = Inr ([], s)" by (rule parse_loop_partial) simp
  have "feed (parse_loop (cb f)) cs [] s = Inr ([], fold (cb f) ps s)"
    using pp.feed_eq_parse [OF start, of cs] parse_loop_packets [OF assms(3), of "cb f" "[]" s] bytes
    by (simp add: parse_loop_partial)
  with receive_all_feed [OF assms(1,6), of cb s] assms(2) show ?thesis by auto
qed

theorem sent_packets_arrive_witness:
  "\<exists>m'. receive_all 5 [packet_bytes hello_packet] collect (addClient 5 [] empty_client_manager) []
      = Inr (m', [hello_packet])"
proof -
  have len: "length (packet_bytes hello_packet) = 9"
    using length_header_bytes [of "header hello_packet"] by (simp add: hello_bytes HEADER_SIZE_def)
  have c: "getClient 5 (addClient 5 [] empty_client_manager) = Some (new_client 5 [])"
    by (simp add: client_simps)
  have run: "list_all2 (\<lambda>p (as, out). kernel_ok (length (packet_bytes p)) as
           \<and> packet_send p as = (Sent_All, out)) [hello_packet] [([Sent 9], packet_bytes hello_packet)]"
    using len by (simp add: packet_send_def)
  have ne: "packet_bytes hello_packet \<noteq> []" using len by auto
  show ?thesis
    using sent_packets_arrive [OF c _ _ run, of "[packet_bytes hello_packet]" collect "[]"]
      hello_packet_ok ne
    by (auto simp: new_client_def collect_def)
qed

section \<open>Two workers, one socket\<close>

definition overlapped_bytes :: string where
  "overlapped_bytes =
     take 2 (packet_bytes hello_packet) @ packet_bytes hello_packet @ drop 2 (packet_bytes hello_packet)"

text \<open>
  Concurrent sends to one client can corrupt the stream: nothing serialises the calls, and two
  workers that each send the well-formed packet \<open>hello\<close> can put bytes on the wire from which the receiver
  does not get two packets \<open>hello\<close> (the first worker's call accepted two bytes, then the second worker
  sent all of its packet).
\<close>

theorem concurrent_sends_corrupt:
  shows "two_senders (packet_bytes hello_packet) (packet_bytes hello_packet) overlapped_bytes
         \<and> parse_loop (collect 5) overlapped_bytes [] \<noteq> Inr ([], [hello_packet, hello_packet])"
proof -
  let ?b = "packet_bytes hello_packet"
  have len: "length ?b = 9"
    using length_header_bytes [of "header hello_packet"] by (simp add: hello_bytes HEADER_SIZE_def)
  have ne: "?b \<noteq> []" "take 2 ?b \<noteq> []" "drop 2 ?b \<noteq> []" using len by auto
  from first_sends [OF ne(3) both_done] have "two_senders (drop 2 ?b) [] (drop 2 ?b)" by simp
  from second_sends [OF ne(1) this] have "two_senders (drop 2 ?b) ?b (?b @ drop 2 ?b)" by simp
  from first_sends [OF ne(2) this] have senders: "two_senders ?b ?b overlapped_bytes"
    by (simp add: overlapped_bytes_def)
  have h: "?b = [CHR 0x04, CHR 0x4D, CHR 0x00, CHR 0x05] @ ''hello''"
    unfolding hello_bytes by code_simp
  have "parse_loop (collect 5) overlapped_bytes [] = Inr (overlapped_bytes, [])"
    by (rule parse_loop_partial) (simp add: partial_packet_def HEADER_SIZE_def overlapped_bytes_def h
        read_size_def unat_ntohs_load16)
  with senders show ?thesis by simp
qed

end
