(* ===== verification/Network_Client.thy ===== *)
theory Network_Client
  imports Protocol Packet_Sender
begin

text \<open>
  \<open>client/src/network/NetworkClient.cpp\<close>: the client's blocking connection.

  The bytes the server will have sent until it closes the connection are the field \<open>inbox\<close>: a \<open>recv\<close>
  with \<open>MSG_WAITALL\<close> returns the bytes it was asked for, or what is left when the stream ends first (an
  error of the connection ends the stream too). The answers of the kernel to \<open>send\<close> are an argument, as for
  the server's sender; the client gives up on any error. \<open>sent\<close> records the bytes the kernel accepted.
\<close>

record network_client =
  m_connected :: bool
  inbox :: string
  sent :: string

definition nc_new :: network_client where
  "nc_new = \<lparr>m_connected = False, inbox = [], sent = []\<rparr>"

text \<open>The result of \<open>socket\<close> and \<open>connect\<close>, and the stream a successful connection will deliver.\<close>

definition nc_Connect :: "bool \<Rightarrow> bool \<Rightarrow> string \<Rightarrow> network_client \<Rightarrow> bool \<times> network_client" where
  "nc_Connect socket_ok connect_ok stream c =
     (if \<not> socket_ok then (False, c\<lparr>m_connected := False\<rparr>)
      else if \<not> connect_ok then (False, c\<lparr>m_connected := False\<rparr>)
      else (True, c\<lparr>m_connected := True, inbox := stream\<rparr>))"

definition nc_Close :: "network_client \<Rightarrow> network_client" where
  "nc_Close c = (if m_connected c then c\<lparr>m_connected := False\<rparr> else c)"

definition nc_IsConnected :: "network_client \<Rightarrow> bool" where
  "nc_IsConnected c = m_connected c"

text \<open>A \<open>recv(fd, buf, n, MSG_WAITALL)\<close>; on a closed descriptor it fails.\<close>

definition recv_waitall :: "nat \<Rightarrow> network_client \<Rightarrow> string \<times> network_client" where
  "recv_waitall n c =
     (if m_connected c then (take n (inbox c), c\<lparr>inbox := drop n (inbox c)\<rparr>) else ([], c))"

definition nc_Receive :: "network_client \<Rightarrow> packet option \<times> network_client" where
  "nc_Receive c =
     (case recv_waitall HEADER_SIZE c of
        (hdr, c1) \<Rightarrow>
          if length hdr \<noteq> HEADER_SIZE then (None, nc_Close c1)
          else
            let t = read_type hdr; n = read_size hdr in
            if unat n > 0 then
              (if unat n > MAX_PAYLOAD_SIZE then (None, nc_Close c1)
               else
                 (case recv_waitall (unat n) c1 of
                    (body, c2) \<Rightarrow>
                      if length body \<noteq> unat n then (None, nc_Close c2)
                      else (Some (mk_packet t n body), c2)))
            else (Some (mk_packet t n []), c1))"

fun nc_send_loop :: "string \<Rightarrow> nat \<Rightarrow> send_answer list \<Rightarrow> bool option \<times> string" where
  "nc_send_loop buffer total_sent [] =
     (if total_sent < length buffer then (None, []) else (Some True, []))"
| "nc_send_loop buffer total_sent (a # as) =
     (if total_sent < length buffer then
        (case a of
           Sent n \<Rightarrow>
             (case nc_send_loop buffer (total_sent + n) as of
                (st, out) \<Rightarrow> (st, take n (drop total_sent buffer) @ out))
         | _ \<Rightarrow> (Some False, []))
      else (Some True, []))"

text \<open>The result is \<open>None\<close> while the kernel has not answered yet.\<close>

definition nc_Send :: "packet \<Rightarrow> send_answer list \<Rightarrow> network_client \<Rightarrow> bool option \<times> network_client" where
  "nc_Send p as c =
     (if \<not> m_connected c then (Some False, c)
      else if pkt_size p > MAX_PAYLOAD_SIZE then (Some False, c)
      else (case nc_send_loop (packet_bytes p) 0 as of
              (st, out) \<Rightarrow> (st, c\<lparr>sent := sent c @ out\<rparr>)))"

section \<open>Receiving\<close>

lemma recv_waitall_exact:
  "m_connected c \<Longrightarrow> inbox c = xs @ ys \<Longrightarrow> n = length xs \<Longrightarrow>
   recv_waitall n c = (xs, c\<lparr>inbox := ys\<rparr>)"
  by (simp add: recv_waitall_def)

lemma nc_Receive_packet:
  assumes "wf_packet p" and "canonical_type (pkt_type p)"
    and "m_connected c" and "inbox c = packet_bytes p @ rest"
  shows "nc_Receive c = (Some p, c\<lparr>inbox := rest\<rparr>)"
proof -
  have size: "pkt_size p = length (payload p)" "length (payload p) \<le> MAX_PAYLOAD_SIZE"
    using assms(1) by (simp_all add: wf_packet_def)
  have box: "inbox c = header_bytes (header p) @ payload p @ rest"
    using assms by (simp add: packet_bytes_wf)
  have h: "recv_waitall HEADER_SIZE c = (header_bytes (header p), c\<lparr>inbox := payload p @ rest\<rparr>)"
    by (rule recv_waitall_exact [OF assms(3) box]) simp
  have rd: "read_type (header_bytes (header p)) = pkt_type p" "read_size (header_bytes (header p)) = psize (header p)"
    using read_type_header [of "header p" "[]"] read_size_header [of "header p" "[]"] assms(2)
    by (simp_all add: canonical_type_def)
  have b: "recv_waitall (pkt_size p) (c\<lparr>inbox := payload p @ rest\<rparr>) = (payload p, c\<lparr>inbox := rest\<rparr>)"
    by (subst recv_waitall_exact) (simp_all add: assms(3) size)
  have p: "mk_packet (pkt_type p) (psize (header p)) (payload p) = p"
    by (simp add: mk_packet_def)
  show ?thesis
  proof (cases "pkt_size p = 0")
    case True
    then have "payload p = []" using size by simp
    with True p show ?thesis by (simp add: nc_Receive_def h rd Let_def)
  next
    case False
    with b p size show ?thesis by (simp add: nc_Receive_def h rd Let_def)
  qed
qed

text \<open>A header read from four bytes has these bytes as its image.\<close>

lemma store16_load16: "store16 (load16 a b) = [a, b]"
proof -
  have ab: "(of_char a :: nat) < 256" "(of_char b :: nat) < 256" by simp_all
  have "unat (load16 a b) = of_char a + 256 * of_char b" by (rule unat_load16)
  then have lo: "unat (load16 a b) mod 256 = of_char a" and hi: "unat (load16 a b) div 256 = of_char b"
    using ab by simp_all
  have "char_of (unat (load16 a b)) = char_of (unat (load16 a b) mod 256)"
    by (simp only: char_of_mod_256)
  then have "char_of (unat (load16 a b)) = a" "char_of (unat (load16 a b) div 256) = b"
    unfolding lo hi by simp_all
  then show ?thesis by (simp add: store16_def)
qed

lemma header_bytes_read:
  assumes "length hdr = HEADER_SIZE"
  shows "header_bytes \<lparr>ptype = read_type hdr, psize = read_size hdr\<rparr> = hdr"
proof -
  from assms obtain a b c d where hdr: "hdr = [a, b, c, d]"
    by (auto simp: HEADER_SIZE_def numeral_eq_Suc length_Suc_conv)
  have "htons (ntohs w) = w" for w using ntohs_htons [of w] by (simp add: ntohs_eq_htons)
  then show ?thesis
    by (simp add: header_bytes_def read_type_def read_size_def hdr store16_load16)
qed

text \<open>What the client accepts is well formed, and a refusal closes the connection.\<close>

lemma nc_Receive_Some:
  assumes "nc_Receive c = (Some p, c')"
  shows "wf_packet p \<and> canonical_type (pkt_type p) \<and> m_connected c \<and> m_connected c'
    \<and> inbox c = packet_bytes p @ inbox c' \<and> sent c' = sent c"
proof -
  have conn: "m_connected c"
    using assms by (cases "m_connected c") (auto simp: nc_Receive_def recv_waitall_def HEADER_SIZE_def)
  let ?h = "take HEADER_SIZE (inbox c)"
  let ?r = "drop HEADER_SIZE (inbox c)"
  let ?n = "read_size ?h"
  have len: "length ?h = HEADER_SIZE" and small: "unat ?n \<le> MAX_PAYLOAD_SIZE"
    and body: "length (take (unat ?n) ?r) = unat ?n"
    and p: "p = mk_packet (read_type ?h) ?n (take (unat ?n) ?r)"
    and c': "c' = c\<lparr>inbox := drop (unat ?n) ?r\<rparr>"
    using assms conn
    by (auto simp: nc_Receive_def recv_waitall_def Let_def split: if_splits)
  have wf: "wf_packet p" using small body by (simp add: p wf_packet_def)
  have "packet_bytes p = ?h @ take (unat ?n) ?r"
    using header_bytes_read [OF len] by (simp add: packet_bytes_wf [OF wf]) (simp add: p)
  moreover have "inbox c = (?h @ take (unat ?n) ?r) @ drop (unat ?n) ?r"
    by (simp only: append.assoc append_take_drop_id)
  ultimately have "inbox c = packet_bytes p @ inbox c'" by (simp only: c') simp
  with wf conn show ?thesis by (simp add: c') (simp add: p read_type_def)
qed

lemma nc_Receive_None:
  "nc_Receive c = (None, c') \<Longrightarrow> \<not> m_connected c' \<and> sent c' = sent c"
  by (auto simp: nc_Receive_def recv_waitall_def nc_Close_def Let_def split: if_splits)

section \<open>Sending\<close>

lemma nc_send_loop_prefix:
  assumes "kernel_ok (length buffer - t) as" and "t \<le> length buffer"
  shows "(\<exists>n. snd (nc_send_loop buffer t as) = take n (drop t buffer)) \<and>
           (fst (nc_send_loop buffer t as) = Some True \<longrightarrow> snd (nc_send_loop buffer t as) = drop t buffer)"
  using assms
proof (induction buffer t as rule: nc_send_loop.induct)
  case (1 buffer t)
  then show ?case by (auto intro: exI [of _ 0])
next
  case (2 buffer t a as)
  show ?case
  proof (cases "t < length buffer \<and> (\<exists>n. a = Sent n)")
    case False
    then show ?thesis using 2 by (cases a) (auto intro: exI [of _ 0])
  next
    case True
    then obtain n where t: "t < length buffer" and Sent: "a = Sent n" by blast
    obtain st out where l: "nc_send_loop buffer (t + n) as = (st, out)" by force
    from 2 t Sent have k: "kernel_ok (length buffer - (t + n)) as" by simp
    from 2 t Sent have k2: "t + n \<le> length buffer" by simp linarith
    from "2.IH" [OF t Sent k k2] obtain m where
      ih: "snd (nc_send_loop buffer (t + n) as) = take m (drop (t + n) buffer)"
        "fst (nc_send_loop buffer (t + n) as) = Some True \<longrightarrow>
           snd (nc_send_loop buffer (t + n) as) = drop (t + n) buffer" by blast
    from ih l have m: "out = take m (drop (t + n) buffer)" by simp
    from ih l have all: "st = Some True \<longrightarrow> out = drop (t + n) buffer" by simp
    have "take n (drop t buffer) @ out = take (n + m) (drop t buffer)"
      and "st = Some True \<longrightarrow> take n (drop t buffer) @ out = drop t buffer"
      using m all chunk_take chunk_drop by auto
    with t Sent l show ?thesis by auto
  qed
qed

end
