(* ===== verification/Client_Packets.thy ===== *)
theory Client_Packets
  imports Json_Parser Json_Dump Protocol Packet_Receiver
begin

text \<open>
  \<open>client/src/core/Message.cpp\<close> and \<open>client/src/network/PacketHandler.cpp\<close>: the message the client displays, the packets it
  builds and the packets it reads.

  A builder copies the whole JSON text into the 1024-byte payload without a check, so a longer text is a
  memory error; \<open>dump\<close> throws on text that is not UTF-8. A reader catches \<open>parse_error\<close> only. Everything
  thrown past these functions ends the client: it is a value of \<open>client_exn\<close>.
\<close>

datatype client_exn = Json_Exn json_error | Memory_Exn memory_error

section \<open>Messages\<close>

datatype message_type = CHAT | SYSTEM | USER_JOIN | USER_EXIT

record message =
  m_content :: string
  m_sender_nickname :: string
  m_sender_ip :: string
  m_timestamp :: string
  m_sender_fd :: c_int
  m_type :: message_type

definition default_message :: message where
  "default_message =
     \<lparr>m_content = [], m_sender_nickname = [], m_sender_ip = [], m_timestamp = [], m_sender_fd = -1,
      m_type = CHAT\<rparr>"

definition new_message ::
  "string \<Rightarrow> string \<Rightarrow> string \<Rightarrow> string \<Rightarrow> c_int \<Rightarrow> message_type \<Rightarrow> message" where
  "new_message nick ipaddr content ts f t =
     \<lparr>m_content = content, m_sender_nickname = nick, m_sender_ip = ipaddr, m_timestamp = ts,
      m_sender_fd = f, m_type = t\<rparr>"

definition content_message :: "string \<Rightarrow> message" where
  "content_message content = default_message\<lparr>m_content := content, m_type := CHAT\<rparr>"

definition SetContent :: "string \<Rightarrow> message \<Rightarrow> message" where
  "SetContent content m = m\<lparr>m_content := content\<rparr>"

definition SetSenderNickname :: "string \<Rightarrow> message \<Rightarrow> message" where
  "SetSenderNickname nick m = m\<lparr>m_sender_nickname := nick\<rparr>"

definition SetSenderIp :: "string \<Rightarrow> message \<Rightarrow> message" where
  "SetSenderIp ipaddr m = m\<lparr>m_sender_ip := ipaddr\<rparr>"

definition SetTimestamp :: "string \<Rightarrow> message \<Rightarrow> message" where
  "SetTimestamp ts m = m\<lparr>m_timestamp := ts\<rparr>"

definition SetSenderFd :: "c_int \<Rightarrow> message \<Rightarrow> message" where
  "SetSenderFd f m = m\<lparr>m_sender_fd := f\<rparr>"

definition SetType :: "message_type \<Rightarrow> message \<Rightarrow> message" where
  "SetType t m = m\<lparr>m_type := t\<rparr>"

text \<open>Every message can be built by setters, in any order that ends with each field set once.\<close>

lemma new_message_by_setters:
  "new_message nick ipaddr content ts f t =
     SetType t (SetSenderFd f (SetTimestamp ts (SetSenderIp ipaddr (SetSenderNickname nick (content_message content)))))"
  by (simp add: new_message_def SetType_def SetSenderFd_def SetTimestamp_def SetSenderIp_def SetSenderNickname_def
      content_message_def default_message_def)

text \<open>The UTF-8 bytes of the Korean texts.\<close>

definition system_tag :: string where
  "system_tag = map char_of [0x5B :: nat, 0xEC, 0x8B, 0x9C, 0xEC, 0x8A, 0xA4, 0xED, 0x85, 0x9C, 0x5D, 0x20]"

definition entered_text :: string where
  "entered_text = map char_of
     [0xEB :: nat, 0x8B, 0x98, 0xEC, 0x9D, 0xB4, 0x20, 0xEC, 0x9E, 0x85, 0xEC, 0x9E, 0xA5, 0xED, 0x95, 0x98,
      0xEC, 0x85, 0xA8, 0xEC, 0x8A, 0xB5, 0xEB, 0x8B, 0x88, 0xEB, 0x8B, 0xA4, 0x2E]"

definition left_text :: string where
  "left_text = map char_of
     [0xEB :: nat, 0x8B, 0x98, 0xEC, 0x9D, 0xB4, 0x20, 0xED, 0x87, 0xB4, 0xEC, 0x9E, 0xA5, 0xED, 0x95, 0x98,
      0xEC, 0x85, 0xA8, 0xEC, 0x8A, 0xB5, 0xEB, 0x8B, 0x88, 0xEB, 0x8B, 0xA4, 0x2E]"

definition me_text :: string where
  "me_text = map char_of [0x5B :: nat, 0xEB, 0x82, 0x98, 0x5D, 0x20, 0x3E, 0x20]"

definition FormatForDisplay :: "bool \<Rightarrow> message \<Rightarrow> string" where
  "FormatForDisplay is_mine m =
     (case m_type m of
        USER_JOIN \<Rightarrow> system_tag @ m_sender_nickname m @ entered_text
      | USER_EXIT \<Rightarrow> system_tag @ m_sender_nickname m @ left_text
      | SYSTEM \<Rightarrow> system_tag @ m_content m
      | CHAT \<Rightarrow>
          ''['' @ m_timestamp m @ '']'' @
          (if is_mine then me_text @ m_content m
           else ''['' @ m_sender_nickname m @ ''('' @ m_sender_ip m @ '')] > '' @ m_content m))"

section \<open>Reading packets\<close>

definition message_type_of :: "packet_type \<Rightarrow> message_type" where
  "message_type_of t =
     (if t = ROOM_USER_JOIN then USER_JOIN
      else if t = ROOM_USER_EXIT then USER_EXIT
      else if t = MESSAGE_SYSTEM then SYSTEM
      else CHAT)"

text \<open>The body of the \<open>try\<close> block of \<open>ParseMessagePacket\<close>.\<close>

definition message_of_json :: "(u64 \<Rightarrow> c_int) \<Rightarrow> packet_type \<Rightarrow> json \<Rightarrow> json_error + message" where
  "message_of_json out_of_range t data =
     (case value_string data ''timestamp'' [] of Inl e \<Rightarrow> Inl e | Inr ts \<Rightarrow>
      (case value_string data ''sender_nickname'' [] of Inl e \<Rightarrow> Inl e | Inr nick \<Rightarrow>
       (case value_string data ''sender_ip'' [] of Inl e \<Rightarrow> Inl e | Inr addr \<Rightarrow>
        (case value_string data ''message'' [] of Inl e \<Rightarrow> Inl e | Inr content \<Rightarrow>
         (case value_int out_of_range data ''sender_fd'' (-1) of Inl e \<Rightarrow> Inl e | Inr f \<Rightarrow>
            if message_type_of t = USER_JOIN \<or> message_type_of t = USER_EXIT then
              (case value_string data ''nickname'' [] of Inl e \<Rightarrow> Inl e | Inr nick' \<Rightarrow>
               (case value_int out_of_range data ''clientFd'' (-1) of Inl e \<Rightarrow> Inl e | Inr f' \<Rightarrow>
                  Inr (new_message nick' addr content ts f' (message_type_of t))))
            else Inr (new_message nick addr content ts f (message_type_of t)))))))"

definition ParseMessagePacket :: "(u64 \<Rightarrow> c_int) \<Rightarrow> packet \<Rightarrow> client_exn + message" where
  "ParseMessagePacket out_of_range p =
     (case json_parse (payload_str p) of
        Inl e \<Rightarrow> if is_parse_error e then Inr default_message else Inl (Json_Exn e)
      | Inr data \<Rightarrow>
          (case message_of_json out_of_range (pkt_type p) data of
             Inl e \<Rightarrow> if is_parse_error e then Inr default_message else Inl (Json_Exn e)
           | Inr m \<Rightarrow> Inr m))"

definition ParseRoomResponsePacket :: "packet \<Rightarrow> client_exn + string" where
  "ParseRoomResponsePacket p =
     (if pkt_size p = 0 then Inr []
      else
        (case json_parse (payload_str p) of
           Inl e \<Rightarrow> if is_parse_error e then Inr [] else Inl (Json_Exn e)
         | Inr data \<Rightarrow>
             (case value_string data ''roomCode'' [] of
                Inl e \<Rightarrow> if is_parse_error e then Inr [] else Inl (Json_Exn e)
              | Inr code \<Rightarrow> Inr code)))"

section \<open>Building packets\<close>

text \<open>\<open>memcpy(packet.payload, payload.c_str(), payload.length())\<close>.\<close>

definition copy_payload :: "packet_type \<Rightarrow> string \<Rightarrow> client_exn + packet" where
  "copy_payload t s =
     (if length s > MAX_PAYLOAD_SIZE then Inl (Memory_Exn (Stack_Overflow (length s - MAX_PAYLOAD_SIZE)))
      else Inr (text_packet t s))"

definition json_packet ::
  "(u64 \<Rightarrow> string) \<Rightarrow> packet_type \<Rightarrow> (string \<times> json) list \<Rightarrow> client_exn + packet" where
  "json_packet dt t kvs =
     (case json_puts kvs JNull of
        Inl e \<Rightarrow> Inl (Json_Exn e)
      | Inr data \<Rightarrow>
          (case dump_json dt data of Inl e \<Rightarrow> Inl (Json_Exn e) | Inr s \<Rightarrow> copy_payload t s))"

definition CreateNicknameRequestPacket :: "(u64 \<Rightarrow> string) \<Rightarrow> string \<Rightarrow> client_exn + packet" where
  "CreateNicknameRequestPacket dt nick = json_packet dt NICKNAME_REQUEST [(''nickname'', JString nick)]"

definition CreateMessageSendPacket :: "(u64 \<Rightarrow> string) \<Rightarrow> string \<Rightarrow> client_exn + packet" where
  "CreateMessageSendPacket dt msg = json_packet dt MESSAGE_SEND [(''message'', JString msg)]"

definition CreateRoomCreatePacket :: "(u64 \<Rightarrow> string) \<Rightarrow> string \<Rightarrow> c_int \<Rightarrow> client_exn + packet" where
  "CreateRoomCreatePacket dt name maxUsers =
     json_packet dt CREATE_ROOM [(''roomName'', JString name), (''maxUsers'', JInteger (scast maxUsers))]"

definition CreateRoomJoinPacket :: "(u64 \<Rightarrow> string) \<Rightarrow> string \<Rightarrow> client_exn + packet" where
  "CreateRoomJoinPacket dt code = json_packet dt JOIN_ROOM [(''roomCode'', JString code)]"

definition CreateRoomExitPacket :: packet where
  "CreateRoomExitPacket = mk_packet EXIT_ROOM 0 []"

lemma json_packet_wf: "json_packet dt t kvs = Inr p \<Longrightarrow> wf_packet p \<and> pkt_type p = t"
  by (auto simp: json_packet_def copy_payload_def wf_text_packet split: sum.splits if_splits)

end
