(* ===== verification/Client_Services.thy ===== *)
theory Client_Services
  imports Network_Client Client_Packets
begin

text \<open>
  \<open>client/src/core\<close>: \<open>ConnectionService\<close>, \<open>RoomService\<close> and \<open>ChatService\<close>, the operations behind the client's screens.

  A service call sends one request and waits for one packet. Its result is \<open>None\<close> while the kernel has
  not accepted the request, \<open>Some (Inl e)\<close> when an exception leaves it, and otherwise the returned value.
  The texts written to the console are not modelled. \<open>m_network_client\<close> is never null.
\<close>

section \<open>The user\<close>

text \<open>\<open>client/include/core/User.h\<close>. Nobody sets the address.\<close>

record user =
  m_nickname :: string
  m_ip_address :: string

definition no_user :: user where
  "no_user = \<lparr>m_nickname = [], m_ip_address = []\<rparr>"

definition named_user :: "string \<Rightarrow> user" where
  "named_user nick = \<lparr>m_nickname = nick, m_ip_address = []\<rparr>"

definition new_user :: "string \<Rightarrow> string \<Rightarrow> user" where
  "new_user nick ipaddr = \<lparr>m_nickname = nick, m_ip_address = ipaddr\<rparr>"

definition SetNickname :: "string \<Rightarrow> user \<Rightarrow> user" where
  "SetNickname nick u = u\<lparr>m_nickname := nick\<rparr>"

definition SetIpAddress :: "string \<Rightarrow> user \<Rightarrow> user" where
  "SetIpAddress ipaddr u = u\<lparr>m_ip_address := ipaddr\<rparr>"

definition IsValid :: "user \<Rightarrow> bool" where
  "IsValid u \<longleftrightarrow> m_nickname u \<noteq> []"

lemma user_simps [simp]:
  "m_nickname (SetNickname nick u) = nick" "m_ip_address (SetNickname nick u) = m_ip_address u"
  "m_nickname no_user = []" "m_nickname (named_user nick) = nick"
  by (simp_all add: SetNickname_def no_user_def named_user_def)

section \<open>The state of the services\<close>

record client_state =
  net :: network_client
  m_current_user :: user
  m_current_room_code :: string

abbreviation user_nickname :: "client_state \<Rightarrow> string" where
  "user_nickname st \<equiv> m_nickname (m_current_user st)"

section \<open>One request, one packet\<close>

datatype exchange_result = Pending | Send_Refused | No_Response | Response packet

definition exchange :: "packet \<Rightarrow> send_answer list \<Rightarrow> network_client \<Rightarrow> exchange_result \<times> network_client" where
  "exchange p as c =
     (case nc_Send p as c of
        (None, c1) \<Rightarrow> (Pending, c1)
      | (Some False, c1) \<Rightarrow> (Send_Refused, c1)
      | (Some True, c1) \<Rightarrow>
          (case nc_Receive c1 of
             (None, c2) \<Rightarrow> (No_Response, c2)
           | (Some q, c2) \<Rightarrow> (Response q, c2)))"

section \<open>ConnectionService\<close>

definition ValidateNickname :: "string \<Rightarrow> bool" where
  "ValidateNickname nick \<longleftrightarrow> \<not> (nick = [] \<or> length nick > MAX_NICKNAME_LEN)"

lemma ValidateNickname_IsValid: "ValidateNickname nick \<Longrightarrow> IsValid (SetNickname nick u)"
  by (simp add: ValidateNickname_def IsValid_def)

text \<open>Reading the reason of a refusal: only a \<open>parse_error\<close> is caught.\<close>

definition refusal_reason :: "packet \<Rightarrow> client_exn + bool" where
  "refusal_reason q =
     (case json_parse (payload_str q) of
        Inl e \<Rightarrow> if is_parse_error e then Inr False else Inl (Json_Exn e)
      | Inr data \<Rightarrow>
          (case value_string data ''reason'' [] of
             Inl e \<Rightarrow> if is_parse_error e then Inr False else Inl (Json_Exn e)
           | Inr reason \<Rightarrow> Inr False))"

definition RegisterNickname ::
  "(u64 \<Rightarrow> string) \<Rightarrow> string \<Rightarrow> send_answer list \<Rightarrow> client_state
   \<Rightarrow> (client_exn + bool) option \<times> client_state" where
  "RegisterNickname dt nick as st =
     (if \<not> ValidateNickname nick then (Some (Inr False), st)
      else
        (case CreateNicknameRequestPacket dt nick of
           Inl e \<Rightarrow> (Some (Inl e), st)
         | Inr p \<Rightarrow>
             (case exchange p as (net st) of
                (Pending, c) \<Rightarrow> (None, st\<lparr>net := c\<rparr>)
              | (Send_Refused, c) \<Rightarrow> (Some (Inr False), st\<lparr>net := c\<rparr>)
              | (No_Response, c) \<Rightarrow> (Some (Inr False), st\<lparr>net := c\<rparr>)
              | (Response q, c) \<Rightarrow>
                  if pkt_type q = NICKNAME_RESPONSE_OK
                  then (Some (Inr True), st\<lparr>net := c, m_current_user := SetNickname nick (m_current_user st)\<rparr>)
                  else (Some (refusal_reason q), st\<lparr>net := c\<rparr>))))"

text \<open>
  \<open>dial\<close> is what \<open>socket\<close> and \<open>connect\<close> answer for a host and the two bytes of a port, with the stream such a
  connection delivers.
\<close>

definition ConnectToServer ::
  "(string \<Rightarrow> string \<Rightarrow> bool \<times> bool \<times> string) \<Rightarrow> string \<Rightarrow> c_int \<Rightarrow> client_state \<Rightarrow> bool \<times> client_state" where
  "ConnectToServer dial host port st =
     (case dial host (store16 (htons (ucast port))) of
        (socket_ok, connect_ok, stream) \<Rightarrow>
          (case nc_Connect socket_ok connect_ok stream (net st) of (ok, c) \<Rightarrow> (ok, st\<lparr>net := c\<rparr>)))"

definition Disconnect :: "client_state \<Rightarrow> client_state" where
  "Disconnect st = st\<lparr>net := nc_Close (net st)\<rparr>"

definition IsConnected :: "client_state \<Rightarrow> bool" where
  "IsConnected st = nc_IsConnected (net st)"

text \<open>The services as the constructors leave them.\<close>

definition new_services :: client_state where
  "new_services = \<lparr>net = nc_new, m_current_user = no_user, m_current_room_code = []\<rparr>"

section \<open>RoomService\<close>

text \<open>The common part of \<open>CreateRoom\<close> and \<open>JoinRoom\<close>: the reply must be of the success type and carry a code.\<close>

definition room_reply ::
  "packet_type \<Rightarrow> exchange_result \<times> network_client \<Rightarrow> client_state
   \<Rightarrow> (client_exn + string option) option \<times> client_state" where
  "room_reply ok_type r st =
     (case r of
        (Pending, c) \<Rightarrow> (None, st\<lparr>net := c\<rparr>)
      | (Send_Refused, c) \<Rightarrow> (Some (Inr None), st\<lparr>net := c\<rparr>)
      | (No_Response, c) \<Rightarrow> (Some (Inr None), st\<lparr>net := c\<rparr>)
      | (Response q, c) \<Rightarrow>
          if pkt_type q = ok_type then
            (case ParseRoomResponsePacket q of
               Inl e \<Rightarrow> (Some (Inl e), st\<lparr>net := c\<rparr>)
             | Inr code \<Rightarrow>
                 if code \<noteq> [] then (Some (Inr (Some code)), st\<lparr>net := c, m_current_room_code := code\<rparr>)
                 else (Some (Inr None), st\<lparr>net := c\<rparr>))
          else (Some (Inr None), st\<lparr>net := c\<rparr>))"

definition CreateRoom ::
  "(u64 \<Rightarrow> string) \<Rightarrow> string \<Rightarrow> c_int \<Rightarrow> send_answer list \<Rightarrow> client_state
   \<Rightarrow> (client_exn + string option) option \<times> client_state" where
  "CreateRoom dt name maxUsers as st =
     (case CreateRoomCreatePacket dt name maxUsers of
        Inl e \<Rightarrow> (Some (Inl e), st)
      | Inr p \<Rightarrow> room_reply ROOM_CREATE_OK (exchange p as (net st)) st)"

definition JoinRoom ::
  "(u64 \<Rightarrow> string) \<Rightarrow> string \<Rightarrow> send_answer list \<Rightarrow> client_state
   \<Rightarrow> (client_exn + string option) option \<times> client_state" where
  "JoinRoom dt code as st =
     (case CreateRoomJoinPacket dt code of
        Inl e \<Rightarrow> (Some (Inl e), st)
      | Inr p \<Rightarrow> room_reply ROOM_JOIN_OK (exchange p as (net st)) st)"

definition IsInRoom :: "client_state \<Rightarrow> bool" where
  "IsInRoom st \<longleftrightarrow> m_current_room_code st \<noteq> []"

definition ExitRoom :: "send_answer list \<Rightarrow> client_state \<Rightarrow> (client_exn + bool) option \<times> client_state" where
  "ExitRoom as st =
     (if m_current_room_code st = [] then (Some (Inr False), st)
      else
        (case exchange CreateRoomExitPacket as (net st) of
           (Pending, c) \<Rightarrow> (None, st\<lparr>net := c\<rparr>)
         | (Send_Refused, c) \<Rightarrow> (Some (Inr False), st\<lparr>net := c\<rparr>)
         | (No_Response, c) \<Rightarrow> (Some (Inr False), st\<lparr>net := c\<rparr>)
         | (Response q, c) \<Rightarrow>
             if pkt_type q = ROOM_EXIT_OK
             then (Some (Inr True), st\<lparr>net := c, m_current_room_code := []\<rparr>)
             else (Some (Inr False), st\<lparr>net := c\<rparr>)))"

section \<open>ChatService\<close>

definition SendMessage ::
  "(u64 \<Rightarrow> string) \<Rightarrow> string \<Rightarrow> send_answer list \<Rightarrow> client_state
   \<Rightarrow> (client_exn + bool) option \<times> client_state" where
  "SendMessage dt content as st =
     (if content = [] then (Some (Inr False), st)
      else
        (case CreateMessageSendPacket dt content of
           Inl e \<Rightarrow> (Some (Inl e), st)
         | Inr p \<Rightarrow>
             (case nc_Send p as (net st) of
                (r, c) \<Rightarrow> (map_option Inr r, st\<lparr>net := c\<rparr>))))"

definition displayed_type :: "packet_type \<Rightarrow> bool" where
  "displayed_type t \<longleftrightarrow>
     t = MESSAGE_CHAT \<or> t = ROOM_USER_JOIN \<or> t = ROOM_USER_EXIT \<or> t = MESSAGE_SYSTEM"

text \<open>
  \<open>ReceiveLoop\<close> while nobody calls \<open>StopReceiving\<close>, with the messages handed to the callback so far. An
  exception of the parser is not caught on the receiver thread.
\<close>

lemma nc_Receive_shorter:
  "nc_Receive c = (Some p, c') \<Longrightarrow> length (inbox c') < length (inbox c)"
  using length_packet_bytes [of p] by (auto dest!: nc_Receive_Some simp: HEADER_SIZE_def)

function receive_loop ::
  "(u64 \<Rightarrow> c_int) \<Rightarrow> message list \<Rightarrow> network_client \<Rightarrow> (client_exn + message list) \<times> network_client" where
  "receive_loop out_of_range ms c =
     (if \<not> m_connected c then (Inr ms, c)
      else
        (case nc_Receive c of
           (None, c1) \<Rightarrow> (Inr ms, c1)
         | (Some p, c1) \<Rightarrow>
             if displayed_type (pkt_type p) then
               (case ParseMessagePacket out_of_range p of
                  Inl e \<Rightarrow> (Inl e, c1)
                | Inr m \<Rightarrow> receive_loop out_of_range (ms @ [m]) c1)
             else receive_loop out_of_range ms c1))"
  by pat_completeness auto
termination
  by (relation "measure (\<lambda>(out_of_range, ms, c). length (inbox c))")
    (auto dest!: sym [of "(Some _, _)"] nc_Receive_shorter)

declare receive_loop.simps [simp del]

definition StartReceiving ::
  "(u64 \<Rightarrow> c_int) \<Rightarrow> network_client \<Rightarrow> (client_exn + message list) \<times> network_client" where
  "StartReceiving out_of_range c = receive_loop out_of_range [] c"

section \<open>Facts\<close>

lemma exchange_Response:
  assumes "exchange p as c = (Response q, c')" and "kernel_ok (length (packet_bytes p)) as"
  shows "m_connected c \<and> pkt_size p \<le> MAX_PAYLOAD_SIZE \<and> sent c' = sent c @ packet_bytes p
    \<and> wf_packet q \<and> inbox c = packet_bytes q @ inbox c' \<and> m_connected c'"
proof -
  obtain st out where l: "nc_send_loop (packet_bytes p) 0 as = (st, out)" by force
  from assms(1) obtain c1 where s: "nc_Send p as c = (Some True, c1)"
    and r: "nc_Receive c1 = (Some q, c')"
    by (auto simp: exchange_def split: prod.splits option.splits bool.splits)
  from s l have "m_connected c" "pkt_size p \<le> MAX_PAYLOAD_SIZE" "st = Some True"
    "c1 = c\<lparr>sent := sent c @ out\<rparr>"
    by (auto simp: nc_Send_def split: if_splits)
  with nc_send_loop_prefix [of "packet_bytes p" 0 as] l assms(2) nc_Receive_Some [OF r]
  show ?thesis by auto
qed

lemma receive_loop_step:
  assumes "wf_packet p" and "canonical_type (pkt_type p)" and "m_connected c"
    and "inbox c = packet_bytes p @ rest"
  shows "receive_loop oo ms c =
    (if displayed_type (pkt_type p) then
       (case ParseMessagePacket oo p of
          Inl e \<Rightarrow> (Inl e, c\<lparr>inbox := rest\<rparr>)
        | Inr m \<Rightarrow> receive_loop oo (ms @ [m]) (c\<lparr>inbox := rest\<rparr>))
     else receive_loop oo ms (c\<lparr>inbox := rest\<rparr>))"
  using nc_Receive_packet [OF assms] assms(3)
  by (subst receive_loop.simps) simp

end
