(* ===== verification/Json_Text.thy ===== *)
theory Json_Text
  imports Json_Dump Json_Lexer
begin

unbundle bit_operations_syntax

text \<open>
  The strings the serializer accepts and what it writes for them: a string is dumped exactly if it is a
  sequence of UTF-8 characters, and then each character is escaped on its own. The character classes are
  those of the scanner (\<open>lead_ranges\<close>), so this is also where the tables of the two decoders of the library
  are shown to agree.
\<close>

section \<open>UTF-8 characters\<close>

definition char_ranges :: "nat \<Rightarrow> (nat \<times> nat) list option" where
  "char_ranges b = (if b < 0x80 then Some [] else lead_ranges b)"

definition in_range :: "nat \<times> nat \<Rightarrow> char \<Rightarrow> bool" where
  "in_range r c \<longleftrightarrow> fst r \<le> byte_of c \<and> byte_of c \<le> snd r"

definition utf8_char :: "string \<Rightarrow> bool" where
  "utf8_char x = (case x of [] \<Rightarrow> False
     | c # ks \<Rightarrow> (case char_ranges (byte_of c) of None \<Rightarrow> False | Some rs \<Rightarrow> list_all2 in_range rs ks))"

definition escape_char :: "string \<Rightarrow> string" where
  "escape_char x = (case x of [c] \<Rightarrow> escape_codepoint (byte_of c) c | _ \<Rightarrow> x)"

inductive utf8_escaped :: "string \<Rightarrow> string \<Rightarrow> bool" where
  escaped_Nil: "utf8_escaped [] []"
| escaped_char: "utf8_char x \<Longrightarrow> utf8_escaped s t \<Longrightarrow> utf8_escaped (x @ s) (escape_char x @ t)"

section \<open>The decoder's states\<close>

text \<open>
  The bytes a state of the serializer's decoder still expects; the row of the state in the table accepts
  exactly these.
\<close>

definition state_ranges :: "nat \<Rightarrow> (nat \<times> nat) list option" where
  "state_ranges st =
     (if st = 0 then Some []
      else if st = 2 then Some [(0x80, 0xBF)]
      else if st = 3 then Some [(0x80, 0xBF), (0x80, 0xBF)]
      else if st = 4 then Some [(0xA0, 0xBF), (0x80, 0xBF)]
      else if st = 5 then Some [(0x80, 0x9F), (0x80, 0xBF)]
      else if st = 6 then Some [(0x90, 0xBF), (0x80, 0xBF), (0x80, 0xBF)]
      else if st = 7 then Some [(0x80, 0xBF), (0x80, 0xBF), (0x80, 0xBF)]
      else if st = 8 then Some [(0x80, 0x8F), (0x80, 0xBF), (0x80, 0xBF)]
      else None)"

definition next_state_ok :: "nat \<Rightarrow> nat \<Rightarrow> bool" where
  "next_state_ok st b \<longleftrightarrow>
     (case state_ranges st of
        None \<Rightarrow> True
      | Some [] \<Rightarrow> state_ranges (utf8_states ! 0 ! utf8_type b) = char_ranges b
      | Some (r # rs) \<Rightarrow>
          state_ranges (utf8_states ! st ! utf8_type b) =
            (if fst r \<le> b \<and> b \<le> snd r then Some rs else None))
     \<and> utf8_states ! st ! utf8_type b < 9"

lemma byte_classes:
  "b < 256 \<Longrightarrow> b < 0x80 \<or> 0x80 \<le> b \<and> b < 0x90 \<or> 0x90 \<le> b \<and> b < 0xA0 \<or> 0xA0 \<le> b \<and> b < 0xC0 \<or>
     0xC0 \<le> b \<and> b < 0xC2 \<or> 0xC2 \<le> b \<and> b < 0xE0 \<or> b = 0xE0 \<or> 0xE0 < b \<and> b < 0xED \<or> b = 0xED \<or>
     0xED < b \<and> b < 0xF0 \<or> b = 0xF0 \<or> 0xF0 < b \<and> b < 0xF4 \<or> b = 0xF4 \<or> 0xF4 < (b :: nat)"
  by linarith

lemma table_row: "st < 9 \<Longrightarrow> st \<in> {0, 1, 2, 3, 4, 5, 6, 7, 8 :: nat}"
  by auto

lemma next_state_aux: "st < 9 \<Longrightarrow> b < 256 \<Longrightarrow> next_state_ok st b"
  apply (drule table_row)
  apply (drule byte_classes)
  apply (simp only: insert_iff empty_iff)
  apply (elim disjE conjE FalseE;
      simp add: next_state_ok_def utf8_type_def utf8_states_def state_ranges_def char_ranges_def lead_ranges_def)
  done

lemma next_state: "st < 9 \<Longrightarrow> next_state_ok st (byte_of c)"
  by (simp add: next_state_aux)

lemma next_state_first:
  "state_ranges (utf8_states ! 0 ! utf8_type (byte_of c)) = char_ranges (byte_of c)"
  "utf8_states ! 0 ! utf8_type (byte_of c) < 9"
  using next_state [of 0 c] by (simp_all add: next_state_ok_def state_ranges_def)

lemma next_state_more:
  assumes "state_ranges st = Some (r # rs)" and "st < 9"
  shows "state_ranges (utf8_states ! st ! utf8_type (byte_of c)) = (if in_range r c then Some rs else None)"
    and "utf8_states ! st ! utf8_type (byte_of c) < 9"
  using next_state [OF assms(2), of c] assms(1) by (simp_all add: next_state_ok_def in_range_def)

lemma state_reject: "st < 9 \<Longrightarrow> state_ranges st = None \<longleftrightarrow> st = 1"
  by (auto simp: state_ranges_def)

lemma state_more: "state_ranges st = Some (r # rs) \<Longrightarrow> st \<noteq> 0 \<and> st \<noteq> 1"
  by (cases "st = 0"; cases "st = 1") (simp_all add: state_ranges_def)

lemma state_accept: "state_ranges st = Some [] \<longleftrightarrow> st = 0"
  by (auto simp: state_ranges_def)

section \<open>The code point\<close>

lemma codepoint_step: "((b AND 0x3F) OR push_bit 6 cp :: nat) = b mod 64 + 64 * cp"
proof -
  have "(b AND 0x3F) = take_bit 6 b" by (simp add: take_bit_eq_mask mask_eq_exp_minus_1)
  moreover have "take_bit 6 b OR push_bit 6 cp = take_bit 6 b + push_bit 6 cp"
    by (rule disjunctive_add_eq_or [symmetric]) (auto simp: bit_eq_iff bit_simps)
  ultimately show ?thesis by (simp add: take_bit_eq_mod push_bit_eq_mult mult.commute)
qed

lemma mask_mod: "(0x3F AND b :: nat) = b mod 64" "(0x1F AND b :: nat) = b mod 32" "(3 AND b :: nat) = b mod 4"
  using take_bit_eq_mask [of 6 b] take_bit_eq_mask [of 5 b] take_bit_eq_mask [of 2 b]
  by (simp_all add: mask_eq_exp_minus_1 take_bit_eq_mod and.commute)

text \<open>A lower bound that keeps the code point of a longer character above the escaped ones.\<close>

definition codepoint_ok :: "nat \<Rightarrow> nat \<Rightarrow> bool" where
  "codepoint_ok st cp \<longleftrightarrow> (st = 2 \<longrightarrow> 2 \<le> cp) \<and> (st = 3 \<or> st = 5 \<or> st = 7 \<or> st = 8 \<longrightarrow> 1 \<le> cp)"

lemma mod_interval: "k * n \<le> b \<Longrightarrow> b < k * n + n \<Longrightarrow> b mod n = b - k * (n :: nat)"
proof -
  assume b: "k * n \<le> b" "b < k * n + n"
  have "b mod n = ((b - k * n) + k * n) mod n" using b(1) by (simp only: le_add_diff_inverse2)
  also have "\<dots> = (b - k * n) mod n" by (simp only: mod_mult_self1)
  also have "\<dots> = b - k * n" using b by (intro mod_less) linarith
  finally show ?thesis .
qed

lemma codepoint_first_aux:
  "b < 256 \<Longrightarrow> codepoint_ok (utf8_states ! 0 ! utf8_type b) (drop_bit (utf8_type b) 0xFF AND b)"
  apply (drule byte_classes)
  apply (elim disjE conjE;
      simp add: codepoint_ok_def utf8_type_def utf8_states_def drop_bit_eq_div mask_mod
        mod_interval [of 3 64] mod_interval [of 7 32] mod_interval [of 60 4])
  done

lemma codepoint_first:
  "codepoint_ok (utf8_states ! 0 ! utf8_type (byte_of c)) (drop_bit (utf8_type (byte_of c)) 0xFF AND byte_of c)"
  by (simp add: codepoint_first_aux)

lemma codepoint_more:
  assumes "state_ranges st = Some (r # rs)" and "in_range r c" and "codepoint_ok st cp"
    and "state_ranges st' = Some rs"
  shows "codepoint_ok st' (byte_of c mod 64 + 64 * cp)"
    and "rs = [] \<Longrightarrow> 0x80 \<le> byte_of c mod 64 + 64 * cp"
proof -
  have "0xA0 \<le> byte_of c \<Longrightarrow> byte_of c \<le> 0xBF \<Longrightarrow> byte_of c mod 64 = byte_of c - 128"
    "0x90 \<le> byte_of c \<Longrightarrow> byte_of c \<le> 0xBF \<Longrightarrow> byte_of c mod 64 = byte_of c - 128"
    using mod_interval [of 2 64 "byte_of c"] by simp_all
  with assms show "codepoint_ok st' (byte_of c mod 64 + 64 * cp)"
    by (auto simp: state_ranges_def codepoint_ok_def in_range_def split: if_splits)
  show "0x80 \<le> byte_of c mod 64 + 64 * cp" if "rs = []"
    using assms that by (auto simp: state_ranges_def codepoint_ok_def split: if_splits)
qed

section \<open>What is dumped\<close>

lemma dump_loop_more:
  assumes "state_ranges st = Some (r # rs)" and "st < 9" and "codepoint_ok st cp"
  shows "if in_range r c
         then \<exists>st' cp'. dump_escaped_loop (c # cs) i st cp prev out = dump_escaped_loop cs (Suc i) st' cp' c (out @ [c])
                \<and> state_ranges st' = Some rs \<and> st' < 9 \<and> codepoint_ok st' cp'
         else \<exists>e. dump_escaped_loop (c # cs) i st cp prev out = Inl e"
proof -
  let ?st = "utf8_states ! st ! utf8_type (byte_of c)"
  let ?cp = "byte_of c mod 64 + 64 * cp"
  have "st \<noteq> 0" using state_more [OF assms(1)] by simp
  then have d: "utf8_decode st cp (of_char c) = (?st, ?cp)"
    by (simp add: utf8_decode_def UTF8_ACCEPT_def codepoint_step byte_of_def [symmetric])
  note n = next_state_more [OF assms(1,2), of c]
  show ?thesis
  proof (cases "in_range r c")
    case False
    with n have "?st = 1" using state_reject by simp
    with d False show ?thesis by (simp add: UTF8_ACCEPT_def UTF8_REJECT_def)
  next
    case True
    with n have st: "state_ranges ?st = Some rs" by simp
    note cp = codepoint_more [OF assms(1) True assms(3) st]
    show ?thesis
    proof (cases rs)
      case Nil
      with st have "?st = 0" using state_accept by simp
      moreover have "escape_codepoint ?cp c = [c]" using cp(2) [OF Nil] by (simp add: escape_codepoint_def)
      ultimately have "dump_escaped_loop (c # cs) i st cp prev out =
          dump_escaped_loop cs (Suc i) ?st ?cp c (out @ [c])"
        using d by (simp add: UTF8_ACCEPT_def)
      with True st n cp show ?thesis by auto
    next
      case Cons
      with st state_more have "?st \<noteq> 0" "?st \<noteq> 1" by blast+
      then have "dump_escaped_loop (c # cs) i st cp prev out =
          dump_escaped_loop cs (Suc i) ?st ?cp c (out @ [c])"
        using d by (simp add: UTF8_ACCEPT_def UTF8_REJECT_def)
      with True st n cp show ?thesis by auto
    qed
  qed
qed

lemma dump_loop_first:
  "case char_ranges (byte_of c) of
     None \<Rightarrow> \<exists>e. dump_escaped_loop (c # cs) i 0 cp prev out = Inl e
   | Some [] \<Rightarrow> \<exists>cp'. dump_escaped_loop (c # cs) i 0 cp prev out
       = dump_escaped_loop cs (Suc i) 0 cp' c (out @ escape_codepoint (byte_of c) c)
   | Some (r # rs) \<Rightarrow> \<exists>st' cp'. dump_escaped_loop (c # cs) i 0 cp prev out
       = dump_escaped_loop cs (Suc i) st' cp' c (out @ [c])
       \<and> state_ranges st' = Some (r # rs) \<and> st' < 9 \<and> codepoint_ok st' cp'"
proof -
  let ?st = "utf8_states ! 0 ! utf8_type (byte_of c)"
  let ?cp = "drop_bit (utf8_type (byte_of c)) 0xFF AND byte_of c"
  have d: "utf8_decode 0 cp (of_char c) = (?st, ?cp)"
    by (simp add: utf8_decode_def UTF8_ACCEPT_def byte_of_def [symmetric] Let_def)
  note n = next_state_first [of c]
  show ?thesis
  proof (cases "char_ranges (byte_of c)")
    case None
    with n have "?st = 1" using state_reject by simp
    with d None show ?thesis by (simp add: UTF8_ACCEPT_def UTF8_REJECT_def)
  next
    case (Some rs)
    show ?thesis
    proof (cases rs)
      case Nil
      with Some n have st: "?st = 0" using state_accept by simp
      have "byte_of c < 0x80"
        using Some Nil by (auto simp: char_ranges_def lead_ranges_def split: if_splits)
      then have "?cp = byte_of c"
        using take_bit_eq_mask [of 8 "byte_of c"]
        by (simp add: utf8_type_def mask_eq_exp_minus_1 take_bit_eq_mod and.commute)
      with d st Some Nil show ?thesis by (auto simp: UTF8_ACCEPT_def)
    next
      case (Cons r rs')
      with Some n have st: "state_ranges ?st = Some (r # rs')" by simp
      then have "?st \<noteq> 0" "?st \<noteq> 1" using state_more by blast+
      with d have "dump_escaped_loop (c # cs) i 0 cp prev out =
          dump_escaped_loop cs (Suc i) ?st ?cp c (out @ [c])"
        by (simp add: UTF8_ACCEPT_def UTF8_REJECT_def)
      with Some Cons st n codepoint_first [of c] show ?thesis by auto
    qed
  qed
qed

text \<open>A dumped string is a sequence of characters, each escaped on its own, and conversely.\<close>

lemma dump_loop_Inr:
  assumes "dump_escaped_loop s i st cp prev out = Inr t" and "state_ranges st = Some rs" and "st < 9"
    and "codepoint_ok st cp"
  shows "\<exists>ks s' t'. s = ks @ s' \<and> list_all2 in_range rs ks \<and> utf8_escaped s' t' \<and> t = out @ ks @ t'"
  using assms
proof (induction s arbitrary: i st cp prev out rs)
  case Nil
  then have "st = 0" by (auto simp: UTF8_ACCEPT_def split: if_splits)
  with Nil show ?case by (auto simp: state_ranges_def UTF8_ACCEPT_def intro: escaped_Nil)
next
  case (Cons c cs)
  show ?case
  proof (cases rs)
    case (Cons r rs')
    note m = dump_loop_more [of st r rs' cp c cs i prev out]
    from m Cons.prems Cons have r: "in_range r c" by (auto split: if_splits)
    with m Cons.prems Cons obtain st' cp' where
      "dump_escaped_loop cs (Suc i) st' cp' c (out @ [c]) = Inr t"
      "state_ranges st' = Some rs'" "st' < 9" "codepoint_ok st' cp'" by auto
    from Cons.IH [OF this] obtain ks s' t' where
      "cs = ks @ s'" "list_all2 in_range rs' ks" "utf8_escaped s' t'" "t = (out @ [c]) @ ks @ t'"
      by blast
    with r Cons show ?thesis by (intro exI [of _ "c # ks"] exI [of _ s'] exI [of _ t']) simp
  next
    case Nil
    with Cons.prems(2) have "st = 0" using state_accept by simp
    with Cons.prems(1) have l: "dump_escaped_loop (c # cs) i 0 cp prev out = Inr t" by simp
    note f = dump_loop_first [of c cs i cp prev out]
    from f l obtain qs where q: "char_ranges (byte_of c) = Some qs"
      by (cases "char_ranges (byte_of c)") auto
    show ?thesis
    proof (cases qs)
      case qs: Nil
      with f l q obtain cp' where
        "dump_escaped_loop cs (Suc i) 0 cp' c (out @ escape_codepoint (byte_of c) c) = Inr t"
        by auto
      from Cons.IH [OF this, of "[]"] obtain s' t' where
        "cs = s'" "utf8_escaped s' t'" "t = out @ escape_codepoint (byte_of c) c @ t'"
        by (auto simp: state_ranges_def codepoint_ok_def)
      moreover have "utf8_char [c]" using q qs by (simp add: utf8_char_def)
      moreover have "escape_char [c] = escape_codepoint (byte_of c) c" by (simp add: escape_char_def)
      ultimately show ?thesis
        using escaped_char [of "[c]" s' t'] Nil by auto
    next
      case qs: (Cons r rs')
      with f l q obtain st' cp' where
        "dump_escaped_loop cs (Suc i) st' cp' c (out @ [c]) = Inr t"
        "state_ranges st' = Some qs" "st' < 9" "codepoint_ok st' cp'" by auto
      from Cons.IH [OF this] obtain ks s' t' where
        k: "cs = ks @ s'" "list_all2 in_range qs ks" "utf8_escaped s' t'" "t = (out @ [c]) @ ks @ t'"
        by blast
      have "utf8_char (c # ks)" using q k by (simp add: utf8_char_def)
      moreover have "ks \<noteq> []" using k(2) qs by auto
      then have "escape_char (c # ks) = c # ks" by (cases ks) (simp_all add: escape_char_def)
      ultimately show ?thesis
        using escaped_char [of "c # ks" s' t'] k Nil by auto
    qed
  qed
qed

lemma dump_escaped_Inr: "dump_escaped s = Inr t \<Longrightarrow> utf8_escaped s t"
  using dump_loop_Inr [of s 0 0 0 "CHR 0x00" "[]" t "[]"]
  by (auto simp: dump_escaped_def UTF8_ACCEPT_def state_ranges_def codepoint_ok_def)

lemma dump_loop_rest:
  assumes "list_all2 in_range rs ks" and "state_ranges st = Some rs" and "st < 9" and "codepoint_ok st cp"
  shows "\<exists>i' cp' prev'. dump_escaped_loop (ks @ cs) i st cp prev out = dump_escaped_loop cs i' 0 cp' prev' (out @ ks)"
  using assms
proof (induction ks arbitrary: rs i st cp prev out rule: list.induct)
  case Nil
  then have "rs = []" by (cases rs) auto
  with Nil have "st = 0" using state_accept [of st] by simp
  then show ?case by auto
next
  case (Cons k ks)
  then obtain r rs' where rs: "rs = r # rs'" "in_range r k" "list_all2 in_range rs' ks"
    by (auto simp: list_all2_Cons2)
  with dump_loop_more [of st r rs' cp k "ks @ cs" i prev out] Cons.prems obtain st' cp' where
    "dump_escaped_loop ((k # ks) @ cs) i st cp prev out = dump_escaped_loop (ks @ cs) (Suc i) st' cp' k (out @ [k])"
    "state_ranges st' = Some rs'" "st' < 9" "codepoint_ok st' cp'" by auto
  with Cons.IH [OF rs(3), of st' cp' "Suc i" k "out @ [k]"] show ?case by simp
qed

lemma dump_loop_escaped:
  "utf8_escaped s t \<Longrightarrow> dump_escaped_loop s i 0 cp prev out = Inr (out @ t)"
proof (induction s t arbitrary: i cp prev out rule: utf8_escaped.induct)
  case escaped_Nil
  then show ?case by (simp add: UTF8_ACCEPT_def)
next
  case (escaped_char x s t)
  from escaped_char(1) obtain c ks rs where x: "x = c # ks" "char_ranges (byte_of c) = Some rs" "list_all2 in_range rs ks"
    by (auto simp: utf8_char_def split: list.splits option.splits)
  note f = dump_loop_first [of c "ks @ s" i cp prev out]
  show ?case
  proof (cases rs)
    case Nil
    with x f escaped_char.IH show ?thesis by (auto simp: escape_char_def)
  next
    case (Cons r rs')
    with f x obtain st' cp' where a:
      "dump_escaped_loop (x @ s) i 0 cp prev out = dump_escaped_loop (ks @ s) (Suc i) st' cp' c (out @ [c])"
      "state_ranges st' = Some rs" "st' < 9" "codepoint_ok st' cp'" by auto
    from dump_loop_rest [OF x(3) a(2-4), of s "Suc i" c "out @ [c]"] a(1) escaped_char.IH
    have "dump_escaped_loop (x @ s) i 0 cp prev out = Inr ((out @ [c] @ ks) @ t)" by auto
    moreover have "ks \<noteq> []" using x(3) Cons by auto
    then have "escape_char x = x" using x(1) by (cases ks) (simp_all add: escape_char_def)
    ultimately show ?thesis using x(1) by simp
  qed
qed

lemma dump_escaped_iff: "dump_escaped s = Inr t \<longleftrightarrow> utf8_escaped s t"
  using dump_escaped_Inr dump_loop_escaped [of s t 0 0 "CHR 0x00" "[]"]
  by (auto simp: dump_escaped_def UTF8_ACCEPT_def)

lemma dump_string_iff:
  "dump_string s = Inr t \<longleftrightarrow> (\<exists>u. utf8_escaped s u \<and> t = CHR 0x22 # u @ [CHR 0x22])"
  by (cases "dump_escaped s") (auto simp: dump_string_def dump_escaped_iff [symmetric])

end
