(* ===== verification/Json_Scan.thy ===== *)
theory Json_Scan
  imports Json_Text Json_Parser
begin

text \<open>
  The scanner on the serializer's output: which token it reads at the beginning of a dumped value, with which
  token value, and what it leaves unread. \<open>unread l s\<close> says that the bytes still to be read are \<open>s\<close>, an ungot byte
  included.
\<close>

section \<open>The unread input\<close>

definition unread :: "lexer \<Rightarrow> string \<Rightarrow> bool" where
  "unread l s \<longleftrightarrow>
     (if next_unget l then (case current l of None \<Rightarrow> s = [] \<and> ia l = [] | Some c \<Rightarrow> s = c # ia l)
      else ia l = s)"

definition fresh :: "lexer \<Rightarrow> string \<Rightarrow> bool" where
  "fresh l s \<longleftrightarrow> \<not> next_unget l \<and> ia l = s \<and> 0 < chars_read_total l"

lemma fresh_unread: "fresh l s \<Longrightarrow> unread l s"
  by (simp add: fresh_def unread_def)

lemma chars_read_total_get: "chars_read_total (lex_get l) = Suc (chars_read_total l)"
  by (simp add: lex_get_def lex_count_def lex_fetch_def Let_def split: option.splits list.splits)

lemma get_unread_Cons: "unread l (c # s) \<Longrightarrow> current (lex_get l) = Some c \<and> fresh (lex_get l) s"
  by (auto simp: unread_def fresh_def lex_get_fields chars_read_total_get split: if_splits option.splits)

lemma get_unread_Nil: "unread l [] \<Longrightarrow> current (lex_get l) = None \<and> fresh (lex_get l) []"
  by (auto simp: unread_def fresh_def lex_get_fields chars_read_total_get split: if_splits option.splits)

lemma fresh_get [simp]:
  "fresh l (c # s) \<Longrightarrow> current (lex_get l) = Some c" "fresh l (c # s) \<Longrightarrow> fresh (lex_get l) s"
  using get_unread_Cons fresh_unread by blast+

lemma fresh_add [simp]: "fresh (lex_add c l) s = fresh l s"
  by (simp add: fresh_def lex_add_def)

lemma fresh_reset [simp]: "fresh (lex_reset l) s = fresh l s"
  by (simp add: fresh_def lex_reset_def)

lemma fresh_add_current [simp]: "fresh (add_current l) s = fresh l s"
  by (simp add: add_current_def split: option.splits)

lemma token_buffer_reset [simp]: "token_buffer (lex_reset l) = []"
  by (simp add: lex_reset_def)

lemma unread_value [simp]:
  "unread (l\<lparr>value_unsigned := w\<rparr>) s = unread l s" "unread (l\<lparr>value_integer := w\<rparr>) s = unread l s"
  by (simp_all add: unread_def split: option.splits)

lemma token_buffer_get [simp]: "token_buffer (lex_get l) = token_buffer l"
  by (rule lex_get_fields)

lemma lexer_add [simp]:
  "token_buffer (lex_add c l) = token_buffer l @ [c]" "current (lex_add c l) = current l"
  "chars_read_total (lex_add c l) = chars_read_total l"
  by (simp_all add: lex_add_def)

section \<open>Strings\<close>

lemma next_bytes_read:
  assumes "list_all2 in_range rs ks" and "fresh l (ks @ rest)"
  shows "\<exists>l'. next_bytes_loop rs l = (True, l') \<and> fresh l' rest \<and> token_buffer l' = token_buffer l @ ks"
  using assms
proof (induction rs ks arbitrary: l rule: list_all2_induct)
  case Nil
  then show ?case by simp
next
  case (Cons r rs k ks)
  obtain lo hi where r: "r = (lo, hi)" by force
  let ?l = "lex_add k (lex_get l)"
  from Cons.prems have "fresh ?l (ks @ rest)" "current (lex_get l) = Some k" by simp_all
  with Cons.IH [of ?l] Cons(1) show ?case by (auto simp: r in_range_def Let_def)
qed

lemma get_codepoint_step:
  "fresh l (c # s) \<Longrightarrow> hex_val c = Some v \<Longrightarrow>
   get_codepoint_loop (f # fs) cp l = get_codepoint_loop fs (cp + push_bit f v) (lex_get l)"
  by (simp add: Let_def)

lemma get_codepoint_control:
  assumes "fresh l (CHR ''0'' # CHR ''0'' # hex_lower (b div 16) # hex_lower (b mod 16) # rest)" and "b \<le> 0x1F"
  shows "\<exists>l'. get_codepoint l = (Some b, l') \<and> fresh l' rest \<and> token_buffer l' = token_buffer l"
proof -
  have hex: "hex_val (hex_lower d) = Some d" if "d < 16" for d
    using that by (cases "d < 10") (auto simp: hex_val_def hex_lower_def byte_of_def)
  have d: "hex_val (CHR ''0'') = Some 0" by (simp add: hex_val_def byte_of_def)
  have "push_bit 4 (b div 16) + b mod 16 = b" by (simp add: push_bit_eq_mult)
  moreover have "b div 16 < 16" "b mod 16 < 16" using assms(2) by simp_all
  moreover note f1 = fresh_get(2) [OF assms(1)]
  moreover note f2 = fresh_get(2) [OF f1]
  moreover note f3 = fresh_get(2) [OF f2]
  moreover note fresh_get(2) [OF f3]
  ultimately show ?thesis
    using get_codepoint_step [OF assms(1) d] get_codepoint_step [OF f1 d]
      get_codepoint_step [OF f2 hex] get_codepoint_step [OF f3 hex]
    by (simp add: get_codepoint_def)
qed

lemma byte_eq: "byte_of c = n \<Longrightarrow> c = char_of n"
  using char_of_byte [of c] by simp

lemma scan_escaped:
  assumes "fresh l (CHR 0x5C # s)"
  shows "scan_string_step l =
    (case scan_escape (lex_get l) of (ok, l') \<Rightarrow> if ok then Inr l' else Inl (T_parse_error, l'))"
  using assms by (simp add: scan_string_step_def Let_def)

lemma scan_short_escape:
  assumes "fresh l (CHR 0x5C # e # s)"
    and "(e, c) \<in> set [(CHR 0x22, CHR 0x22), (CHR 0x5C, CHR 0x5C), (CHR ''b'', CHR 0x08), (CHR ''f'', CHR 0x0C),
           (CHR ''n'', CHR 0x0A), (CHR ''r'', CHR 0x0D), (CHR ''t'', CHR 0x09)]"
  shows "\<exists>l'. scan_string_step l = Inr l' \<and> fresh l' s \<and> token_buffer l' = token_buffer l @ [c]"
proof -
  have "fresh (lex_get l) (e # s)" using assms(1) by simp
  then have "current (lex_get (lex_get l)) = Some e" "fresh (lex_get (lex_get l)) s" by simp_all
  moreover have "scan_escape (lex_get l) = (True, lex_add c (lex_get (lex_get l)))"
    using assms(2) calculation(1) by (auto simp: scan_escape_def Let_def)
  ultimately show ?thesis
    by (simp add: scan_escaped [OF assms(1)])
qed

lemma scan_control_escape:
  assumes "fresh l (CHR 0x5C # CHR ''u'' # CHR ''0'' # CHR ''0'' # hex_lower (byte_of c div 16) # hex_lower (byte_of c mod 16) # s)"
    and "byte_of c \<le> 0x1F"
  shows "\<exists>l'. scan_string_step l = Inr l' \<and> fresh l' s \<and> token_buffer l' = token_buffer l @ [c]"
proof -
  let ?l = "lex_get (lex_get l)"
  have u: "current ?l = Some (CHR ''u'')"
    and f: "fresh ?l (CHR ''0'' # CHR ''0'' # hex_lower (byte_of c div 16) # hex_lower (byte_of c mod 16) # s)"
    using fresh_get [OF fresh_get(2) [OF assms(1)]] by simp_all
  from get_codepoint_control [OF f assms(2)] obtain l' where
    g: "get_codepoint ?l = (Some (byte_of c), l')" "fresh l' s" "token_buffer l' = token_buffer l" by auto
  have "add_codepoint (byte_of c) l' = lex_add c l'"
    using assms(2) by (simp add: add_codepoint_def utf8_bytes_def char_of_byte)
  then have "scan_unicode ?l = (True, lex_add c l')"
    using g assms(2) by (simp add: scan_unicode_def)
  then have "scan_escape (lex_get l) = (True, lex_add c l')"
    using u by (simp add: scan_escape_def Let_def)
  with g show ?thesis by (simp add: scan_escaped [OF assms(1)])
qed

lemma scan_plain:
  assumes "fresh l ((c # ks) @ s)" and "lead_ranges (byte_of c) = Some rs" and "list_all2 in_range rs ks"
    and "c \<noteq> CHR 0x22" and "c \<noteq> CHR 0x5C"
  shows "\<exists>l'. scan_string_step l = Inr l' \<and> fresh l' s \<and> token_buffer l' = token_buffer l @ c # ks"
proof -
  have c: "current (lex_get l) = Some c" "fresh (lex_add c (lex_get l)) (ks @ s)" using assms(1) by simp_all
  from next_bytes_read [OF assms(3) c(2)] obtain l' where
    "next_byte_in_range rs (lex_get l) = (True, l')" "fresh l' s" "token_buffer l' = token_buffer l @ c # ks"
    using c(1) by (auto simp: next_byte_in_range_def)
  moreover have "\<not> byte_of c < 0x20" using assms(2) by (auto simp: lead_ranges_def)
  ultimately show ?thesis
    using c(1) assms(2,4,5) by (simp add: scan_string_step_def Let_def)
qed

lemma short_escape:
  assumes "escape_codepoint (byte_of c) c = [CHR 0x5C, e]"
  shows "(e, c) \<in> set [(CHR 0x22, CHR 0x22), (CHR 0x5C, CHR 0x5C), (CHR ''b'', CHR 0x08), (CHR ''f'', CHR 0x0C),
           (CHR ''n'', CHR 0x0A), (CHR ''r'', CHR 0x0D), (CHR ''t'', CHR 0x09)]"
proof -
  have "byte_of c = 8 \<or> byte_of c = 9 \<or> byte_of c = 10 \<or> byte_of c = 12 \<or> byte_of c = 13 \<or>
      byte_of c = 0x22 \<or> byte_of c = 0x5C"
    using assms unfolding escape_codepoint_def by (simp split: if_splits)
  then have "c = CHR 0x08 \<or> c = CHR 0x09 \<or> c = CHR 0x0A \<or> c = CHR 0x0C \<or> c = CHR 0x0D \<or>
      c = CHR 0x22 \<or> c = CHR 0x5C"
    by (auto dest!: byte_eq simp: char_of_def bit_0)
  with assms show ?thesis
    by (elim disjE) (simp_all add: escape_codepoint_def byte_of_def)
qed

lemma scan_string_char:
  assumes "utf8_char x" and "fresh l (escape_char x @ s)"
  shows "\<exists>l'. scan_string_step l = Inr l' \<and> fresh l' s \<and> token_buffer l' = token_buffer l @ x"
proof -
  from assms(1) obtain c ks rs where
    x: "x = c # ks" "char_ranges (byte_of c) = Some rs" "list_all2 in_range rs ks"
    by (auto simp: utf8_char_def split: list.splits option.splits)
  show ?thesis
  proof (cases "byte_of c < 0x80")
    case False
    with x have lead: "lead_ranges (byte_of c) = Some rs" by (simp add: char_ranges_def)
    with False have "rs \<noteq> []" by (auto simp: lead_ranges_def split: if_splits)
    with x have "ks \<noteq> []" by auto
    then have "escape_char x = x" using x by (cases ks) (simp_all add: escape_char_def)
    moreover have "c \<noteq> CHR 0x22" "c \<noteq> CHR 0x5C" using False by (auto simp: byte_of_def)
    ultimately show ?thesis using scan_plain [OF _ lead x(3)] assms(2) x(1) by simp
  next
    case True
    with x have "rs = []" by (simp add: char_ranges_def)
    with x have ks: "ks = []" by simp
    let ?b = "byte_of c"
    have f: "fresh l (escape_codepoint ?b c @ s)" using assms(2) x ks by (simp add: escape_char_def)
    show ?thesis
    proof (cases "\<exists>e. escape_codepoint ?b c = [CHR 0x5C, e]")
      case True
      then obtain e where e: "escape_codepoint ?b c = [CHR 0x5C, e]" by blast
      then have "(e, c) \<in> set [(CHR 0x22, CHR 0x22), (CHR 0x5C, CHR 0x5C), (CHR ''b'', CHR 0x08), (CHR ''f'', CHR 0x0C),
           (CHR ''n'', CHR 0x0A), (CHR ''r'', CHR 0x0D), (CHR ''t'', CHR 0x09)]"
        by (rule short_escape)
      from scan_short_escape [OF _ this, of l s] f e x ks show ?thesis by simp
    next
      case no: False
      show ?thesis
      proof (cases "?b \<le> 0x1F")
        case True
        with no have "escape_codepoint ?b c =
            [CHR 0x5C, CHR ''u'', CHR ''0'', CHR ''0'', hex_lower (?b div 16), hex_lower (?b mod 16)]"
          by (auto simp: escape_codepoint_def split: if_splits)
        with scan_control_escape [of l c s] f True x ks show ?thesis by simp
      next
        case False
        with no have "escape_codepoint ?b c = [c]" "c \<noteq> CHR 0x22" "c \<noteq> CHR 0x5C"
          by (auto simp: escape_codepoint_def byte_of_def split: if_splits)
        moreover have "lead_ranges ?b = Some []"
          using False \<open>?b < 0x80\<close> by (simp add: lead_ranges_def)
        ultimately show ?thesis using scan_plain [of l c "[]" s "[]"] f x ks by simp
      qed
    qed
  qed
qed

lemma scan_string_loop_read:
  assumes "utf8_escaped x t" and "fresh l (t @ CHR 0x22 # s)"
  shows "\<exists>l'. scan_string_loop l = (T_value_string, l') \<and> fresh l' s \<and> token_buffer l' = token_buffer l @ x"
  using assms
proof (induction x t arbitrary: l rule: utf8_escaped.induct)
  case escaped_Nil
  then have "current (lex_get l) = Some (CHR 0x22)" "fresh (lex_get l) s" by simp_all
  then have "scan_string_step l = Inl (T_value_string, lex_get l)" by (simp add: scan_string_step_def Let_def)
  with \<open>fresh (lex_get l) s\<close> show ?case by (subst scan_string_loop.simps) simp
next
  case (escaped_char x y t)
  from scan_string_char [OF escaped_char(1), of l "t @ CHR 0x22 # s"] escaped_char.prems obtain l' where
    l': "scan_string_step l = Inr l'" "fresh l' (t @ CHR 0x22 # s)" "token_buffer l' = token_buffer l @ x" by auto
  from escaped_char.IH [OF l'(2)] l' show ?case by (subst scan_string_loop.simps) auto
qed

section \<open>Numbers\<close>

text \<open>The byte after a number in dumped text.\<close>

definition number_ends :: "string \<Rightarrow> bool" where
  "number_ends s \<longleftrightarrow>
     (case s of [] \<Rightarrow> True
      | c # _ \<Rightarrow> \<not> is_digit c \<and> c \<noteq> CHR ''.'' \<and> c \<noteq> CHR ''e'' \<and> c \<noteq> CHR ''E'')"

definition read_number :: "lexer \<Rightarrow> string \<Rightarrow> string \<Rightarrow> bool" where
  "read_number l buf s \<longleftrightarrow>
     unread (lex_unget l) s \<and> 0 < chars_read_total (lex_unget l) \<and> token_buffer (lex_unget l) = buf"

lemma unget_get:
  assumes "fresh l s"
  shows "read_number (lex_get l) (token_buffer l) s"
proof -
  have f: "token_buffer (lex_unget x) = token_buffer x" "current (lex_unget x) = current x"
    "ia (lex_unget x) = ia x" "next_unget (lex_unget x)"
    "chars_read_total (lex_unget x) = chars_read_total x - 1" for x
    by (simp_all add: lex_unget_def Let_def split: option.splits)
  with assms show ?thesis
    by (cases s) (auto simp: read_number_def fresh_def unread_def lex_get_fields chars_read_total_get)
qed

lemma scan_number_end:
  assumes "st = N_zero \<or> st = N_any1" and "fresh l s" and "number_ends s"
  shows "\<exists>l'. scan_number_loop st t l = (True, t, l') \<and> read_number l' (token_buffer l) s"
proof -
  have "scan_number_step st l = Inl (True, lex_get l)"
  proof (cases s)
    case Nil
    with get_unread_Nil [of l] fresh_unread [OF assms(2)] have "current (lex_get l) = None" by simp
    with assms(1) show ?thesis by (auto simp: scan_number_step_def Let_def)
  next
    case (Cons c cs)
    with assms(2) have cur: "current (lex_get l) = Some c" by simp
    from assms(3) Cons have "\<not> is_digit c" "c \<noteq> CHR ''.''" "c \<noteq> CHR ''e''" "c \<noteq> CHR ''E''"
      by (simp_all add: number_ends_def)
    with assms(1) show ?thesis
      by (elim disjE) (simp_all add: scan_number_step_def Let_def cur opt_digit_def)
  qed
  moreover have "number_type_at st t = t" using assms(1) by auto
  ultimately show ?thesis
    using unget_get [OF assms(2)] by (subst scan_number_loop.simps) simp
qed

lemma scan_number_digits:
  assumes "\<forall>c \<in> set ds. is_digit c" and "fresh l (ds @ s)" and "number_ends s"
  shows "\<exists>l'. scan_number_loop N_any1 t l = (True, t, l') \<and> read_number l' (token_buffer l @ ds) s"
  using assms
proof (induction ds arbitrary: l)
  case Nil
  then show ?case using scan_number_end [of N_any1 l s t] by simp
next
  case (Cons d ds)
  let ?l = "add_current (lex_get l)"
  from Cons.prems have c: "current (lex_get l) = Some d" "fresh ?l (ds @ s)" by simp_all
  with Cons.prems have "scan_number_step N_any1 l = Inr (N_any1, ?l)"
    by (simp add: scan_number_step_def Let_def opt_digit_def)
  moreover have "token_buffer ?l = token_buffer l @ [d]" using c by (simp add: add_current_def)
  ultimately show ?case
    using Cons.IH [OF _ c(2)] Cons.prems by (subst scan_number_loop.simps) simp
qed

lemma scan_unsigned:
  assumes "fresh l (tl (dec_digits n) @ s)" and "current l = Some (hd (dec_digits n))"
    and "number_ends s" and "n < 2 ^ 64"
  shows "\<exists>l'. scan_number l = (T_value_unsigned, l') \<and> unread l' s \<and> 0 < chars_read_total l'
    \<and> value_unsigned l' = of_nat n"
proof -
  let ?ds = "dec_digits n"
  let ?l = "add_current (lex_reset l)"
  have ds: "hd ?ds # tl ?ds = ?ds" by simp
  have dig: "\<forall>c \<in> set ?ds. is_digit c" "digits_value ?ds = n" "hd ?ds = CHR ''0'' \<longrightarrow> n = 0"
    using dec_digits_props by blast+
  have buf: "token_buffer ?l = [hd ?ds]" using assms(2) by (simp add: add_current_def lex_reset_def)
  have l: "fresh ?l (tl ?ds @ s)" using assms(1) by simp
  have minus: "hd ?ds \<noteq> CHR ''-''"
  proof
    assume "hd ?ds = CHR ''-''"
    then have "is_digit (CHR ''-'')" using dig(1) ds by (metis list.set_intros(1))
    then show False by (simp add: is_digit_def byte_of_def)
  qed
  have "\<exists>l'. scan_number_loop (if hd ?ds = CHR ''0'' then N_zero else N_any1) T_value_unsigned ?l
      = (True, T_value_unsigned, l') \<and> read_number l' ?ds s"
  proof (cases "hd ?ds = CHR ''0''")
    case True
    then have "?ds = [CHR ''0'']"
      using dig(3) by (simp add: dec_digits.simps digit_char_def)
    with scan_number_end [of N_zero ?l s T_value_unsigned] l buf assms(3) show ?thesis by simp
  next
    case False
    have "\<forall>c \<in> set (tl ?ds). is_digit c" using dig(1) ds by (metis list.set_intros(2))
    with scan_number_digits [of "tl ?ds" ?l s T_value_unsigned] l buf assms(3) ds False show ?thesis
      by simp
  qed
  then obtain l' where loop: "scan_number_loop (if hd ?ds = CHR ''0'' then N_zero else N_any1) T_value_unsigned ?l
      = (True, T_value_unsigned, l')" and r: "read_number l' ?ds s" by blast
  have "scan_number l = finish_number T_value_unsigned l'"
    using loop assms(2) minus by (simp add: scan_number_def Let_def)
  moreover have "finish_number T_value_unsigned l' =
      (T_value_unsigned, (lex_unget l')\<lparr>value_unsigned := of_nat n\<rparr>)"
    using r dig(2) assms(4) by (simp add: finish_number_def read_number_def)
  ultimately show ?thesis
    using r by (simp add: read_number_def)
qed

lemma scan_negative:
  assumes "fresh l (dec_digits n @ s)" and "current l = Some (CHR ''-'')"
    and "number_ends s" and "0 < n" and "n \<le> 2 ^ 63"
  shows "\<exists>l'. scan_number l = (T_value_integer, l') \<and> unread l' s \<and> 0 < chars_read_total l'
    \<and> value_integer l' = - of_nat n"
proof -
  let ?ds = "dec_digits n"
  let ?l = "add_current (lex_reset l)"
  let ?l1 = "add_current (lex_get ?l)"
  have ds: "?ds = hd ?ds # tl ?ds" by simp
  have dig: "\<forall>c \<in> set ?ds. is_digit c" "digits_value ?ds = n" "hd ?ds = CHR ''0'' \<longrightarrow> n = 0"
    using dec_digits_props by blast+
  have buf: "token_buffer ?l = ''-''" using assms(2) by (simp add: add_current_def lex_reset_def)
  have l: "fresh ?l (hd ?ds # (tl ?ds @ s))"
    using assms(1) ds by (metis append_Cons fresh_add_current fresh_reset)
  then have c: "current (lex_get ?l) = Some (hd ?ds)" "fresh ?l1 (tl ?ds @ s)" by simp_all
  have "is_digit (hd ?ds)" "\<forall>c \<in> set (tl ?ds). is_digit c"
    using dig(1) ds by (metis list.set_intros)+
  have step: "scan_number_step N_minus ?l = Inr (N_any1, ?l1)"
    using c(1) dig(3) assms(4) \<open>is_digit (hd ?ds)\<close>
    by (simp add: scan_number_step_def Let_def opt_digit_def)
  have buf1: "token_buffer ?l1 = ''-'' @ [hd ?ds]"
    using c(1) buf by (simp add: add_current_def [of "lex_get ?l"])
  from scan_number_digits [OF \<open>\<forall>c \<in> set (tl ?ds). is_digit c\<close> c(2) assms(3), of T_value_integer]
  obtain l' where loop: "scan_number_loop N_any1 T_value_integer ?l1 = (True, T_value_integer, l')"
    and r: "read_number l' (CHR ''-'' # ?ds) s" using buf1 ds by auto
  have "scan_number_loop N_minus T_value_unsigned ?l = (True, T_value_integer, l')"
    using loop step by (subst scan_number_loop.simps) simp
  then have "scan_number l = finish_number T_value_integer l'"
    using assms(2) by (simp add: scan_number_def Let_def)
  moreover have "finish_number T_value_integer l' =
      (T_value_integer, (lex_unget l')\<lparr>value_integer := - of_nat n\<rparr>)"
    using r dig(2) assms(5) by (simp add: finish_number_def read_number_def)
  ultimately show ?thesis
    using r by (simp add: read_number_def)
qed

section \<open>Literals and the start of a token\<close>

lemma scan_literal_loop_read:
  "fresh l (cs @ s) \<Longrightarrow> \<exists>l'. scan_literal_loop cs t l = (t, l') \<and> fresh l' s"
proof (induction cs arbitrary: l)
  case (Cons c cs)
  then have "current (lex_get l) = Some c" "fresh (lex_get l) (cs @ s)" by simp_all
  with Cons.IH show ?case by (simp add: Let_def)
qed simp

lemma skip_whitespace_none:
  assumes "unread l (c # s)" and "\<not> is_space (Some c)"
  shows "current (skip_whitespace l) = Some c \<and> fresh (skip_whitespace l) s"
  using get_unread_Cons [OF assms(1)] assms(2) by (subst (1 2) skip_whitespace.simps) (simp add: Let_def)

lemma skip_whitespace_end:
  assumes "unread l []"
  shows "current (skip_whitespace l) = None \<and> fresh (skip_whitespace l) []"
  using get_unread_Nil [OF assms] by (subst (1 2) skip_whitespace.simps) (simp add: Let_def is_space_def)

lemma skip_bom_none:
  assumes "unread l (c # s)" and "c \<noteq> CHR 0xEF" and "\<not> next_unget l"
  shows "\<exists>l'. skip_bom l = (True, l') \<and> unread l' (c # s)"
proof -
  have "current (lex_get l) = Some c" "fresh (lex_get l) s" using get_unread_Cons [OF assms(1)] by simp_all
  moreover have "unread (lex_unget (lex_get l)) (c # s)"
  proof -
    have "current (lex_unget x) = current x" "ia (lex_unget x) = ia x" "next_unget (lex_unget x)" for x
      by (simp_all add: lex_unget_def Let_def split: option.splits)
    with calculation show ?thesis by (simp add: unread_def fresh_def)
  qed
  ultimately show ?thesis using assms(2) by (simp add: skip_bom_def Let_def)
qed

text \<open>The state before the first token, and between two tokens.\<close>

definition ready :: "lexer \<Rightarrow> string \<Rightarrow> bool" where
  "ready l s \<longleftrightarrow> unread l s \<and> (chars_read_total l = 0 \<longrightarrow> \<not> next_unget l)"

lemma ready_between: "unread l s \<Longrightarrow> 0 < chars_read_total l \<Longrightarrow> ready l s"
  by (simp add: ready_def)

lemma fresh_ready: "fresh l s \<Longrightarrow> ready l s"
  by (simp add: ready_def fresh_unread) (simp add: fresh_def)

lemma scan_start:
  assumes "ready l (c # s)" and "\<not> is_space (Some c)" and "c \<noteq> CHR 0xEF"
  shows "\<exists>l1. scan l = scan_token l1 \<and> current l1 = Some c \<and> fresh l1 s"
proof (cases "chars_read_total l = 0")
  case True
  with assms skip_bom_none [of l c s] obtain l' where "skip_bom l = (True, l')" "unread l' (c # s)"
    by (auto simp: ready_def)
  with True skip_whitespace_none [of l' c s] assms(2) show ?thesis
    by (auto simp: scan_def)
next
  case False
  with skip_whitespace_none [of l c s] assms show ?thesis by (auto simp: scan_def ready_def)
qed

lemma scan_end:
  assumes "unread l []" and "0 < chars_read_total l"
  shows "\<exists>l'. scan l = (T_end_of_input, l')"
  using skip_whitespace_end [OF assms(1)] assms(2) by (simp add: scan_def scan_token_def)

section \<open>The tokens of dumped text\<close>

text \<open>The token is read, what follows is left, and the scanner is between two tokens.\<close>

definition scans :: "lexer \<Rightarrow> token_type \<Rightarrow> string \<Rightarrow> (lexer \<Rightarrow> bool) \<Rightarrow> bool" where
  "scans l t s P \<longleftrightarrow> (\<exists>l'. scan l = (t, l') \<and> unread l' s \<and> 0 < chars_read_total l' \<and> P l')"

lemma fresh_scans: "scan l = (t, l') \<Longrightarrow> fresh l' s \<Longrightarrow> P l' \<Longrightarrow> scans l t s P"
  unfolding scans_def fresh_def unread_def by auto

lemma scan_structural:
  assumes "ready l (c # s)"
    and "(c, t) \<in> set [(CHR ''['', T_begin_array), (CHR '']'', T_end_array), (CHR ''{'', T_begin_object),
           (CHR ''}'', T_end_object), (CHR '':'', T_name_separator), (CHR '','', T_value_separator)]"
  shows "scans l t s (\<lambda>_. True)"
proof -
  have "\<not> is_space (Some c)" "c \<noteq> CHR 0xEF" using assms(2) by (auto simp: is_space_def)
  from scan_start [OF assms(1) this] obtain l1 where l1: "scan l = scan_token l1" "current l1 = Some c" "fresh l1 s"
    by blast
  moreover have "scan_token l1 = (t, l1)"
    using assms(2) unfolding list.set insert_iff empty_iff prod.inject
    by (elim disjE conjE FalseE) (simp_all add: scan_token_def l1(2))
  ultimately show ?thesis by (auto intro: fresh_scans)
qed

lemma scan_string_token:
  assumes "ready l (CHR 0x22 # t @ CHR 0x22 # s)" and "utf8_escaped x t"
  shows "scans l T_value_string s (\<lambda>l'. token_buffer l' = x)"
proof -
  from scan_start [OF assms(1)] obtain l1 where
    l1: "scan l = scan_token l1" "current l1 = Some (CHR 0x22)" "fresh l1 (t @ CHR 0x22 # s)"
    by (auto simp: is_space_def)
  from scan_string_loop_read [OF assms(2), of "lex_reset l1" s] l1(3) obtain l' where
    "scan_string l1 = (T_value_string, l')" "fresh l' s" "token_buffer l' = x"
    by (auto simp: scan_string_def)
  moreover have "scan_token l1 = scan_string l1" using l1(2) by (simp add: scan_token_def)
  ultimately show ?thesis using l1(1) by (auto intro: fresh_scans)
qed

lemma scan_literal_token:
  assumes "ready l (lit @ s)"
    and "(lit, t) \<in> set [(''true'', T_literal_true), (''false'', T_literal_false), (''null'', T_literal_null)]"
  shows "scans l t s (\<lambda>_. True)"
proof -
  obtain c cs where lit: "lit = c # cs" "c \<noteq> CHR 0xEF" "\<not> is_space (Some c)"
    using assms(2) by (auto simp: is_space_def)
  with scan_start [of l c "cs @ s"] assms(1) obtain l1 where
    l1: "scan l = scan_token l1" "current l1 = Some c" "fresh l1 (cs @ s)" by auto
  from scan_literal_loop_read [OF l1(3), of t] obtain l' where l': "scan_literal_loop cs t l1 = (t, l')" "fresh l' s"
    by blast
  have "scan_token l1 = scan_literal lit t l1"
    using assms(2) l1(2) lit(1) by (auto simp: scan_token_def)
  with l' l1(1) lit(1) show ?thesis by (auto simp: scan_literal_def intro: fresh_scans)
qed

lemma scan_unsigned_token:
  assumes "ready l (dec_digits n @ s)" and "number_ends s" and "n < 2 ^ 64"
  shows "scans l T_value_unsigned s (\<lambda>l'. value_unsigned l' = of_nat n)"
proof -
  let ?c = "hd (dec_digits n)"
  have split: "dec_digits n = ?c # tl (dec_digits n)" by simp
  have "is_digit ?c" using dec_digits_props [of n] split by (metis list.set_intros(1))
  then have b: "48 \<le> byte_of ?c" "byte_of ?c \<le> 57" by (simp_all add: is_digit_def)
  have ne: "?c \<noteq> k" if "byte_of k < 48 \<or> 57 < byte_of k" for k using b that by auto
  have "\<not> is_space (Some ?c)" "?c \<noteq> CHR 0xEF"
    using ne by (simp_all add: is_space_def byte_of_def)
  with scan_start [of l ?c "tl (dec_digits n) @ s"] assms(1) split obtain l1 where
    l1: "scan l = scan_token l1" "current l1 = Some ?c" "fresh l1 (tl (dec_digits n) @ s)"
    by (metis append_Cons)
  have "scan_token l1 = scan_number l1"
    using l1(2) \<open>is_digit ?c\<close> ne by (simp add: scan_token_def byte_of_def)
  with scan_unsigned [OF l1(3,2) assms(2,3)] l1(1) show ?thesis by (auto simp: scans_def)
qed

lemma scan_negative_token:
  assumes "ready l (CHR ''-'' # dec_digits n @ s)" and "number_ends s" and "0 < n" and "n \<le> 2 ^ 63"
  shows "scans l T_value_integer s (\<lambda>l'. value_integer l' = - of_nat n)"
proof -
  from scan_start [OF assms(1)] obtain l1 where
    l1: "scan l = scan_token l1" "current l1 = Some (CHR ''-'')" "fresh l1 (dec_digits n @ s)"
    by (auto simp: is_space_def)
  have "scan_token l1 = scan_number l1" using l1(2) by (simp add: scan_token_def)
  with scan_negative [OF l1(3,2) assms(2-4)] l1(1) show ?thesis by (auto simp: scans_def)
qed

end
