(* ===== verification/Json_Roundtrip.thy ===== *)
theory Json_Roundtrip
  imports Json_Scan
begin

text \<open>
  The parser on the serializer's output: what \<open>dump\<close> writes, \<open>parse\<close> reads back. Integers come back in the form
  the parser gives them (a nonnegative one as \<open>number_unsigned\<close>); floats are left out, since their text is a
  parameter.
\<close>

section \<open>The values covered, and the form they come back in\<close>

fun float_free :: "json \<Rightarrow> bool" where
  "float_free (JFloat b) = False"
| "float_free (JArray xs) = (\<forall>x \<in> set xs. float_free x)"
| "float_free (JObject m) = (\<forall>x \<in> set m. float_free (snd x))"
| "float_free _ = True"

text \<open>Every object has its keys in ascending order, as \<open>std::map\<close> keeps them.\<close>

fun map_ordered :: "json \<Rightarrow> bool" where
  "map_ordered (JArray xs) = (\<forall>x \<in> set xs. map_ordered x)"
| "map_ordered (JObject m) = (obj_sorted m \<and> (\<forall>x \<in> set m. map_ordered (snd x)))"
| "map_ordered _ = True"

fun parsed_form :: "json \<Rightarrow> json" where
  "parsed_form (JInteger w) = (if 0 \<le> sint w then JUnsigned w else JInteger w)"
| "parsed_form (JArray xs) = JArray (map parsed_form xs)"
| "parsed_form (JObject m) = JObject (map (\<lambda>x. (fst x, parsed_form (snd x))) m)"
| "parsed_form v = v"

section \<open>One value\<close>

definition after_value :: "json_parser \<Rightarrow> json_error + json_parser" where
  "after_value p = (case sax_state p of Inl r \<Rightarrow> r | Inr q \<Rightarrow> sax_parse_internal q)"

definition place :: "json \<Rightarrow> frame list \<times> json \<Rightarrow> frame list \<times> json" where
  "place v d = (case fst d of [] \<Rightarrow> ([], v) | f # fs \<Rightarrow> (handle_value_in v f # fs, snd d))"

definition doc :: "json_parser \<Rightarrow> frame list \<times> json" where
  "doc p = (ref_stack p, root p)"

definition value_done :: "bool list \<Rightarrow> frame list \<times> json \<Rightarrow> string \<Rightarrow> json_parser \<Rightarrow> bool" where
  "value_done S d s p \<longleftrightarrow>
     states p = S \<and> doc p = d \<and> \<not> skip_to_state_evaluation p \<and> unread (m_lexer p) s
     \<and> 0 < chars_read_total (m_lexer p)"

definition reads :: "json_parser \<Rightarrow> bool list \<Rightarrow> frame list \<times> json \<Rightarrow> string \<Rightarrow> bool" where
  "reads p S d s \<longleftrightarrow> (\<exists>p'. sax_parse_internal p = after_value p' \<and> value_done S d s p')"

lemma doc_handle_value: "doc (handle_value v p) = place v (doc p)"
  by (simp add: doc_def place_def handle_value_def split: list.splits)

lemma get_token_scans:
  assumes "scans (m_lexer p) t s P"
  shows "\<exists>l'. get_token p = p\<lparr>last_token := t, m_lexer := l'\<rparr> \<and> unread l' s \<and> 0 < chars_read_total l' \<and> P l'"
  using assms by (auto simp: scans_def get_token_def)

lemma turn_value:
  assumes "sax_value p = Inr (True, p')" and "\<not> skip_to_state_evaluation p"
  shows "sax_parse_internal p = after_value p'"
  using assms by (subst sax_parse_internal.simps) (simp add: sax_turn_def after_value_def)

lemma turn_nested:
  assumes "sax_value p = Inr (False, p')" and "\<not> skip_to_state_evaluation p"
  shows "sax_parse_internal p = sax_parse_internal p'"
  using assms by (subst sax_parse_internal.simps) (simp add: sax_turn_def)

lemma turn_closed:
  "sax_parse_internal (close_container p) =
   after_value ((end_container p)\<lparr>states := tl (states p), skip_to_state_evaluation := False\<rparr>)"
  by (subst sax_parse_internal.simps) (simp add: sax_turn_def after_value_def close_container_def)

text \<open>A token that is a whole value.\<close>

lemma reads_scalar:
  assumes "scans (m_lexer p) t s P" and "\<not> skip_to_state_evaluation p" and "t \<noteq> T_end_array"
    and "\<And>l. P l \<Longrightarrow> sax_value (p\<lparr>last_token := t, m_lexer := l\<rparr>)
           = Inr (True, handle_value v (p\<lparr>last_token := t, m_lexer := l\<rparr>))"
  shows "last_token (get_token p) \<noteq> T_end_array \<and> reads (get_token p) (states p) (place v (doc p)) s"
proof -
  from get_token_scans [OF assms(1)] obtain l where
    l: "get_token p = p\<lparr>last_token := t, m_lexer := l\<rparr>" "unread l s" "0 < chars_read_total l" "P l" by blast
  let ?p = "p\<lparr>last_token := t, m_lexer := l\<rparr>"
  have "sax_parse_internal ?p = after_value (handle_value v ?p)"
    using turn_value [OF assms(4) [OF l(4)]] assms(2) by simp
  moreover have "doc (handle_value v ?p) = place v (doc p)" by (simp add: doc_handle_value) (simp add: doc_def)
  ultimately show ?thesis
    using l assms(2,3) by (auto simp: reads_def value_done_def)
qed

lemma nat_sint: "0 \<le> sint w \<Longrightarrow> nat (sint w) = unat (w :: u64)"
proof -
  assume pos: "0 \<le> sint w"
  have "sint w < 2 ^ 63" using sint_lt [of w] by simp
  then have "take_bit 64 (sint w) = sint w" using pos by (intro take_bit_int_eq_self) simp_all
  moreover have "uint w = take_bit 64 (sint w)" using uint_sint [of w] by simp
  ultimately have "sint w = uint w" by simp
  then show ?thesis by (simp only: nat_uint_eq)
qed

lemma reads_integer:
  assumes "ready (m_lexer p) (to_string_int (sint w) @ s)" and "number_ends s" and "\<not> skip_to_state_evaluation p"
  shows "last_token (get_token p) \<noteq> T_end_array
    \<and> reads (get_token p) (states p) (place (parsed_form (JInteger w)) (doc p)) s"
proof (cases "0 \<le> sint w")
  case True
  then have t: "to_string_int (sint w) = dec_digits (unat w)"
    by (simp add: to_string_int_def nat_sint)
  have "unat w < 2 ^ 64" using unsigned_less [of w] by simp
  with assms t have "scans (m_lexer p) T_value_unsigned s (\<lambda>l'. value_unsigned l' = w)"
    using scan_unsigned_token [of "m_lexer p" "unat w" s] by simp
  from reads_scalar [OF this assms(3), of "JUnsigned w"] True show ?thesis
    by (simp add: sax_value_def Let_def)
next
  case False
  define n where "n = nat (- sint w)"
  have n: "0 < n" using False by (simp add: n_def)
  have "(of_nat n :: u64) = of_int (- sint w)" using False by (simp add: n_def)
  then have w: "- (of_nat n :: u64) = w" by simp
  have "- (2 ^ 63) \<le> sint w" using sint_ge [of w] by simp
  then have le: "n \<le> 2 ^ 63" by (simp add: n_def nat_le_iff)
  have t: "to_string_int (sint w) = CHR ''-'' # dec_digits n"
    using False by (simp add: to_string_int_def n_def)
  have "scans (m_lexer p) T_value_integer s (\<lambda>l'. value_integer l' = w)"
    using scan_negative_token [of "m_lexer p" n s] assms(1,2) n le unfolding t w by simp
  from reads_scalar [OF this assms(3), of "JInteger w"] False show ?thesis
    by (simp add: sax_value_def Let_def)
qed

section \<open>Containers\<close>

lemma get_structural:
  assumes "ready (m_lexer p) (c # s)"
    and "(c, t) \<in> set [(CHR ''['', T_begin_array), (CHR '']'', T_end_array), (CHR ''{'', T_begin_object),
           (CHR ''}'', T_end_object), (CHR '':'', T_name_separator), (CHR '','', T_value_separator)]"
  shows "\<exists>l. get_token p = p\<lparr>last_token := t, m_lexer := l\<rparr> \<and> ready l s \<and> unread l s \<and> 0 < chars_read_total l"
  using get_token_scans [OF scan_structural [OF assms]] ready_between by blast

lemma number_ends_structural [simp]:
  "number_ends (CHR '','' # s)" "number_ends (CHR '']'' # s)" "number_ends (CHR ''}'' # s)" "number_ends []"
  by (simp_all add: number_ends_def is_digit_def byte_of_def)

lemma obj_insert_twice: "obj_insert k v (obj_insert k w m) = obj_insert k v m"
  by (induction k w m rule: obj_insert.induct) auto

lemma sax_value_array:
  assumes "last_token p = T_begin_array" and "last_token (get_token (start_array p)) \<noteq> T_end_array"
  shows "sax_value p = Inr (False, get_token ((start_array p)\<lparr>states := True # states p\<rparr>))"
proof -
  have "(get_token q)\<lparr>states := S\<rparr> = get_token (q\<lparr>states := S\<rparr>)" for q S
    by (simp add: get_token_def split: prod.splits)
  with assms show ?thesis by (simp add: sax_value_def Let_def)
qed

lemma end_array_done:
  assumes "states p = True # S" and "ref_stack p = Arr_Frame xs # fs" and "\<not> skip_to_state_evaluation p"
    and "ready (m_lexer p) (CHR '']'' # s)"
  shows "\<exists>p'. after_value p = after_value p' \<and> value_done S (place (JArray xs) (fs, root p)) s p'"
proof -
  from get_structural [OF assms(4), of T_end_array] obtain l where
    l: "get_token p = p\<lparr>last_token := T_end_array, m_lexer := l\<rparr>" "unread l s" "0 < chars_read_total l" by auto
  let ?p = "p\<lparr>last_token := T_end_array, m_lexer := l\<rparr>"
  have "sax_state p = Inr (close_container ?p)"
    using assms(1) l(1) by (simp add: sax_state_def Let_def)
  then have "after_value p = after_value ((end_container ?p)\<lparr>states := tl (states ?p), skip_to_state_evaluation := False\<rparr>)"
    by (simp add: after_value_def turn_closed [unfolded after_value_def])
  moreover have "value_done S (place (JArray xs) (fs, root p)) s
      ((end_container ?p)\<lparr>states := tl (states ?p), skip_to_state_evaluation := False\<rparr>)"
    using assms(1,2) l
    by (auto simp: value_done_def doc_def place_def end_container_def handle_value_def split: list.splits)
  ultimately show ?thesis by blast
qed

lemma end_object_done:
  assumes "states p = False # S" and "ref_stack p = Obj_Frame m k # fs" and "\<not> skip_to_state_evaluation p"
    and "ready (m_lexer p) (CHR ''}'' # s)"
  shows "\<exists>p'. after_value p = after_value p' \<and> value_done S (place (JObject m) (fs, root p)) s p'"
proof -
  from get_structural [OF assms(4), of T_end_object] obtain l where
    l: "get_token p = p\<lparr>last_token := T_end_object, m_lexer := l\<rparr>" "unread l s" "0 < chars_read_total l" by auto
  let ?p = "p\<lparr>last_token := T_end_object, m_lexer := l\<rparr>"
  have "sax_state p = Inr (close_container ?p)"
    using assms(1) l(1) by (simp add: sax_state_def Let_def)
  then have "after_value p = after_value ((end_container ?p)\<lparr>states := tl (states ?p), skip_to_state_evaluation := False\<rparr>)"
    by (simp add: after_value_def turn_closed [unfolded after_value_def])
  moreover have "value_done S (place (JObject m) (fs, root p)) s
      ((end_container ?p)\<lparr>states := tl (states ?p), skip_to_state_evaluation := False\<rparr>)"
    using assms(1,2) l
    by (auto simp: value_done_def doc_def place_def end_container_def handle_value_def split: list.splits)
  ultimately show ?thesis by blast
qed

text \<open>The key of a member and its colon.\<close>

lemma parse_key_read:
  assumes "ready (m_lexer q) (CHR 0x22 # u @ CHR 0x22 # CHR '':'' # s)" and "utf8_escaped k u"
    and "ref_stack q = Obj_Frame m k' # fs"
  shows "last_token (get_token q) = T_value_string \<and>
    (\<exists>p. parse_key (get_token q) = Inr p \<and> ready (m_lexer p) s \<and> states p = states q \<and> root p = root q
       \<and> skip_to_state_evaluation p = skip_to_state_evaluation q
       \<and> (\<exists>m'. ref_stack p = Obj_Frame m' k # fs \<and> (\<forall>v. obj_insert k v m' = obj_insert k v m)))"
proof -
  from get_token_scans [OF scan_string_token [OF assms(1,2)]] obtain l where
    l: "get_token q = q\<lparr>last_token := T_value_string, m_lexer := l\<rparr>" "unread l (CHR '':'' # s)"
      "0 < chars_read_total l" "token_buffer l = k" by blast
  let ?q = "sax_key k (q\<lparr>last_token := T_value_string, m_lexer := l\<rparr>)"
  let ?m = "if map_of m k = None then obj_insert k JNull m else m"
  have "ready (m_lexer ?q) (CHR '':'' # s)" using ready_between l(2,3) by simp
  from get_structural [OF this, of T_name_separator] obtain l2 where
    l2: "get_token ?q = ?q\<lparr>last_token := T_name_separator, m_lexer := l2\<rparr>" "ready l2 s" by auto
  have "parse_key (get_token q) = Inr (?q\<lparr>last_token := T_name_separator, m_lexer := l2\<rparr>)"
    using l l2 by (simp add: parse_key_def Let_def)
  moreover have "ref_stack ?q = Obj_Frame ?m k # fs" "root ?q = root q"
    using assms(3) by (simp_all add: sax_key_def)
  ultimately show ?thesis using l l2 by (simp add: obj_insert_twice)
qed

section \<open>Whole values\<close>

lemma reads_then:
  assumes "reads p S d s"
    and "\<And>q. value_done S d s q \<Longrightarrow> \<exists>q'. after_value q = after_value q' \<and> value_done S' d' s' q'"
  shows "reads p S' d' s'"
  using assms unfolding reads_def by fastforce

lemma next_element:
  assumes "value_done (True # S) (Arr_Frame ys # fs, r) (CHR '','' # s) q"
  shows "\<exists>p. after_value q = sax_parse_internal (get_token p) \<and> states p = True # S
    \<and> ref_stack p = Arr_Frame ys # fs \<and> root p = r \<and> ready (m_lexer p) s \<and> \<not> skip_to_state_evaluation p"
proof -
  have "ready (m_lexer q) (CHR '','' # s)" using assms ready_between by (simp add: value_done_def)
  from get_structural [OF this, of T_value_separator] obtain l where
    l: "get_token q = q\<lparr>last_token := T_value_separator, m_lexer := l\<rparr>" "ready l s" by auto
  then have "after_value q = sax_parse_internal (get_token (q\<lparr>last_token := T_value_separator, m_lexer := l\<rparr>))"
    using assms by (simp add: after_value_def sax_state_def Let_def value_done_def)
  with l(2) assms show ?thesis
    by (intro exI [of _ "q\<lparr>last_token := T_value_separator, m_lexer := l\<rparr>"]) (simp add: value_done_def doc_def)
qed

lemma next_member:
  assumes "value_done (False # S) (Obj_Frame m k # fs, r) (CHR '','' # s) q"
  shows "\<exists>p. (\<forall>p2. parse_key (get_token p) = Inr p2 \<longrightarrow> after_value q = sax_parse_internal (get_token p2))
    \<and> states p = False # S \<and> ref_stack p = Obj_Frame m k # fs \<and> root p = r \<and> ready (m_lexer p) s
    \<and> \<not> skip_to_state_evaluation p"
proof -
  have "ready (m_lexer q) (CHR '','' # s)" using assms ready_between by (simp add: value_done_def)
  from get_structural [OF this, of T_value_separator] obtain l where
    l: "get_token q = q\<lparr>last_token := T_value_separator, m_lexer := l\<rparr>" "ready l s" by auto
  let ?p = "q\<lparr>last_token := T_value_separator, m_lexer := l\<rparr>"
  have "after_value q = sax_parse_internal (get_token p2)" if "parse_key (get_token ?p) = Inr p2" for p2
    using assms l that by (simp add: after_value_def sax_state_def Let_def value_done_def)
  with l(2) assms show ?thesis
    by (intro exI [of _ ?p]) (simp add: value_done_def doc_def)
qed

definition insert_all :: "(string \<times> json) list \<Rightarrow> (string \<times> json) list \<Rightarrow> (string \<times> json) list" where
  "insert_all kvs m = fold (\<lambda>(k, v). obj_insert k v) kvs m"

lemma insert_all_simps [simp]:
  "insert_all [] m = m" "insert_all ((k, v) # kvs) m = insert_all kvs (obj_insert k v m)"
  by (simp_all add: insert_all_def)

lemma insert_all_sorted:
  "obj_sorted (m @ kvs) \<Longrightarrow> insert_all kvs m = m @ kvs"
proof (induction kvs arbitrary: m)
  case (Cons x kvs)
  obtain k v where x: "x = (k, v)" by force
  have "obj_insert k v m = m @ [(k, v)]"
    using Cons.prems by (intro obj_insert_greatest) (auto simp: x obj_sorted_def sorted_wrt_append)
  with Cons show ?case by (simp add: x)
qed simp

definition value_reads :: "(u64 \<Rightarrow> string) \<Rightarrow> json \<Rightarrow> bool" where
  "value_reads dt v \<longleftrightarrow> (\<forall>t p s. dump_json dt v = Inr t \<longrightarrow> float_free v \<longrightarrow> map_ordered v \<longrightarrow>
     ready (m_lexer p) (t @ s) \<longrightarrow> number_ends s \<longrightarrow> \<not> skip_to_state_evaluation p \<longrightarrow>
     last_token (get_token p) \<noteq> T_end_array \<and> reads (get_token p) (states p) (place (parsed_form v) (doc p)) s)"

definition elems_read :: "(u64 \<Rightarrow> string) \<Rightarrow> json list \<Rightarrow> bool" where
  "elems_read dt xs \<longleftrightarrow> (\<forall>t p s S ys fs. xs \<noteq> [] \<longrightarrow> dump_elems dt xs = Inr t \<longrightarrow>
     (\<forall>x \<in> set xs. float_free x \<and> map_ordered x) \<longrightarrow> states p = True # S \<longrightarrow> ref_stack p = Arr_Frame ys # fs \<longrightarrow>
     ready (m_lexer p) (t @ CHR '']'' # s) \<longrightarrow> \<not> skip_to_state_evaluation p \<longrightarrow>
     last_token (get_token p) \<noteq> T_end_array
     \<and> reads (get_token p) S (place (JArray (ys @ map parsed_form xs)) (fs, root p)) s)"

definition members_read :: "(u64 \<Rightarrow> string) \<Rightarrow> (string \<times> json) list \<Rightarrow> bool" where
  "members_read dt kvs \<longleftrightarrow> (\<forall>t q s S m k fs. kvs \<noteq> [] \<longrightarrow> dump_members dt kvs = Inr t \<longrightarrow>
     (\<forall>x \<in> set kvs. float_free (snd x) \<and> map_ordered (snd x)) \<longrightarrow> ref_stack q = Obj_Frame m k # fs \<longrightarrow>
     ready (m_lexer q) (t @ CHR ''}'' # s) \<longrightarrow> \<not> skip_to_state_evaluation q \<longrightarrow>
     last_token (get_token q) = T_value_string
     \<and> (\<exists>p. parse_key (get_token q) = Inr p \<and> states p = states q
          \<and> reads (get_token (p\<lparr>states := False # S\<rparr>)) S
              (place (JObject (insert_all (map (\<lambda>x. (fst x, parsed_form (snd x))) kvs) m)) (fs, root q)) s))"

lemma value_readsD:
  "value_reads dt v \<Longrightarrow> dump_json dt v = Inr t \<Longrightarrow> float_free v \<Longrightarrow> map_ordered v \<Longrightarrow>
   ready (m_lexer p) (t @ s) \<Longrightarrow> number_ends s \<Longrightarrow> \<not> skip_to_state_evaluation p \<Longrightarrow>
   last_token (get_token p) \<noteq> T_end_array \<and> reads (get_token p) (states p) (place (parsed_form v) (doc p)) s"
  unfolding value_reads_def by blast

lemma elems_readD:
  "elems_read dt xs \<Longrightarrow> xs \<noteq> [] \<Longrightarrow> dump_elems dt xs = Inr t \<Longrightarrow>
   \<forall>x \<in> set xs. float_free x \<and> map_ordered x \<Longrightarrow> states p = True # S \<Longrightarrow> ref_stack p = Arr_Frame ys # fs \<Longrightarrow>
   ready (m_lexer p) (t @ CHR '']'' # s) \<Longrightarrow> \<not> skip_to_state_evaluation p \<Longrightarrow>
   last_token (get_token p) \<noteq> T_end_array
   \<and> reads (get_token p) S (place (JArray (ys @ map parsed_form xs)) (fs, root p)) s"
  unfolding elems_read_def by blast

lemma members_readD:
  "members_read dt kvs \<Longrightarrow> kvs \<noteq> [] \<Longrightarrow> dump_members dt kvs = Inr t \<Longrightarrow>
   \<forall>x \<in> set kvs. float_free (snd x) \<and> map_ordered (snd x) \<Longrightarrow> ref_stack q = Obj_Frame m k # fs \<Longrightarrow>
   ready (m_lexer q) (t @ CHR ''}'' # s) \<Longrightarrow> \<not> skip_to_state_evaluation q \<Longrightarrow>
   last_token (get_token q) = T_value_string
   \<and> (\<exists>p. parse_key (get_token q) = Inr p \<and> states p = states q
        \<and> reads (get_token (p\<lparr>states := False # S\<rparr>)) S
            (place (JObject (insert_all (map (\<lambda>x. (fst x, parsed_form (snd x))) kvs) m)) (fs, root q)) s)"
  unfolding members_read_def by blast

lemma elems_read_Cons:
  assumes v: "value_reads dt x" and xs: "elems_read dt xs"
  shows "elems_read dt (x # xs)"
  unfolding elems_read_def
proof (intro allI impI)
  fix t s S ys fs and p :: json_parser
  assume d: "dump_elems dt (x # xs) = Inr t"
    and ok: "\<forall>x \<in> set (x # xs). float_free x \<and> map_ordered x"
    and st: "states p = True # S" "ref_stack p = Arr_Frame ys # fs"
    and r: "ready (m_lexer p) (t @ CHR '']'' # s)" and skip: "\<not> skip_to_state_evaluation p"
  let ?d = "(Arr_Frame (ys @ [parsed_form x]) # fs, root p)"
  let ?G = "place (JArray (ys @ map parsed_form (x # xs))) (fs, root p)"
  have place: "place (parsed_form x) (doc p) = ?d" using st by (simp add: place_def doc_def)
  from d obtain t1 where t1: "dump_json dt x = Inr t1" by (auto split: sum.splits)
  show "last_token (get_token p) \<noteq> T_end_array \<and> reads (get_token p) S ?G s"
  proof (cases "xs = []")
    case True
    with d t1 have "t = t1" by simp
    with v t1 ok r skip place st have h: "last_token (get_token p) \<noteq> T_end_array"
      "reads (get_token p) (True # S) ?d (CHR '']'' # s)"
      unfolding value_reads_def by (metis list.set_intros(1) number_ends_structural(2))+
    have "reads (get_token p) S ?G s"
    proof (rule reads_then [OF h(2)])
      fix q assume "value_done (True # S) ?d (CHR '']'' # s) q"
      with end_array_done [of q S "ys @ [parsed_form x]" fs s] True show
        "\<exists>q'. after_value q = after_value q' \<and> value_done S ?G s q'"
        by (simp add: value_done_def doc_def ready_between)
    qed
    with h show ?thesis by simp
  next
    case False
    with d t1 obtain t2 where t2: "dump_elems dt xs = Inr t2" "t = t1 @ '','' @ t2" by (auto split: sum.splits)
    let ?s = "CHR '','' # t2 @ CHR '']'' # s"
    have "ready (m_lexer p) (t1 @ ?s)" using r t2(2) by simp
    with v t1 ok skip place st have h: "last_token (get_token p) \<noteq> T_end_array"
      "reads (get_token p) (True # S) ?d ?s"
      unfolding value_reads_def by (metis list.set_intros(1) number_ends_structural(1))+
    have "reads (get_token p) S ?G s"
    proof (rule reads_then [OF h(2)])
      fix q assume "value_done (True # S) ?d ?s q"
      from next_element [OF this] obtain p1 where
        p1: "after_value q = sax_parse_internal (get_token p1)" "states p1 = True # S"
          "ref_stack p1 = Arr_Frame (ys @ [parsed_form x]) # fs" "root p1 = root p"
          "ready (m_lexer p1) (t2 @ CHR '']'' # s)" "\<not> skip_to_state_evaluation p1" by auto
      have "reads (get_token p1) S (place (JArray ((ys @ [parsed_form x]) @ map parsed_form xs)) (fs, root p1)) s"
        using elems_readD [OF xs False t2(1) _ p1(2,3,5,6)] ok by simp
      then show "\<exists>q'. after_value q = after_value q' \<and> value_done S ?G s q'"
        using p1(1,4) by (simp add: reads_def)
    qed
    with h show ?thesis by simp
  qed
qed

text \<open>After a comma, the rest of the members and the closing brace.\<close>

lemma members_continue:
  assumes "members_read dt kvs" and "kvs \<noteq> []" and "dump_members dt kvs = Inr t"
    and "\<forall>x \<in> set kvs. float_free (snd x) \<and> map_ordered (snd x)"
    and "value_done (False # S) (Obj_Frame m k # fs, rt) (CHR '','' # t @ CHR ''}'' # s) p"
  shows "\<exists>q. after_value p = after_value q
           \<and> value_done S (place (JObject (insert_all (map (\<lambda>x. (fst x, parsed_form (snd x))) kvs) m)) (fs, rt)) s q"
proof -
  let ?pf = "map (\<lambda>x. (fst x, parsed_form (snd x)))"
  from next_member [OF assms(5)] obtain q1 where
    q1: "\<forall>p2. parse_key (get_token q1) = Inr p2 \<longrightarrow> after_value p = sax_parse_internal (get_token p2)"
      "states q1 = False # S" "ref_stack q1 = Obj_Frame m k # fs" "root q1 = rt"
      "ready (m_lexer q1) (t @ CHR ''}'' # s)" "\<not> skip_to_state_evaluation q1" by blast
  have "\<exists>p2. parse_key (get_token q1) = Inr p2 \<and> states p2 = states q1
      \<and> reads (get_token (p2\<lparr>states := False # S\<rparr>)) S (place (JObject (insert_all (?pf kvs) m)) (fs, root q1)) s"
    using members_readD [OF assms(1-3) _ q1(3,5,6)] assms(4) by simp
  then obtain p2 where p2: "parse_key (get_token q1) = Inr p2" "states p2 = False # S"
    "reads (get_token (p2\<lparr>states := False # S\<rparr>)) S (place (JObject (insert_all (?pf kvs) m)) (fs, rt)) s"
    using q1(2,4) by auto
  have "p2\<lparr>states := False # S\<rparr> = p2" using p2(2) by simp
  with p2 q1(1) show ?thesis by (simp add: reads_def)
qed

lemma members_read_Cons:
  assumes v: "value_reads dt x" and kvs: "members_read dt kvs"
  shows "members_read dt ((k, x) # kvs)"
  unfolding members_read_def
proof (intro allI impI)
  fix t s S m k' fs and q :: json_parser
  assume d: "dump_members dt ((k, x) # kvs) = Inr t"
    and ok: "\<forall>x \<in> set ((k, x) # kvs). float_free (snd x) \<and> map_ordered (snd x)"
    and st: "ref_stack q = Obj_Frame m k' # fs"
    and r: "ready (m_lexer q) (t @ CHR ''}'' # s)" and skip: "\<not> skip_to_state_evaluation q"
  let ?pf = "map (\<lambda>x. (fst x, parsed_form (snd x)))"
  let ?G = "place (JObject (insert_all (?pf ((k, x) # kvs)) m)) (fs, root q)"
  from d obtain kt t1 where t1: "dump_string k = Inr kt" "dump_json dt x = Inr t1"
    by (auto split: sum.splits)
  then obtain u where u: "utf8_escaped k u" "kt = CHR 0x22 # u @ [CHR 0x22]" by (auto simp: dump_string_iff)
  let ?s = "if kvs = [] then CHR ''}'' # s else CHR '','' # (case dump_members dt kvs of Inr t2 \<Rightarrow> t2) @ CHR ''}'' # s"
  have "t @ CHR ''}'' # s = CHR 0x22 # u @ CHR 0x22 # CHR '':'' # t1 @ ?s"
    using d t1 u(2) by (auto split: sum.splits)
  with r have "ready (m_lexer q) (CHR 0x22 # u @ CHR 0x22 # CHR '':'' # t1 @ ?s)" by simp
  from parse_key_read [OF this u(1) st] obtain p m' where
    key: "last_token (get_token q) = T_value_string" "parse_key (get_token q) = Inr p"
      "ready (m_lexer p) (t1 @ ?s)" "states p = states q" "root p = root q" "\<not> skip_to_state_evaluation p"
      "ref_stack p = Obj_Frame m' k # fs" "\<forall>v. obj_insert k v m' = obj_insert k v m"
    using skip by auto
  let ?p = "p\<lparr>states := False # S\<rparr>"
  let ?m = "obj_insert k (parsed_form x) m"
  have place: "place (parsed_form x) (doc ?p) = (Obj_Frame ?m k # fs, root q)"
    using key by (simp add: place_def doc_def)
  have ends: "number_ends ?s" by simp
  have h: "reads (get_token ?p) (False # S) (Obj_Frame ?m k # fs, root q) ?s"
    using value_readsD [OF v t1(2), of ?p ?s] ok key(3,6) ends place by simp
  have "reads (get_token ?p) S ?G s"
  proof (cases "kvs = []")
    case True
    show ?thesis
    proof (rule reads_then [OF h])
      fix p1 assume "value_done (False # S) (Obj_Frame ?m k # fs, root q) ?s p1"
      with end_object_done [of p1 S ?m k fs s] True show
        "\<exists>q'. after_value p1 = after_value q' \<and> value_done S ?G s q'"
        by (simp add: value_done_def doc_def ready_between)
    qed
  next
    case False
    with d t1 obtain t2 where t2: "dump_members dt kvs = Inr t2" by (auto split: sum.splits)
    show ?thesis
    proof (rule reads_then [OF h])
      fix p1 assume "value_done (False # S) (Obj_Frame ?m k # fs, root q) ?s p1"
      then have "value_done (False # S) (Obj_Frame ?m k # fs, root q) (CHR '','' # t2 @ CHR ''}'' # s) p1"
        using False t2 by simp
      from members_continue [OF kvs False t2 _ this] ok
      show "\<exists>q'. after_value p1 = after_value q' \<and> value_done S ?G s q'" by simp
    qed
  qed
  with key(1,2,4) show "last_token (get_token q) = T_value_string
     \<and> (\<exists>p. parse_key (get_token q) = Inr p \<and> states p = states q
          \<and> reads (get_token (p\<lparr>states := False # S\<rparr>)) S ?G s)"
    by blast
qed

lemma value_reads_array:
  assumes "elems_read dt xs"
  shows "value_reads dt (JArray xs)"
  unfolding value_reads_def
proof (intro allI impI)
  fix t s and p :: json_parser
  assume d: "dump_json dt (JArray xs) = Inr t" and ok: "float_free (JArray xs)" "map_ordered (JArray xs)"
    and r: "ready (m_lexer p) (t @ s)" and skip: "\<not> skip_to_state_evaluation p"
  let ?G = "place (parsed_form (JArray xs)) (doc p)"
  obtain u where t: "t = CHR ''['' # u" using d by (auto split: if_splits sum.splits)
  with r have "ready (m_lexer p) (CHR ''['' # u @ s)" by simp
  from get_structural [OF this, of T_begin_array] obtain l where
    l: "get_token p = p\<lparr>last_token := T_begin_array, m_lexer := l\<rparr>" "ready l (u @ s)" by auto
  let ?p = "p\<lparr>last_token := T_begin_array, m_lexer := l\<rparr>"
  have "reads ?p (states p) ?G s"
  proof (cases "xs = []")
    case True
    with d t have "u = '']''" by simp
    then have "ready (m_lexer (start_array ?p)) (CHR '']'' # s)" using l(2) by simp
    from get_structural [OF this, of T_end_array] obtain l2 where
      l2: "get_token (start_array ?p) = (start_array ?p)\<lparr>last_token := T_end_array, m_lexer := l2\<rparr>"
        "unread l2 s" "0 < chars_read_total l2" by auto
    let ?q = "end_container ((start_array ?p)\<lparr>last_token := T_end_array, m_lexer := l2\<rparr>)"
    have "sax_value ?p = Inr (True, ?q)" using l2(1) by (simp add: sax_value_def Let_def)
    from turn_value [OF this] skip have "sax_parse_internal ?p = after_value ?q" by simp
    moreover have "value_done (states p) ?G s ?q"
      using l2 skip True
      by (auto simp: value_done_def doc_def place_def end_container_def start_array_def handle_value_def
          split: list.splits)
    ultimately show ?thesis by (auto simp: reads_def)
  next
    case False
    with d t obtain e where e: "dump_elems dt xs = Inr e" "u = e @ '']''" by (auto split: sum.splits)
    let ?q = "(start_array ?p)\<lparr>states := True # states p\<rparr>"
    have h: "last_token (get_token ?q) \<noteq> T_end_array
        \<and> reads (get_token ?q) (states p) (place (JArray ([] @ map parsed_form xs)) (ref_stack p, root p)) s"
      using elems_readD [OF assms False e(1), of ?q "states p" "[]" "ref_stack p" s] ok l(2) e(2) skip
      by (simp add: start_array_def)
    have "last_token (get_token (start_array ?p)) \<noteq> T_end_array"
      using h by (simp add: get_token_def split: prod.splits)
    then have "sax_value ?p = Inr (False, get_token ?q)" by (simp add: sax_value_array)
    from turn_nested [OF this] skip h show ?thesis by (simp add: reads_def doc_def)
  qed
  with l(1) show "last_token (get_token p) \<noteq> T_end_array \<and> reads (get_token p) (states p) ?G s" by simp
qed

lemma value_reads_object:
  assumes "members_read dt m"
  shows "value_reads dt (JObject m)"
  unfolding value_reads_def
proof (intro allI impI)
  fix t s and p :: json_parser
  assume d: "dump_json dt (JObject m) = Inr t" and ok: "float_free (JObject m)" "map_ordered (JObject m)"
    and r: "ready (m_lexer p) (t @ s)" and skip: "\<not> skip_to_state_evaluation p"
  let ?pf = "map (\<lambda>x. (fst x, parsed_form (snd x))) m"
  let ?G = "place (parsed_form (JObject m)) (doc p)"
  obtain u where t: "t = CHR ''{'' # u" using d by (auto split: if_splits sum.splits)
  with r have "ready (m_lexer p) (CHR ''{'' # u @ s)" by simp
  from get_structural [OF this, of T_begin_object] obtain l where
    l: "get_token p = p\<lparr>last_token := T_begin_object, m_lexer := l\<rparr>" "ready l (u @ s)" by auto
  let ?p = "p\<lparr>last_token := T_begin_object, m_lexer := l\<rparr>"
  have "reads ?p (states p) ?G s"
  proof (cases "m = []")
    case True
    with d t have "u = ''}''" by simp
    then have "ready (m_lexer (start_object ?p)) (CHR ''}'' # s)" using l(2) by simp
    from get_structural [OF this, of T_end_object] obtain l2 where
      l2: "get_token (start_object ?p) = (start_object ?p)\<lparr>last_token := T_end_object, m_lexer := l2\<rparr>"
        "unread l2 s" "0 < chars_read_total l2" by auto
    let ?q = "end_container ((start_object ?p)\<lparr>last_token := T_end_object, m_lexer := l2\<rparr>)"
    have "sax_value ?p = Inr (True, ?q)" using l2(1) by (simp add: sax_value_def Let_def)
    from turn_value [OF this] skip have "sax_parse_internal ?p = after_value ?q" by simp
    moreover have "value_done (states p) ?G s ?q"
      using l2 skip True
      by (auto simp: value_done_def doc_def place_def end_container_def start_object_def handle_value_def
          split: list.splits)
    ultimately show ?thesis by (auto simp: reads_def)
  next
    case False
    with d t obtain e where e: "dump_members dt m = Inr e" "u = e @ ''}''" by (auto split: sum.splits)
    let ?q = "start_object ?p"
    have "last_token (get_token ?q) = T_value_string \<and> (\<exists>p2. parse_key (get_token ?q) = Inr p2
        \<and> states p2 = states ?q \<and> reads (get_token (p2\<lparr>states := False # states p\<rparr>)) (states p)
            (place (JObject (insert_all ?pf [])) (ref_stack p, root p)) s)"
      using members_readD [OF assms False e(1), of ?q "[]" "[]" "ref_stack p" s "states p"] ok l(2) e(2) skip
      by (simp add: start_object_def)
    then obtain p2 where p2: "last_token (get_token ?q) = T_value_string" "parse_key (get_token ?q) = Inr p2"
      "states p2 = states p"
      "reads (get_token (p2\<lparr>states := False # states p\<rparr>)) (states p)
         (place (JObject (insert_all ?pf [])) (ref_stack p, root p)) s" by auto
    have "obj_sorted ?pf" using ok(2) by (simp add: obj_sorted_def comp_def)
    then have all: "insert_all ?pf [] = ?pf" using insert_all_sorted [of "[]" ?pf] by simp
    have "sax_value ?p = Inr (False, get_token (p2\<lparr>states := False # states p2\<rparr>))"
      using p2(1,2) by (simp add: sax_value_def Let_def)
    from turn_nested [OF this] skip p2(3,4) all show ?thesis by (simp add: reads_def doc_def)
  qed
  with l(1) show "last_token (get_token p) \<noteq> T_end_array \<and> reads (get_token p) (states p) ?G s" by simp
qed

lemma value_reads_literal:
  assumes "(lit, t, v) \<in> set [(''true'', T_literal_true, JBoolean True), (''false'', T_literal_false, JBoolean False),
      (''null'', T_literal_null, JNull)]"
  shows "value_reads dt v"
  unfolding value_reads_def
proof (intro allI impI)
  fix d s and p :: json_parser
  assume d: "dump_json dt v = Inr d" and r: "ready (m_lexer p) (d @ s)" and skip: "\<not> skip_to_state_evaluation p"
  have "d = lit" "parsed_form v = v" using assms d by auto
  moreover have "(lit, t) \<in> set [(''true'', T_literal_true), (''false'', T_literal_false), (''null'', T_literal_null)]"
    using assms by auto
  ultimately have "scans (m_lexer p) t s (\<lambda>_. True)" using scan_literal_token r by metis
  from reads_scalar [OF this skip, of v] assms \<open>parsed_form v = v\<close> show
    "last_token (get_token p) \<noteq> T_end_array \<and> reads (get_token p) (states p) (place (parsed_form v) (doc p)) s"
    by (auto simp: sax_value_def Let_def)
qed

lemma value_reads_string: "value_reads dt (JString x)"
  unfolding value_reads_def
proof (intro allI impI)
  fix d s and p :: json_parser
  assume d: "dump_json dt (JString x) = Inr d" and r: "ready (m_lexer p) (d @ s)" and skip: "\<not> skip_to_state_evaluation p"
  from d obtain u where "utf8_escaped x u" "d = CHR 0x22 # u @ [CHR 0x22]" by (auto simp: dump_string_iff)
  with r have "scans (m_lexer p) T_value_string s (\<lambda>l'. token_buffer l' = x)"
    using scan_string_token [of "m_lexer p" u s x] by simp
  from reads_scalar [OF this skip, of "JString x"] show
    "last_token (get_token p) \<noteq> T_end_array \<and> reads (get_token p) (states p) (place (parsed_form (JString x)) (doc p)) s"
    by (simp add: sax_value_def Let_def)
qed

lemma value_reads_unsigned: "value_reads dt (JUnsigned w)"
  unfolding value_reads_def
proof (intro allI impI)
  fix d s and p :: json_parser
  assume d: "dump_json dt (JUnsigned w) = Inr d" and r: "ready (m_lexer p) (d @ s)" and e: "number_ends s"
    and skip: "\<not> skip_to_state_evaluation p"
  have "unat w < 2 ^ 64" using unsigned_less [of w] by simp
  with d r e have "scans (m_lexer p) T_value_unsigned s (\<lambda>l'. value_unsigned l' = w)"
    using scan_unsigned_token [of "m_lexer p" "unat w" s] by simp
  from reads_scalar [OF this skip, of "JUnsigned w"] show
    "last_token (get_token p) \<noteq> T_end_array \<and> reads (get_token p) (states p) (place (parsed_form (JUnsigned w)) (doc p)) s"
    by (simp add: sax_value_def Let_def)
qed

lemma all_reads: "value_reads dt v" "elems_read dt xs" "members_read dt kvs"
proof (induction dt v and dt xs and dt kvs rule: dump_json_dump_elems_dump_members.induct)
  case (1 dt)
  then show ?case by (rule value_reads_literal [of "''null''" T_literal_null]) simp
next
  case (2 dt b)
  then show ?case
    by (cases b) (rule value_reads_literal [of "''true''" T_literal_true], simp,
      rule value_reads_literal [of "''false''" T_literal_false], simp)
next
  case (3 dt s)
  then show ?case by (rule value_reads_string)
next
  case (4 dt w)
  then show ?case unfolding value_reads_def using reads_integer by auto
next
  case (5 dt w)
  then show ?case by (rule value_reads_unsigned)
next
  case (6 dt b)
  then show ?case by (simp add: value_reads_def)
next
  case (7 dt xs)
  then show ?case by (cases "xs = []") (auto intro!: value_reads_array simp: elems_read_def)
next
  case (8 dt m)
  then show ?case by (cases "m = []") (auto intro!: value_reads_object simp: members_read_def)
next
  case (9 dt)
  then show ?case by (simp add: elems_read_def)
next
  case (10 dt x xs)
  show ?case
  proof (cases "dump_json dt x")
    case (Inl e)
    then show ?thesis by (simp add: elems_read_def)
  next
    case (Inr t)
    have "elems_read dt xs" using 10(2) [OF Inr] by (cases "xs = []") (simp_all add: elems_read_def)
    with 10(1) show ?thesis by (rule elems_read_Cons)
  qed
next
  case (11 dt)
  then show ?case by (simp add: members_read_def)
next
  case (12 dt k v m)
  show ?case
  proof (cases "dump_string k")
    case (Inl e)
    then show ?thesis by (simp add: members_read_def)
  next
    case k: (Inr kt)
    show ?thesis
    proof (cases "dump_json dt v")
      case (Inl e)
      with k show ?thesis by (simp add: members_read_def)
    next
      case (Inr t)
      have "members_read dt m" using 12(2) [OF k Inr] by (cases "m = []") (simp_all add: members_read_def)
      with 12(1) [OF k] show ?thesis by (rule members_read_Cons)
    qed
  qed
qed

section \<open>The round trip\<close>

lemma parse_dumped:
  assumes "dump_json dt v = Inr t" and "float_free v" and "map_ordered v"
  shows "json_parse t = Inr (parsed_form v)"
proof -
  let ?p = "\<lparr>m_lexer = init_lexer t, last_token = T_uninitialized, states = [],
      skip_to_state_evaluation = False, ref_stack = [], root = JNull\<rparr>"
  have "ready (m_lexer ?p) (t @ [])"
    by (simp add: ready_def unread_def init_lexer_def)
  from value_readsD [OF all_reads(1) assms this] have "reads (get_token ?p) [] ([], parsed_form v) []"
    by (simp add: place_def doc_def)
  then obtain q where q: "sax_parse_internal (init_parser t) = after_value q" "value_done [] ([], parsed_form v) [] q"
    by (auto simp: reads_def init_parser_def)
  from q(2) have st: "states q = []" "root q = parsed_form v" by (simp_all add: value_done_def doc_def)
  from q(2) obtain l where "scan (m_lexer q) = (T_end_of_input, l)"
    using scan_end [of "m_lexer q"] by (auto simp: value_done_def)
  then have "last_token (get_token q) = T_end_of_input" by (simp add: get_token_def)
  moreover have "after_value q = Inr q" using st by (simp add: after_value_def sax_state_def)
  ultimately show ?thesis using q(1) st by (simp add: json_parse_def Let_def)
qed

text \<open>
  C30. What the serializer writes the parser reads back: the text \<open>dump\<close> produces for a value without floats
  parses, and to the same value, except that a nonnegative integer comes back in its unsigned form.
\<close>

theorem json_roundtrip:
  assumes "dump_json dt v = Inr t" and "float_free v" and "map_ordered v"
  shows "json_parse t = Inr (parsed_form v)"
  using assms by (rule parse_dumped)

theorem json_roundtrip_witness:
  "json_parse ''{\"a\":[-7,true],\"b\":\"x\"}'' =
     Inr (JObject [(''a'', JArray [JInteger (- 7), JBoolean True]), (''b'', JString ''x'')])"
proof -
  let ?v = "JObject [(''a'', JArray [JInteger (- 7), JBoolean True]), (''b'', JString ''x'')]"
  have d: "dump_json (\<lambda>_. []) ?v = Inr ''{\"a\":[-7,true],\"b\":\"x\"}''" by code_simp
  have ok: "float_free ?v" "map_ordered ?v" by (simp, code_simp)
  have "parsed_form ?v = ?v" by code_simp
  with json_roundtrip [OF d ok] show ?thesis by simp
qed

end
