(* ===== verification/Json_Valid.thy ===== *)
theory Json_Valid
  imports Json_Text Json_Parser
begin

unbundle bit_operations_syntax

text \<open>
  What the parser can return: every string and key is UTF-8 text, every object is in key order. Such a value can
  be dumped, so relaying a parsed value never throws.
\<close>

section \<open>UTF-8 text\<close>

definition utf8_valid :: "string \<Rightarrow> bool" where
  "utf8_valid s \<longleftrightarrow> (\<exists>t. utf8_escaped s t)"

lemma utf8_valid_Nil [simp]: "utf8_valid []"
  by (auto simp: utf8_valid_def intro: escaped_Nil)

lemma utf8_valid_append:
  assumes "utf8_valid x" and "utf8_valid y"
  shows "utf8_valid (x @ y)"
proof -
  from assms obtain s t where "utf8_escaped x s" "utf8_escaped y t" by (auto simp: utf8_valid_def)
  then have "utf8_escaped (x @ y) (s @ t)"
    by (induction rule: utf8_escaped.induct) (auto dest: escaped_char)
  then show ?thesis by (auto simp: utf8_valid_def)
qed

lemma utf8_valid_char: "utf8_char x \<Longrightarrow> utf8_valid x"
  using escaped_char [OF _ escaped_Nil, of x] by (auto simp: utf8_valid_def)

lemma utf8_valid_dump: "utf8_valid s \<longleftrightarrow> (\<exists>t. dump_string s = Inr t)"
  by (auto simp: utf8_valid_def dump_string_iff)

lemma utf8_char_ascii: "byte_of c < 0x80 \<Longrightarrow> utf8_char [c]"
  by (simp add: utf8_char_def char_ranges_def)

lemma utf8_valid_ascii: "\<forall>c \<in> set s. byte_of c < 0x80 \<Longrightarrow> utf8_valid s"
proof (induction s)
  case (Cons c s)
  with utf8_valid_append [OF utf8_valid_char [OF utf8_char_ascii [of c]], of s] show ?case by simp
qed simp

section \<open>Code points\<close>

lemma push_or: "b < 2 ^ n \<Longrightarrow> push_bit n a OR b = push_bit n a + (b :: nat)"
proof -
  assume "b < 2 ^ n"
  then have "take_bit n b = b" by (simp add: take_bit_nat_eq_self_iff)
  then have "push_bit n a AND b = 0"
    by (metis (no_types) bit_and_iff bit_push_bit_iff bit_take_bit_iff bit_0_eq bot_apply bot_bool_def bit_eqI not_less)
  then show ?thesis by (rule disjunctive_add_eq_or [symmetric])
qed

lemma lead_or:
  "x < 64 \<Longrightarrow> 0x80 OR x = 0x80 + (x :: nat)" "x < 32 \<Longrightarrow> 0xC0 OR x = 0xC0 + (x :: nat)"
  "x < 16 \<Longrightarrow> 0xE0 OR x = 0xE0 + (x :: nat)" "x < 8 \<Longrightarrow> 0xF0 OR x = 0xF0 + (x :: nat)"
  using push_or [of x 6 2] push_or [of x 5 6] push_or [of x 4 14] push_or [of x 3 30]
  by (simp_all add: push_bit_eq_mult)

lemma low_bits: "(x AND 0x3F :: nat) = x mod 64"
  using mask_mod(1) [of x] by (simp add: and.commute)

lemma utf8_bytes_eq:
  assumes "cp < 0x110000"
  shows "utf8_bytes cp =
    (if cp < 0x80 then [cp]
     else if cp \<le> 0x7FF then [0xC0 + cp div 64, 0x80 + cp mod 64]
     else if cp \<le> 0xFFFF then [0xE0 + cp div 4096, 0x80 + cp div 64 mod 64, 0x80 + cp mod 64]
     else [0xF0 + cp div 262144, 0x80 + cp div 4096 mod 64, 0x80 + cp div 64 mod 64, 0x80 + cp mod 64])"
proof -
  have "cp \<le> 0x7FF \<Longrightarrow> cp div 64 < 32" "cp \<le> 0xFFFF \<Longrightarrow> cp div 4096 < 16" "cp div 262144 < 8"
    using assms by (simp_all add: div_less_iff_less_mult)
  then show ?thesis
    by (simp add: utf8_bytes_def low_bits lead_or drop_bit_eq_div)
qed

definition scalar_value :: "nat \<Rightarrow> bool" where
  "scalar_value cp \<longleftrightarrow> cp < 0x110000 \<and> \<not> (0xD800 \<le> cp \<and> cp \<le> 0xDFFF)"

lemma byte_of_char_of: "n < 256 \<Longrightarrow> byte_of (char_of n) = n"
  by (simp add: byte_of_def)

lemma two_bytes:
  "2 \<le> q \<Longrightarrow> q < 32 \<Longrightarrow> r < 64 \<Longrightarrow> utf8_char [char_of (0xC0 + q :: nat), char_of (0x80 + r :: nat)]"
  by (simp add: utf8_char_def char_ranges_def lead_ranges_def byte_of_char_of in_range_def)

lemma three_bytes:
  assumes "q < 16" and "r < 64" and "t < 64" and "q = 0 \<Longrightarrow> 32 \<le> r" and "q = 13 \<Longrightarrow> r \<le> 31"
  shows "utf8_char [char_of (0xE0 + q :: nat), char_of (0x80 + r :: nat), char_of (0x80 + t :: nat)]"
proof -
  have "char_ranges (0xE0 + q) =
      Some [if q = 0 then (0xA0, 0xBF) else if q = 13 then (0x80, 0x9F) else (0x80, 0xBF), (0x80, 0xBF)]"
    using assms(1) by (simp add: char_ranges_def lead_ranges_def)
  with assms show ?thesis by (simp add: utf8_char_def byte_of_char_of in_range_def)
qed

lemma four_bytes:
  assumes "q < 5" and "r < 64" and "t < 64" and "u < 64" and "q = 0 \<Longrightarrow> 16 \<le> r" and "q = 4 \<Longrightarrow> r \<le> 15"
  shows "utf8_char [char_of (0xF0 + q :: nat), char_of (0x80 + r :: nat), char_of (0x80 + t :: nat), char_of (0x80 + u :: nat)]"
proof -
  have "char_ranges (0xF0 + q) =
      Some [if q = 0 then (0x90, 0xBF) else if q = 4 then (0x80, 0x8F) else (0x80, 0xBF), (0x80, 0xBF), (0x80, 0xBF)]"
    using assms(1) by (simp add: char_ranges_def lead_ranges_def)
  with assms show ?thesis by (simp add: utf8_char_def byte_of_char_of in_range_def)
qed

lemma utf8_char_scalar:
  assumes "scalar_value cp"
  shows "utf8_char (map char_of (utf8_bytes cp))"
proof -
  have lt: "cp < 0x110000" using assms by (simp add: scalar_value_def)
  consider "cp < 0x80" | "0x80 \<le> cp" "cp \<le> 0x7FF" | "0x7FF < cp" "cp \<le> 0xFFFF" | "0xFFFF < cp" by linarith
  then show ?thesis
  proof cases
    case 1
    then show ?thesis by (simp add: utf8_bytes_eq [OF lt] utf8_char_ascii byte_of_char_of)
  next
    case 2
    then have "2 \<le> cp div 64" "cp div 64 < 32"
      by (simp_all add: less_eq_div_iff_mult_less_eq div_less_iff_less_mult)
    with 2 show ?thesis by (simp add: utf8_bytes_eq [OF lt] two_bytes)
  next
    case 3
    have r: "cp div 64 mod 64 = cp div 64 - 64 * (cp div 4096)"
      by (simp add: minus_mult_div_eq_mod [symmetric] div_mult2_eq [symmetric])
    have "cp div 4096 < 16" using 3 by (simp add: div_less_iff_less_mult)
    moreover have "32 \<le> cp div 64 mod 64" if "cp div 4096 = 0"
      using 3(1) by (simp add: r that less_eq_div_iff_mult_less_eq)
    moreover have "cp div 64 mod 64 \<le> 31" if "cp div 4096 = 13"
    proof -
      have "cp div 4096 < 14" using that by simp
      then have "cp < 0xE000" by (simp add: div_less_iff_less_mult)
      then have "cp < 0xD800" using assms by (auto simp: scalar_value_def)
      then have "cp div 64 < 864" by (simp add: div_less_iff_less_mult)
      then show ?thesis by (simp add: r that)
    qed
    ultimately show ?thesis using 3 three_bytes by (simp add: utf8_bytes_eq [OF lt])
  next
    case 4
    have r: "cp div 4096 mod 64 = cp div 4096 - 64 * (cp div 262144)"
      by (simp add: minus_mult_div_eq_mod [symmetric] div_mult2_eq [symmetric])
    have "cp div 262144 < 5" using lt by (simp add: div_less_iff_less_mult)
    moreover have "16 \<le> cp div 4096 mod 64" if "cp div 262144 = 0"
      using 4 by (simp add: r that less_eq_div_iff_mult_less_eq)
    moreover have "cp div 4096 mod 64 \<le> 15" if "cp div 262144 = 4"
    proof -
      have "cp div 4096 < 272" using lt by (simp add: div_less_iff_less_mult)
      then show ?thesis by (simp add: r that)
    qed
    ultimately show ?thesis using 4 four_bytes by (simp add: utf8_bytes_eq [OF lt])
  qed
qed

section \<open>Scanned strings\<close>

lemma hex_val_less: "hex_val c = Some v \<Longrightarrow> v < 16"
  by (auto simp: hex_val_def Let_def split: if_splits)

lemma get_codepoint_bound:
  assumes "get_codepoint l = (Some cp, l')"
  shows "cp < 0x10000 \<and> token_buffer l' = token_buffer l"
proof -
  have "cp < k + sum_list (map (\<lambda>f. 15 * 2 ^ f) fs) + 1 \<and> token_buffer l' = token_buffer l"
    if "get_codepoint_loop fs k l = (Some cp, l')" for fs k l
    using that
  proof (induction fs k l rule: get_codepoint_loop.induct)
    case (2 f fs k l)
    then obtain v where v: "Option.bind (current (lex_get l)) hex_val = Some v"
      "get_codepoint_loop fs (k + push_bit f v) (lex_get l) = (Some cp, l')"
      by (auto simp: Let_def split: option.splits)
    then have "v < 16" by (cases "current (lex_get l)") (auto dest: hex_val_less)
    then have "push_bit f v \<le> 15 * 2 ^ f" by (simp add: push_bit_eq_mult)
    with "2.IH" [OF refl v] show ?case by (simp add: lex_get_fields)
  qed auto
  from this [of "[12, 8, 4, 0]" 0 l] assms show ?thesis by (simp add: get_codepoint_def)
qed

lemma add_codepoint_buffer: "token_buffer (add_codepoint cp l) = token_buffer l @ map char_of (utf8_bytes cp)"
proof -
  have "token_buffer (fold (\<lambda>b. lex_add (char_of b)) bs l) = token_buffer l @ map char_of bs" for bs :: "nat list"
    by (induction bs arbitrary: l) (simp_all add: lex_add_def)
  then show ?thesis by (simp add: add_codepoint_def)
qed

text \<open>A scan that only adds characters to the token buffer.\<close>

definition adds_text :: "lexer \<Rightarrow> lexer \<Rightarrow> bool" where
  "adds_text l l' \<longleftrightarrow> (\<exists>x. token_buffer l' = token_buffer l @ x \<and> utf8_valid x)"

lemma adds_text_codepoint:
  "scalar_value cp \<Longrightarrow> token_buffer l1 = token_buffer l \<Longrightarrow> adds_text l (add_codepoint cp l1)"
  using utf8_valid_char [OF utf8_char_scalar] by (auto simp: adds_text_def add_codepoint_buffer)

lemma scan_unicode_text:
  assumes "scan_unicode l = (True, l')"
  shows "adds_text l l'"
proof -
  obtain r l1 where g: "get_codepoint l = (r, l1)" by force
  with assms obtain cp where cp: "r = Some cp" by (cases r) (auto simp: scan_unicode_def)
  note b = get_codepoint_bound [OF g [unfolded cp]]
  let ?l3 = "lex_get (lex_get l1)"
  show ?thesis
  proof (cases "0xD800 \<le> cp \<and> cp \<le> 0xDBFF")
    case False
    with assms g cp have "\<not> (0xDC00 \<le> cp \<and> cp \<le> 0xDFFF)" "l' = add_codepoint cp l1"
      by (auto simp: scan_unicode_def split: if_splits)
    moreover have "scalar_value cp" using False calculation(1) b by (auto simp: scalar_value_def)
    ultimately show ?thesis using adds_text_codepoint b by simp
  next
    case True
    obtain r2 l4 where g2: "get_codepoint ?l3 = (r2, l4)" by force
    with assms g cp True obtain cp2 where cp2: "r2 = Some cp2" "0xDC00 \<le> cp2" "cp2 \<le> 0xDFFF"
      "l' = add_codepoint (cp * 2 ^ 10 + cp2 - 0x35FDC00) l4"
      by (auto simp: scan_unicode_def Let_def split: if_splits option.splits)
    have "token_buffer l4 = token_buffer l"
      using get_codepoint_bound [OF g2 [unfolded cp2(1)]] b by (simp add: lex_get_fields)
    moreover have "scalar_value (cp * 2 ^ 10 + cp2 - 0x35FDC00)"
      using True cp2(2,3) by (auto simp: scalar_value_def)
    ultimately show ?thesis using adds_text_codepoint cp2(4) by simp
  qed
qed

lemma adds_text_one: "utf8_char [c] \<Longrightarrow> token_buffer l1 = token_buffer l \<Longrightarrow> adds_text l (lex_add c l1)"
  using utf8_valid_char [of "[c]"] by (auto simp: adds_text_def lex_add_def)

lemma scan_escape_text: "scan_escape l = (True, l') \<Longrightarrow> adds_text l l'"
proof -
  assume s: "scan_escape l = (True, l')"
  have b: "token_buffer (lex_get l) = token_buffer l" by (rule lex_get_fields)
  have a: "utf8_char [c]" if "byte_of c < 0x80" for c using that by (rule utf8_char_ascii)
  have u: "adds_text l l'" if "scan_unicode (lex_get l) = (True, l')"
    using scan_unicode_text [OF that] b by (simp add: adds_text_def)
  show ?thesis
    using s u by (auto simp: scan_escape_def Let_def byte_of_def split: option.splits if_splits
        intro!: adds_text_one a b)
qed

lemma next_bytes_text:
  assumes "next_bytes_loop rs l = (True, l')"
  shows "\<exists>ks. token_buffer l' = token_buffer l @ ks \<and> list_all2 in_range rs ks"
  using assms
proof (induction rs l rule: next_bytes_loop.induct)
  case (1 l)
  then show ?case by simp
next
  case (2 lo hi rs l)
  then obtain c where c: "current (lex_get l) = Some c" "lo \<le> byte_of c \<and> byte_of c \<le> hi"
    "next_bytes_loop rs (lex_add c (lex_get l)) = (True, l')"
    by (auto simp: Let_def split: option.splits if_splits)
  from "2.IH" [OF refl c] obtain ks where
    "token_buffer l' = token_buffer (lex_add c (lex_get l)) @ ks" "list_all2 in_range rs ks" by blast
  with c(2) show ?case
    by (intro exI [of _ "c # ks"]) (simp add: lex_add_def lex_get_fields in_range_def [of "(lo, hi)"])
qed

lemma scan_string_step_text:
  assumes "scan_string_step l = Inr l'"
  shows "adds_text l l'"
proof -
  have b: "token_buffer (lex_get l) = token_buffer l" by (rule lex_get_fields)
  from assms obtain c where c: "current (lex_get l) = Some c"
    by (cases "current (lex_get l)") (auto simp: scan_string_step_def Let_def)
  show ?thesis
  proof (cases "c = CHR 0x5C")
    case True
    with assms c have "scan_escape (lex_get l) = (True, l')"
      by (auto simp: scan_string_step_def Let_def split: prod.splits if_splits)
    from scan_escape_text [OF this] b show ?thesis by (simp add: adds_text_def)
  next
    case False
    with assms c obtain rs where rs: "lead_ranges (byte_of c) = Some rs"
      "next_byte_in_range rs (lex_get l) = (True, l')"
      by (auto simp: scan_string_step_def Let_def split: prod.splits if_splits option.splits)
    from next_bytes_text [of rs "lex_add c (lex_get l)" l'] rs(2) c obtain ks where
      ks: "token_buffer l' = token_buffer l @ c # ks" "list_all2 in_range rs ks"
      by (auto simp: next_byte_in_range_def lex_add_def b)
    have "char_ranges (byte_of c) = Some rs"
      using rs(1) by (auto simp: char_ranges_def lead_ranges_def split: if_splits)
    with ks(2) have "utf8_char (c # ks)" by (simp add: utf8_char_def)
    with ks(1) show ?thesis by (auto simp: adds_text_def intro: utf8_valid_char)
  qed
qed

lemma scan_string_loop_text:
  assumes "scan_string_loop l = (T_value_string, l')" and "utf8_valid (token_buffer l)"
  shows "utf8_valid (token_buffer l')"
  using assms
proof (induction l rule: scan_string_loop.induct)
  case (1 l)
  show ?case
  proof (cases "scan_string_step l")
    case (Inl r)
    with "1.prems"(1) have "scan_string_step l = Inl (T_value_string, l')"
      by (simp add: scan_string_loop.simps [of l])
    then have "l' = lex_get l"
      by (auto simp: scan_string_step_def Let_def lex_error_def split: option.splits if_splits prod.splits)
    with "1.prems"(2) show ?thesis by (simp add: lex_get_fields)
  next
    case (Inr l1)
    with "1.prems"(1) have "scan_string_loop l1 = (T_value_string, l')"
      by (simp add: scan_string_loop.simps [of l])
    moreover have "utf8_valid (token_buffer l1)"
      using scan_string_step_text [OF Inr] "1.prems"(2) by (auto simp: adds_text_def utf8_valid_append)
    ultimately show ?thesis by (rule "1.IH" [OF Inr])
  qed
qed

lemma scan_value_string:
  assumes "scan l = (T_value_string, l')"
  shows "utf8_valid (token_buffer l')"
proof -
  obtain l1 where t: "scan_token l1 = (T_value_string, l')"
    using assms by (auto simp: scan_def lex_error_def split: prod.splits if_splits)
  have lit: "fst (scan_literal lit tt x) \<in> {tt, T_parse_error}" for lit tt x
  proof -
    have "fst (scan_literal_loop cs tt y) \<in> {tt, T_parse_error}" for cs y
      by (induction cs arbitrary: y) (auto simp: Let_def lex_error_def)
    then show ?thesis by (simp add: scan_literal_def)
  qed
  have num: "fst (scan_number x) \<noteq> T_value_string" for x
    by (simp add: scan_number_def finish_number_def Let_def split: prod.splits)
  have "scan_string l1 = (T_value_string, l')"
    using t lit [of "''true''" T_literal_true l1] lit [of "''false''" T_literal_false l1]
      lit [of "''null''" T_literal_null l1] num [of l1]
    by (auto simp: scan_token_def lex_error_def split: option.splits if_splits)
  from scan_string_loop_text [OF this [unfolded scan_string_def]] show ?thesis
    by (simp add: lex_reset_def)
qed

section \<open>Parsed values\<close>

fun value_ok :: "json \<Rightarrow> bool" where
  "value_ok (JString s) = utf8_valid s"
| "value_ok (JArray xs) = (\<forall>x \<in> set xs. value_ok x)"
| "value_ok (JObject m) = (obj_sorted m \<and> (\<forall>x \<in> set m. utf8_valid (fst x) \<and> value_ok (snd x)))"
| "value_ok _ = True"

fun frame_ok :: "frame \<Rightarrow> bool" where
  "frame_ok (Arr_Frame xs) = (\<forall>x \<in> set xs. value_ok x)"
| "frame_ok (Obj_Frame m k) = (value_ok (JObject m) \<and> utf8_valid k)"

definition parser_ok :: "json_parser \<Rightarrow> bool" where
  "parser_ok p \<longleftrightarrow> (last_token p = T_value_string \<longrightarrow> utf8_valid (token_buffer (m_lexer p)))
     \<and> (\<forall>f \<in> set (ref_stack p). frame_ok f) \<and> value_ok (root p)"

lemma value_ok_insert:
  "value_ok (JObject m) \<Longrightarrow> utf8_valid k \<Longrightarrow> value_ok v \<Longrightarrow> value_ok (JObject (obj_insert k v m))"
  using set_obj_insert [of k v m] obj_sorted_insert [of m k v] by auto

lemma parser_ok_get_token [intro]: "parser_ok p \<Longrightarrow> parser_ok (get_token p)"
  by (auto simp: parser_ok_def get_token_def split: prod.splits dest: scan_value_string)

lemma parser_ok_handle_value [intro]:
  assumes "parser_ok p" and "value_ok v"
  shows "parser_ok (handle_value v p)"
proof (cases "ref_stack p")
  case Nil
  with assms show ?thesis by (simp add: parser_ok_def handle_value_def)
next
  case (Cons f fs)
  have "frame_ok (handle_value_in v f)"
    using assms Cons value_ok_insert by (cases f) (auto simp: parser_ok_def simp del: value_ok.simps(3))
  with assms Cons show ?thesis by (simp add: parser_ok_def handle_value_def)
qed

lemma parser_ok_start [intro]: "parser_ok p \<Longrightarrow> parser_ok (start_object p)" "parser_ok p \<Longrightarrow> parser_ok (start_array p)"
  by (simp_all add: parser_ok_def start_object_def start_array_def obj_sorted_def)

lemma parser_ok_key [intro]:
  assumes "parser_ok p" and "utf8_valid k"
  shows "parser_ok (sax_key k p)"
  using assms value_ok_insert [of _ k JNull]
  by (auto simp: parser_ok_def sax_key_def simp del: value_ok.simps(3) split: list.splits frame.splits)

lemma parser_ok_end [intro]:
  assumes "parser_ok p"
  shows "parser_ok (end_container p)"
proof (cases "ref_stack p")
  case Nil
  with assms show ?thesis by (simp add: end_container_def)
next
  case (Cons f fs)
  have "value_ok (frame_value f)" using assms Cons by (cases f) (auto simp: parser_ok_def)
  moreover have "parser_ok (p\<lparr>ref_stack := fs\<rparr>)" using assms Cons by (simp add: parser_ok_def)
  ultimately show ?thesis using Cons by (simp add: end_container_def parser_ok_handle_value)
qed

lemma parser_ok_update [simp]:
  "parser_ok (p\<lparr>states := S\<rparr>) = parser_ok p" "parser_ok (p\<lparr>skip_to_state_evaluation := b\<rparr>) = parser_ok p"
  by (simp_all add: parser_ok_def)

lemma parser_ok_text: "parser_ok p \<Longrightarrow> last_token p = T_value_string \<Longrightarrow> utf8_valid (token_buffer (m_lexer p))"
  by (simp add: parser_ok_def)

lemmas parser_ok_intros =
  parser_ok_get_token parser_ok_handle_value parser_ok_start parser_ok_key parser_ok_end parser_ok_text

lemma parser_ok_parse_key: "parser_ok p \<Longrightarrow> parse_key p = Inr p' \<Longrightarrow> parser_ok p'"
  by (auto simp: parse_key_def Let_def split: if_splits intro!: parser_ok_intros)

lemma parser_ok_sax_value: "parser_ok p \<Longrightarrow> sax_value p = Inr (b, p') \<Longrightarrow> parser_ok p'"
  by (auto simp: sax_value_def Let_def split: token_type.splits if_splits sum.splits
      intro!: parser_ok_intros dest!: parser_ok_parse_key [rotated])

lemma parser_ok_sax_state: "parser_ok p \<Longrightarrow> sax_state p = Inr p' \<Longrightarrow> parser_ok p'"
  by (auto simp: sax_state_def Let_def close_container_def
      split: list.splits bool.splits if_splits sum.splits
      intro!: parser_ok_intros dest!: parser_ok_parse_key [rotated])

lemma sax_state_end: "sax_state p = Inl (Inr p') \<Longrightarrow> p' = p"
  by (auto simp: sax_state_def Let_def split: list.splits bool.splits if_splits sum.splits)

lemma parser_ok_turn:
  assumes "parser_ok p"
  shows "sax_turn p = Inr p' \<Longrightarrow> parser_ok p'" and "sax_turn p = Inl (Inr p') \<Longrightarrow> parser_ok p'"
proof -
  have state: "\<exists>q. parser_ok q \<and> sax_turn p = sax_state q"
    if "\<not> (\<exists>r. sax_turn p = Inl (Inl r))" "\<not> (\<exists>q. parser_ok q \<and> sax_turn p = Inr q)"
  proof (cases "skip_to_state_evaluation p")
    case True
    with assms show ?thesis
      by (intro exI [of _ "p\<lparr>skip_to_state_evaluation := False\<rparr>"]) (simp add: sax_turn_def)
  next
    case False
    with that(1) obtain b q where v: "sax_value p = Inr (b, q)"
      by (cases "sax_value p") (auto simp: sax_turn_def)
    with parser_ok_sax_value [OF assms v] that(2) False show ?thesis
      by (cases b) (auto simp: sax_turn_def)
  qed
  show "parser_ok p'" if "sax_turn p = Inr p'"
    using state that parser_ok_sax_state by (metis Inl_Inr_False sum.inject(2))
  show "parser_ok p'" if "sax_turn p = Inl (Inr p')"
    using state that sax_state_end by (metis Inl_Inr_False sum.inject(1))
qed

lemma parser_ok_internal: "parser_ok p \<Longrightarrow> sax_parse_internal p = Inr p' \<Longrightarrow> parser_ok p'"
proof (induction p rule: sax_parse_internal.induct)
  case (1 p)
  show ?case
  proof (cases "sax_turn p")
    case (Inl r)
    with "1.prems" have "sax_turn p = Inl (Inr p')" by (simp add: sax_parse_internal.simps [of p])
    with parser_ok_turn(2) "1.prems"(1) show ?thesis by blast
  next
    case (Inr q)
    with "1.prems" have "sax_parse_internal q = Inr p'" by (simp add: sax_parse_internal.simps [of p])
    with "1.IH" [OF Inr] parser_ok_turn(1) [OF "1.prems"(1) Inr] show ?thesis by blast
  qed
qed

lemma parsed_value_ok: "json_parse s = Inr v \<Longrightarrow> value_ok v"
proof -
  assume p: "json_parse s = Inr v"
  have "parser_ok (init_parser s)"
    unfolding init_parser_def by (rule parser_ok_get_token) (simp add: parser_ok_def)
  with p show ?thesis
    by (auto simp: json_parse_def Let_def split: sum.splits if_splits dest: parser_ok_internal)
      (metis parser_ok_def parser_ok_internal)
qed

section \<open>Dumping\<close>

lemma dump_value_ok:
  "value_ok v \<Longrightarrow> \<exists>t. dump_json dt v = Inr t"
  "(\<forall>x \<in> set xs. value_ok x) \<Longrightarrow> \<exists>t. dump_elems dt xs = Inr t"
  "(\<forall>x \<in> set m. utf8_valid (fst x) \<and> value_ok (snd x)) \<Longrightarrow> \<exists>t. dump_members dt m = Inr t"
proof (induction dt v and dt xs and dt m rule: dump_json_dump_elems_dump_members.induct)
  case (3 dt s)
  then show ?case by (simp add: utf8_valid_dump)
next
  case (7 dt xs)
  then show ?case by (cases "xs = []") auto
next
  case (8 dt m)
  then show ?case by (cases "m = []") auto
next
  case (10 dt x xs)
  then show ?case by (cases "xs = []") auto
next
  case (12 dt k v m)
  then obtain kt where kt: "dump_string k = Inr kt" by (auto simp: utf8_valid_dump)
  with 12 obtain t where t: "dump_json dt v = Inr t" by auto
  show ?case
  proof (cases "m = []")
    case False
    with 12 kt t obtain u where "dump_members dt m = Inr u" by fastforce
    with kt t False show ?thesis by simp
  qed (simp add: kt t)
qed auto

text \<open>
  C34. What the parser returns is well formed: every string and every key of the value is UTF-8 text, whatever
  escapes the input used, and every object has its keys in ascending order; so the value can be dumped again and
  relaying it does not throw.
\<close>

theorem parsed_value_well_formed:
  assumes "json_parse s = Inr v"
  shows "value_ok v \<and> (\<exists>t. dump_json dt v = Inr t)"
  using parsed_value_ok [OF assms] dump_value_ok(1) by blast

theorem parsed_value_well_formed_witness:
  "value_ok (JObject [(''b'', JString (map char_of [0xF0 :: nat, 0x9F, 0x98, 0x80]))])"
proof -
  have "json_parse (''{\"b\":\"'' @ CHR 0x5C # ''ud83d'' @ CHR 0x5C # ''ude00\"}'') =
      Inr (JObject [(''b'', JString (map char_of [0xF0 :: nat, 0x9F, 0x98, 0x80]))])"
    by code_simp
  from parsed_value_well_formed [OF this] show ?thesis by blast
qed

end
