(* ===== verification/End_To_End.thy ===== *)
theory End_To_End
  imports Client_Services Request_Properties Stream_Properties Json_Roundtrip Json_Valid
begin

text \<open>
  Client and server together: what one client types is what the others are shown, and a registration ends the
  same way on both sides. The JSON text in between is the one the serializer writes; the round trip of
  \<open>Json_Roundtrip\<close> gives what the other side reads.
\<close>

section \<open>The relayed object\<close>

definition relayed_object :: "fd \<Rightarrow> client_info \<Rightarrow> json \<Rightarrow> string \<Rightarrow> (string \<times> json) list" where
  "relayed_object f c v now =
     [(''message'', v), (''sender_fd'', json_of_fd f), (''sender_ip'', JString (ip c)),
      (''sender_nickname'', JString (nickname c)), (''timestamp'', JString now)]"

lemma relayed_keys:
  "''message'' < ''sender_fd''" "''message'' < ''sender_ip''" "''message'' < ''sender_nickname''"
  "''message'' < ''timestamp''" "''sender_fd'' < ''sender_ip''" "''sender_fd'' < ''sender_nickname''"
  "''sender_fd'' < ''timestamp''" "''sender_ip'' < ''sender_nickname''" "''sender_ip'' < ''timestamp''"
  "''sender_nickname'' < ''timestamp''"
  by code_simp+

lemma relayed_puts: "json_puts (chat_fields f c v now) JNull = Inr (JObject (relayed_object f c v now))"
  by (simp add: json_put_def chat_fields_def relayed_object_def relayed_keys
      relayed_keys [THEN less_imp_neq] relayed_keys [THEN less_imp_not_less])

lemma relayed_sorted: "obj_sorted (relayed_object f c v now)"
  by (simp add: obj_sorted_def relayed_object_def relayed_keys)

lemma value_ok_ordered: "value_ok v \<Longrightarrow> map_ordered v"
  by (induction v rule: map_ordered.induct) auto

lemma sint_fd: "0 \<le> f \<Longrightarrow> f < 2 ^ 31 \<Longrightarrow> sint (of_int f :: u64) = f"
  by (simp add: sint_uint uint_word_of_int signed_take_bit_int_eq_self)

lemma ucast_fd: "ucast (of_int f :: u64) = (of_int f :: c_int)"
  by (rule bit_word_eqI) (simp add: bit_simps)

text \<open>The text of the chat packet and what a client reads in it.\<close>

lemma relayed_text:
  assumes "value_ok v" and "utf8_valid (ip c)" and "utf8_valid (nickname c)" and "utf8_valid now"
  shows "\<exists>body. dump_fields dt (chat_fields f c v now) = Inr body"
  using assms dump_value_ok(1) [of "JObject (relayed_object f c v now)" dt] relayed_sorted
  by (auto simp: dump_fields_def relayed_puts relayed_object_def json_of_fd_def utf8_valid_ascii byte_of_def)

lemma relayed_parsed:
  assumes "dump_fields dt (chat_fields f c v now) = Inr body" and "float_free v" and "map_ordered v"
    and "0 \<le> f" and "f < 2 ^ 31"
  shows "json_parse body = Inr (JObject
    [(''message'', parsed_form v), (''sender_fd'', JUnsigned (of_int f)), (''sender_ip'', JString (ip c)),
     (''sender_nickname'', JString (nickname c)), (''timestamp'', JString now)])"
proof -
  have "dump_json dt (JObject (relayed_object f c v now)) = Inr body"
    using assms(1) by (simp add: dump_fields_def relayed_puts)
  from parse_dumped [OF this] assms(2,3) relayed_sorted [of f c v now] sint_fd [OF assms(4,5)] assms(4)
  show ?thesis by (simp add: relayed_object_def json_of_fd_def)
qed

section \<open>Chat\<close>

lemma message_packet:
  assumes "CreateMessageSendPacket dt content = Inr p"
  shows "pkt_type p = MESSAGE_SEND \<and> json_parse (payload_str p) = Inr (JObject [(''message'', JString content)])
    \<and> utf8_valid content"
proof -
  from assms obtain s where s: "dump_json dt (JObject [(''message'', JString content)]) = Inr s"
    "length s \<le> MAX_PAYLOAD_SIZE" "p = text_packet MESSAGE_SEND s"
    by (auto simp: CreateMessageSendPacket_def json_packet_def json_put_def copy_payload_def
        simp del: dump_json.simps split: sum.splits if_splits)
  have "json_parse s = Inr (JObject [(''message'', JString content)])"
    using parse_dumped [OF s(1)] by (simp add: obj_sorted_def)
  moreover have "utf8_valid content"
    using s(1) by (auto simp: utf8_valid_dump split: sum.splits)
  ultimately show ?thesis using s(2,3) by (simp add: payload_str_text)
qed

lemma chat_packet_read:
  assumes "dump_fields dt (chat_fields f c (JString content) now) = Inr body" and "0 \<le> f" and "f < 2 ^ 31"
    and "length body \<le> MAX_PAYLOAD_SIZE"
  shows "ParseMessagePacket oo (text_packet MESSAGE_CHAT body) =
    Inr (new_message (nickname c) (ip c) content now (of_int f) CHAT)"
proof -
  have p: "json_parse (payload_str (text_packet MESSAGE_CHAT body)) = Inr (JObject
    [(''message'', JString content), (''sender_fd'', JUnsigned (of_int f)), (''sender_ip'', JString (ip c)),
     (''sender_nickname'', JString (nickname c)), (''timestamp'', JString now)])"
    using relayed_parsed [OF assms(1) _ _ assms(2,3)] by (simp add: payload_str_text [OF assms(4)])
  show ?thesis
    by (simp add: ParseMessagePacket_def p message_of_json_def value_string_def value_int_def get_string_def
        get_int_def message_type_of_def ucast_fd)
qed

text \<open>
  C31. What is typed is what is shown. When an authenticated member of a room sends a line of text, the server
  forms one chat packet; if it fits a payload, every other member gets exactly this packet, and the client that
  reads it obtains a chat message with the text unchanged, the sender's nickname, address and descriptor and the
  server's time stamp; if it does not fit, nobody gets anything.
\<close>

theorem chat_end_to_end:
  assumes "CreateMessageSendPacket dt content = Inr p"
    and "getClient f (client_mgr s) = Some c" and "isAuthenticated c" and "ci_roomCode c \<noteq> []"
    and "utf8_valid (nickname c)" and "utf8_valid (ip c)" and "utf8_valid now" and "0 \<le> f" and "f < 2 ^ 31"
  shows "\<exists>body. dump_fields (dtoa pf) (chat_fields f c (JString content) now) = Inr body
         \<and> packet_handle pf now f p s =
            (if length body \<le> MAX_PAYLOAD_SIZE
             then s\<lparr>sends := sends s @ map (\<lambda>g. (g, text_packet MESSAGE_CHAT body))
                     (filter (\<lambda>g. g \<noteq> f) (room_members s (ci_roomCode c)))\<rparr>
             else s)
         \<and> (length body \<le> MAX_PAYLOAD_SIZE \<longrightarrow> ParseMessagePacket oo (text_packet MESSAGE_CHAT body) =
              Inr (new_message (nickname c) (ip c) content now (of_int f) CHAT))"
proof -
  note p = message_packet [OF assms(1)]
  have "value_ok (JString content)" using p by simp
  from relayed_text [OF this assms(6,5,7)] obtain body where
    body: "dump_fields (dtoa pf) (chat_fields f c (JString content) now) = Inr body" by blast
  have "packet_handle pf now f p s =
      (if length body \<le> MAX_PAYLOAD_SIZE
       then broadcastPacketForRoom (text_packet MESSAGE_CHAT body) (ci_roomCode c) f s else s)"
    using p assms(2-4) body by (simp add: packet_handle_def m_handlers_def message_handle_def json_at_def)
  with body chat_packet_read [OF body assms(8,9)] show ?thesis by (auto simp: broadcast_eq)
qed

lemma demo_fields:
  "isAuthenticated (demo_client 5 ''al'' ''r'')" "ci_roomCode (demo_client 5 ''al'' ''r'') = ''r''"
  "nickname (demo_client 5 ''al'' ''r'') = ''al''" "ip (demo_client 5 ''al'' ''r'') = ''10.0.0.1''"
  "sends demo_server = []"
  by (simp_all add: demo_client_def demo_server_def)

lemma demo_texts [simp]: "utf8_valid ''al''" "utf8_valid ''10.0.0.1''" "utf8_valid ''T''" "utf8_valid ''x''"
  by (auto intro!: utf8_valid_ascii simp: byte_of_def)

theorem chat_end_to_end_witness:
  "\<exists>q. sends (packet_handle demo_platform ''T'' 5 demo_chat demo_server) = [(6, q)]
     \<and> ParseMessagePacket (\<lambda>_. 0) q = Inr (new_message ''al'' ''10.0.0.1'' ''x'' ''T'' 5 CHAT)"
proof -
  have cr: "CreateMessageSendPacket (dtoa demo_platform) ''x'' = Inr demo_chat"
    unfolding demo_chat_def by code_simp
  obtain body where
    d: "dump_fields (dtoa demo_platform) (chat_fields 5 (demo_client 5 ''al'' ''r'') (JString ''x'') ''T'') = Inr body"
    and h: "packet_handle demo_platform ''T'' 5 demo_chat demo_server =
          (if length body \<le> MAX_PAYLOAD_SIZE
           then demo_server\<lparr>sends := [(6, text_packet MESSAGE_CHAT body)]\<rparr> else demo_server)"
    and r: "length body \<le> MAX_PAYLOAD_SIZE \<longrightarrow> ParseMessagePacket (\<lambda>_. 0) (text_packet MESSAGE_CHAT body) =
          Inr (new_message ''al'' ''10.0.0.1'' ''x'' ''T'' 5 CHAT)"
    using chat_end_to_end [OF cr demo_client_of(1), of "''T''" demo_platform "\<lambda>_. 0"]
    by (auto simp: demo_fields demo_members cong: if_cong)
  from d have "body = demo_chat_text" by (simp add: demo_chat_text)
  then have "length body \<le> MAX_PAYLOAD_SIZE" by (simp add: demo_chat_text_def MAX_PAYLOAD_SIZE_def)
  with h r show ?thesis by simp
qed

section \<open>A message that is no string\<close>

lemma message_of_json_type_error:
  assumes "map_of m ''message'' = Some v" and "\<not> is_string v"
    and "\<forall>k \<in> {''timestamp'', ''sender_nickname'', ''sender_ip''}. \<exists>s. map_of m k = Some (JString s)"
  shows "\<exists>e. message_of_json oo t (JObject m) = Inl (Type_Error 302 e)"
proof -
  from assms(3) obtain a b c where
    "map_of m ''timestamp'' = Some (JString a)" "map_of m ''sender_nickname'' = Some (JString b)"
    "map_of m ''sender_ip'' = Some (JString c)" by auto
  with assms(1,2) show ?thesis
    by (cases v) (auto simp: message_of_json_def value_string_def get_string_def create_type_error_def)
qed

text \<open>
  C35. One request can end every other client of a room. The server relays the field \<open>message\<close> without looking
  at its kind, and a missing field as \<open>null\<close>: whenever a member sends a JSON object whose \<open>message\<close> is no string
  (and contains no float), the packet every other member gets makes the reader throw a \<open>type_error\<close>, and the
  receiving thread of a client that gets it ends with that exception, which nothing catches.
\<close>

theorem non_string_message_ends_receivers:
  assumes "pkt_type p = MESSAGE_SEND" and "json_parse (payload_str p) = Inr j" and "json_at j ''message'' = Inr v"
    and "\<not> is_string v" and "float_free v" and "getClient f (client_mgr s) = Some c" and "isAuthenticated c"
    and "ci_roomCode c \<noteq> []" and "0 \<le> f" and "f < 2 ^ 31"
    and "dump_fields (dtoa pf) (chat_fields f c v now) = Inr body" and "length body \<le> MAX_PAYLOAD_SIZE"
  shows "\<exists>q e. sends (packet_handle pf now f p s) =
           sends s @ map (\<lambda>g. (g, q)) (filter (\<lambda>g. g \<noteq> f) (room_members s (ci_roomCode c)))
         \<and> (\<forall>st rest. m_connected st \<and> inbox st = packet_bytes q @ rest \<longrightarrow>
              StartReceiving oo st = (Inl (Json_Exn (Type_Error 302 e)), st\<lparr>inbox := rest\<rparr>))"
proof -
  let ?q = "text_packet MESSAGE_CHAT body"
  have h: "packet_handle pf now f p s = broadcastPacketForRoom ?q (ci_roomCode c) f s"
    using assms by (simp add: packet_handle_def m_handlers_def message_handle_def)
  have "value_ok v"
    using parsed_value_ok [OF assms(2)] assms(3)
    by (auto simp: json_at_def split: json.splits option.splits dest!: map_of_SomeD)
  then have par: "json_parse (payload_str ?q) = Inr (JObject
     [(''message'', parsed_form v), (''sender_fd'', JUnsigned (of_int f)), (''sender_ip'', JString (ip c)),
      (''sender_nickname'', JString (nickname c)), (''timestamp'', JString now)])"
    using relayed_parsed [OF assms(11,5) _ assms(9,10)] value_ok_ordered by (simp add: payload_str_text assms(12))
  have "\<not> is_string (parsed_form v)" using assms(4) by (cases v) auto
  then obtain e where e: "ParseMessagePacket oo ?q = Inl (Json_Exn (Type_Error 302 e))"
    using message_of_json_type_error [of
      "[(''message'', parsed_form v), (''sender_fd'', JUnsigned (of_int f)), (''sender_ip'', JString (ip c)),
      (''sender_nickname'', JString (nickname c)), (''timestamp'', JString now)]" "parsed_form v" oo MESSAGE_CHAT]
    by (auto simp: ParseMessagePacket_def par is_parse_error_def)
  have "StartReceiving oo st = (Inl (Json_Exn (Type_Error 302 e)), st\<lparr>inbox := rest\<rparr>)"
    if "m_connected st" "inbox st = packet_bytes ?q @ rest" for st rest
    using receive_loop_step [OF wf_text_packet [OF assms(12)] _ that] e
    by (simp add: StartReceiving_def displayed_type_def)
  with h show ?thesis by (auto simp: broadcast_eq)
qed

definition poison_chat :: packet where
  "poison_chat = text_packet MESSAGE_SEND ''{}''"

lemma poison_parsed: "json_parse (payload_str poison_chat) = Inr (JObject [])"
  unfolding poison_chat_def by code_simp

definition poison_text :: string where
  "poison_text =
     ''{\"message\":null,\"sender_fd\":5,\"sender_ip\":\"10.0.0.1\",\"sender_nickname\":\"al\",\"timestamp\":\"T\"}''"

lemma poison_dumped:
  "dump_fields dt (chat_fields 5 (demo_client 5 ''al'' ''r'') JNull ''T'') = Inr poison_text"
  by code_simp

theorem non_string_message_ends_receivers_witness:
  "\<exists>q e. sends (packet_handle demo_platform ''T'' 5 poison_chat demo_server) = [(6, q)]
     \<and> fst (StartReceiving (\<lambda>_. 0) (nc_new\<lparr>m_connected := True, inbox := packet_bytes q\<rparr>)) = Inl (Json_Exn (Type_Error 302 e))"
proof -
  have t: "pkt_type poison_chat = MESSAGE_SEND" by (simp add: poison_chat_def)
  have msg: "json_at (JObject []) ''message'' = Inr JNull" by (simp add: json_at_def)
  have len: "length poison_text \<le> MAX_PAYLOAD_SIZE" by (simp add: poison_text_def MAX_PAYLOAD_SIZE_def)
  show ?thesis
    using non_string_message_ends_receivers [where oo = "\<lambda>_. 0" and pf = demo_platform,
        OF t poison_parsed msg _ _ demo_client_of(1) demo_fields(1) _ _ _ poison_dumped len]
    by (fastforce simp: demo_fields demo_members)
qed

section \<open>Registration\<close>

lemma length_escape_char: "length (escape_char x) \<le> 6 * length x"
  by (auto simp: escape_char_def escape_codepoint_def split: list.splits)

lemma length_escaped: "utf8_escaped s t \<Longrightarrow> length t \<le> 6 * length s"
proof (induction rule: utf8_escaped.induct)
  case (escaped_char x s t)
  then show ?case using length_escape_char [of x] by simp
qed simp

lemma nickname_packet:
  assumes "utf8_valid nick" and "length nick \<le> MAX_NICKNAME_LEN"
  shows "\<exists>p. CreateNicknameRequestPacket dt nick = Inr p \<and> pkt_type p = NICKNAME_REQUEST \<and> wf_packet p
    \<and> json_parse (payload_str p) = Inr (JObject [(''nickname'', JString nick)])"
proof -
  from assms(1) obtain t where t: "utf8_escaped nick t" by (auto simp: utf8_valid_def)
  let ?v = "JObject [(''nickname'', JString nick)]"
  have key: "dump_string ''nickname'' = Inr ''\"nickname\"''" by code_simp
  have val: "dump_string nick = Inr (CHR 0x22 # t @ [CHR 0x22])" using t by (auto simp: dump_string_iff)
  let ?s = "''{\"nickname\":'' @ (CHR 0x22 # t @ [CHR 0x22]) @ ''}''"
  have d: "dump_json dt ?v = Inr ?s" by (simp add: key val)
  have len: "length ?s \<le> MAX_PAYLOAD_SIZE"
    using length_escaped [OF t] assms(2) by (simp add: MAX_NICKNAME_LEN_def MAX_PAYLOAD_SIZE_def)
  have "json_parse ?s = Inr ?v" using parse_dumped [OF d] by (simp add: obj_sorted_def)
  moreover have "CreateNicknameRequestPacket dt nick = Inr (text_packet NICKNAME_REQUEST ?s)"
    using d len
    by (simp add: CreateNicknameRequestPacket_def json_packet_def json_put_def copy_payload_def del: dump_json.simps)
  ultimately show ?thesis using len by (simp add: payload_str_text wf_text_packet)
qed

lemma duplicated_reply: "refusal_reason (text_packet NICKNAME_RESPONSE_FAIL ''Duplicated nickname.'') = Inr False"
  by code_simp

lemma exchange_reply:
  assumes "m_connected c" and "pkt_size p \<le> MAX_PAYLOAD_SIZE" and "nc_send_loop (packet_bytes p) 0 as = (Some True, out)"
    and "wf_packet q" and "canonical_type (pkt_type q)" and "inbox c = packet_bytes q @ rest"
  shows "exchange p as c = (Response q, c\<lparr>sent := sent c @ out, inbox := rest\<rparr>)"
  using assms nc_Receive_packet [of q "c\<lparr>sent := sent c @ out\<rparr>" rest]
  by (simp add: exchange_def nc_Send_def)



section \<open>Long lines\<close>

definition plain_char :: "char \<Rightarrow> bool" where
  "plain_char c \<longleftrightarrow> 0x20 \<le> byte_of c \<and> byte_of c < 0x80 \<and> byte_of c \<noteq> 0x22 \<and> byte_of c \<noteq> 0x5C"

lemma dump_plain:
  assumes "\<forall>c \<in> set s. plain_char c"
  shows "dump_string s = Inr (CHR 0x22 # s @ [CHR 0x22])"
proof -
  have "utf8_escaped s s"
    using assms
  proof (induction s)
    case (Cons c s)
    then have "utf8_char [c]" "escape_char [c] = [c]"
      by (simp_all add: plain_char_def utf8_char_ascii escape_char_def escape_codepoint_def)
    with escaped_char [of "[c]" s s] Cons show ?case by simp
  qed (rule escaped_Nil)
  then show ?thesis by (auto simp: dump_string_iff)
qed

text \<open>
  The length of a line is not checked. A line of printable ASCII without quotes and backslashes becomes a
  packet with the line between 14 bytes of JSON, if it has at most 1010 bytes; a longer one is copied past the end
  of the packet's payload array, by as many bytes as it is longer, before anything is sent.
\<close>

theorem long_line_overflows:
  assumes "\<forall>c \<in> set content. plain_char c" and "content \<noteq> []"
  shows "if length content \<le> 1010
         then CreateMessageSendPacket dt content = Inr (text_packet MESSAGE_SEND (''{\"message\":\"'' @ content @ ''\"}''))
         else SendMessage dt content as st = (Some (Inl (Memory_Exn (Stack_Overflow (length content - 1010)))), st)"
proof -
  have key: "dump_string ''message'' = Inr ''\"message\"''" by code_simp
  have "dump_json dt (JObject [(''message'', JString content)]) = Inr (''{\"message\":\"'' @ content @ ''\"}'')"
    by (simp add: key dump_plain [OF assms(1)])
  then have "CreateMessageSendPacket dt content = copy_payload MESSAGE_SEND (''{\"message\":\"'' @ content @ ''\"}'')"
    by (simp add: CreateMessageSendPacket_def json_packet_def json_put_def del: dump_json.simps)
  with assms(2) show ?thesis
    by (simp add: copy_payload_def MAX_PAYLOAD_SIZE_def SendMessage_def)
qed

theorem long_line_overflows_witness:
  "SendMessage (\<lambda>_. []) (replicate 1100 (CHR ''x'')) []
       \<lparr>net = nc_new\<lparr>m_connected := True\<rparr>, m_current_user = named_user ''al'', m_current_room_code = ''r''\<rparr>
     = (Some (Inl (Memory_Exn (Stack_Overflow 90))),
        \<lparr>net = nc_new\<lparr>m_connected := True\<rparr>, m_current_user = named_user ''al'', m_current_room_code = ''r''\<rparr>)"
  using long_line_overflows [of "replicate 1100 (CHR ''x'')" "\<lambda>_. []" "[]"
      "\<lparr>net = nc_new\<lparr>m_connected := True\<rparr>, m_current_user = named_user ''al'', m_current_room_code = ''r''\<rparr>"]
  by (simp add: plain_char_def byte_of_def)

end
