(* ===== verification/Client_Properties.thy ===== *)
theory Client_Properties
  imports End_To_End
begin

text \<open>
  The receiving thread of the client over a whole stream of packets.
\<close>

section \<open>The receiving thread\<close>

lemma nc_Receive_partial:
  assumes "partial_packet (inbox c)" and "m_connected c"
  shows "\<exists>c'. nc_Receive c = (None, c') \<and> \<not> m_connected c'"
proof (cases "length (inbox c) < HEADER_SIZE")
  case True
  then show ?thesis by (auto simp: nc_Receive_def recv_waitall_def assms(2) nc_Close_def)
next
  case False
  let ?h = "take HEADER_SIZE (inbox c)"
  have eq: "read_size ?h = read_size (inbox c)"
    by (simp add: read_size_def HEADER_SIZE_def)
  from False assms(1) have "length (inbox c) - HEADER_SIZE < unat (read_size (inbox c))"
    by (auto simp: partial_packet_def)
  with False show ?thesis
    by (auto simp: nc_Receive_def recv_waitall_def assms(2) nc_Close_def eq Let_def)
qed

definition displayed :: "(u64 \<Rightarrow> c_int) \<Rightarrow> packet list \<Rightarrow> message list" where
  "displayed out_of_range ps =
     map (\<lambda>p. case ParseMessagePacket out_of_range p of Inr m \<Rightarrow> m | Inl e \<Rightarrow> default_message)
       (filter (\<lambda>p. displayed_type (pkt_type p)) ps)"

lemma receive_loop_packets:
  assumes "\<forall>p \<in> set ps. wf_packet p \<and> canonical_type (pkt_type p)"
    and "\<forall>p \<in> set ps. displayed_type (pkt_type p) \<longrightarrow> (\<exists>m. ParseMessagePacket oo p = Inr m)"
    and "m_connected c" and "inbox c = concat (map packet_bytes ps) @ rest"
  shows "receive_loop oo ms c = receive_loop oo (ms @ displayed oo ps) (c\<lparr>inbox := rest\<rparr>)"
  using assms
proof (induction ps arbitrary: ms c)
  case Nil
  then have "c\<lparr>inbox := rest\<rparr> = c" by (cases c) simp
  then show ?case by (simp add: displayed_def)
next
  case (Cons p ps)
  have box: "inbox c = packet_bytes p @ (concat (map packet_bytes ps) @ rest)"
    using Cons.prems(4) by simp
  have ok: "wf_packet p" "canonical_type (pkt_type p)" using Cons.prems(1) by simp_all
  note step = receive_loop_step [OF ok Cons.prems(3) box, of oo ms]
  note IH = Cons.IH [of "c\<lparr>inbox := concat (map packet_bytes ps) @ rest\<rparr>"]
  show ?case
  proof (cases "displayed_type (pkt_type p)")
    case True
    with Cons.prems(2) obtain m where m: "ParseMessagePacket oo p = Inr m" by auto
    have "displayed oo (p # ps) = m # displayed oo ps"
      using True m by (simp add: displayed_def)
    with step True m IH Cons.prems show ?thesis by simp
  next
    case False
    then have "displayed oo (p # ps) = displayed oo ps" by (simp add: displayed_def)
    with step False IH Cons.prems show ?thesis by simp
  qed
qed


definition demo_relayed :: packet where
  "demo_relayed = text_packet MESSAGE_CHAT demo_chat_text"

lemma demo_relayed_ok: "wf_packet demo_relayed" "canonical_type (pkt_type demo_relayed)"
  by (auto simp: demo_relayed_def demo_chat_text_def MAX_PAYLOAD_SIZE_def intro!: wf_text_packet)

lemma demo_relayed_message:
  "ParseMessagePacket oo demo_relayed = Inr (new_message ''al'' ''10.0.0.1'' ''x'' ''T'' 5 CHAT)"
proof -
  have "length demo_chat_text \<le> MAX_PAYLOAD_SIZE" by (simp add: demo_chat_text_def MAX_PAYLOAD_SIZE_def)
  from chat_packet_read [OF demo_chat_text _ _ this, of oo] show ?thesis
    by (simp add: demo_relayed_def demo_fields)
qed


end
