(* ===== verification/Std_Stream.thy ===== *)
theory Std_Stream
  imports Prelude
begin

text \<open>
  The part of \<open>std::istream\<close> the program uses: the server reads its \<open>.env\<close> file and the client reads its console
  with \<open>std::getline\<close>, \<open>operator>>\<close> into a string and into an \<open>int\<close>, and \<open>ignore\<close>.

  A stream is the text still to be read and the two state bits; for the console this is all the user will have
  typed, and the end of the text is the end of the input. An operation whose sentry fails leaves its target as it
  was: the result is \<open>None\<close>. Integers are decimal; a sign may precede the digits, and a value outside the range
  of \<open>int\<close> is replaced by the nearest bound while the extraction fails.
\<close>

record istream =
  left_input :: string
  eofbit :: bool
  failbit :: bool

definition open_stream :: "string \<Rightarrow> istream" where
  "open_stream s = \<lparr>left_input = s, eofbit = False, failbit = False\<rparr>"

definition good :: "istream \<Rightarrow> bool" where
  "good s \<longleftrightarrow> \<not> eofbit s \<and> \<not> failbit s"

definition newline :: char where
  "newline = CHR 0x0A"

definition carriage_return :: char where
  "carriage_return = CHR 0x0D"

definition is_space :: "char \<Rightarrow> bool" where
  "is_space c \<longleftrightarrow> c = CHR '' '' \<or> 0x09 \<le> byte_of c \<and> byte_of c \<le> 0x0D"

definition sentry :: "bool \<Rightarrow> istream \<Rightarrow> bool \<times> istream" where
  "sentry noskipws s =
     (if \<not> good s then (False, s\<lparr>failbit := True\<rparr>)
      else if noskipws then (True, s)
      else
        (let r = dropWhile is_space (left_input s)
         in if r = [] then (False, s\<lparr>left_input := [], eofbit := True, failbit := True\<rparr>)
            else (True, s\<lparr>left_input := r\<rparr>)))"

definition not_newline :: "char \<Rightarrow> bool" where
  "not_newline c \<longleftrightarrow> c \<noteq> newline"

definition std_getline :: "istream \<Rightarrow> string option \<times> istream" where
  "std_getline s =
     (case sentry True s of
        (False, s1) \<Rightarrow> (None, s1)
      | (True, s1) \<Rightarrow>
          (let line = takeWhile not_newline (left_input s1); r = dropWhile not_newline (left_input s1)
           in if r = [] then (Some line, s1\<lparr>left_input := [], eofbit := True, failbit := (line = [])\<rparr>)
              else (Some line, s1\<lparr>left_input := tl r\<rparr>)))"

text \<open>\<open>ignore(max, '\n')\<close>: everything up to and including the next line end; no failure at the end of the input.\<close>

definition ignore_line :: "istream \<Rightarrow> istream" where
  "ignore_line s =
     (case sentry True s of
        (False, s1) \<Rightarrow> s1
      | (True, s1) \<Rightarrow>
          (let r = dropWhile not_newline (left_input s1)
           in if r = [] then s1\<lparr>left_input := [], eofbit := True\<rparr> else s1\<lparr>left_input := tl r\<rparr>))"

definition not_space :: "char \<Rightarrow> bool" where
  "not_space c \<longleftrightarrow> \<not> is_space c"

definition read_word :: "istream \<Rightarrow> string option \<times> istream" where
  "read_word s =
     (case sentry False s of
        (False, s1) \<Rightarrow> (None, s1)
      | (True, s1) \<Rightarrow>
          (let r = dropWhile not_space (left_input s1)
           in (Some (takeWhile not_space (left_input s1)), s1\<lparr>left_input := r, eofbit := (r = [])\<rparr>)))"

text \<open>An optional sign and the digits that follow it; shared by \<open>operator>>\<close> and \<open>std::stoi\<close>.\<close>

fun split_sign :: "string \<Rightarrow> bool \<times> string" where
  "split_sign [] = (False, [])"
| "split_sign (c # s) =
     (if c = CHR ''-'' then (True, s) else if c = CHR ''+'' then (False, s) else (False, c # s))"

definition signed_value :: "bool \<Rightarrow> string \<Rightarrow> int" where
  "signed_value neg ds = (if neg then - int (digits_value ds) else int (digits_value ds))"

definition INT_MAX :: int where "INT_MAX = 2 ^ 31 - 1"
definition INT_MIN :: int where "INT_MIN = - (2 ^ 31)"

definition read_int :: "istream \<Rightarrow> c_int option \<times> istream" where
  "read_int s =
     (case sentry False s of
        (False, s1) \<Rightarrow> (None, s1)
      | (True, s1) \<Rightarrow>
          (case split_sign (left_input s1) of
             (neg, r0) \<Rightarrow>
               (let ds = takeWhile is_digit r0; r = dropWhile is_digit r0;
                    s2 = s1\<lparr>left_input := r, eofbit := (r = [])\<rparr>; v = signed_value neg ds
                in if ds = [] then (Some 0, s2\<lparr>failbit := True\<rparr>)
                   else if v < INT_MIN then (Some (of_int INT_MIN), s2\<lparr>failbit := True\<rparr>)
                   else if v > INT_MAX then (Some (of_int INT_MAX), s2\<lparr>failbit := True\<rparr>)
                   else (Some (of_int v), s2))))"

section \<open>Facts\<close>

lemma sentry_bad: "\<not> good s \<Longrightarrow> sentry b s = (False, s\<lparr>failbit := True\<rparr>)"
  by (simp add: sentry_def)

lemma sentry_raw: "good s \<Longrightarrow> sentry True s = (True, s)"
  by (simp add: sentry_def)

text \<open>A stream that is not good stays so, and everything read from it fails.\<close>

lemma bad_reads:
  assumes "\<not> good s"
  shows "std_getline s = (None, s\<lparr>failbit := True\<rparr>)" "read_word s = (None, s\<lparr>failbit := True\<rparr>)"
    "read_int s = (None, s\<lparr>failbit := True\<rparr>)" "ignore_line s = s\<lparr>failbit := True\<rparr>"
  using assms by (simp_all add: std_getline_def read_word_def read_int_def ignore_line_def sentry_bad)

lemma not_good_fail [simp]: "\<not> good (s\<lparr>failbit := True\<rparr>)"
  by (simp add: good_def)

lemma getline_line:
  assumes "good s" and "left_input s = l @ newline # r" and "newline \<notin> set l"
  shows "std_getline s = (Some l, s\<lparr>left_input := r\<rparr>)"
proof -
  have "takeWhile not_newline (l @ newline # r) = l" "dropWhile not_newline (l @ newline # r) = newline # r"
    using assms(3) by (auto simp: takeWhile_append not_newline_def dropWhile_append)
  with assms(1,2) show ?thesis
    by (simp add: std_getline_def sentry_raw Let_def del: dropWhile_eq_Nil_conv)
qed

lemma getline_end:
  assumes "good s" and "left_input s = []"
  shows "std_getline s = (Some [], s\<lparr>left_input := [], eofbit := True, failbit := True\<rparr>)"
  using assms by (simp add: std_getline_def sentry_raw)

lemma getline_shorter:
  assumes "std_getline s = (x, s1)" and "\<not> failbit s1"
  shows "\<exists>l. x = Some l \<and> length (left_input s1) < length (left_input s)"
proof -
  have "good s" using assms bad_reads(1) [of s] by (cases "good s") auto
  let ?in = "left_input s"
  show ?thesis
  proof (cases "dropWhile not_newline ?in")
    case Nil
    with assms \<open>good s\<close> have s1: "x = Some (takeWhile not_newline ?in)" "left_input s1 = []"
      "takeWhile not_newline ?in \<noteq> []"
      by (auto simp: std_getline_def sentry_raw Let_def simp del: dropWhile_eq_Nil_conv)
    then show ?thesis by (cases ?in) auto
  next
    case (Cons c r)
    with assms \<open>good s\<close> have "x = Some (takeWhile not_newline ?in)" "left_input s1 = r"
      by (auto simp: std_getline_def sentry_raw Let_def simp del: dropWhile_eq_Nil_conv)
    moreover have "length r < length ?in"
      using length_dropWhile_le [of not_newline ?in] Cons by simp
    ultimately show ?thesis by simp
  qed
qed

end
