(* ===== verification/Lobby.thy ===== *)
theory Lobby
  imports Client_Services Std_Stream
begin

text \<open>
  \<open>client/src/ui/Lobby.cpp\<close> and the prompts of \<open>client/src/ui/ConsoleUI.cpp\<close>: connecting, registering, and the menu of the lobby.

  The state is the console, the services behind it and the flag \<open>m_is_running\<close>. What the screens print is not
  modelled. \<open>answers\<close> are the kernel's answers to the requests to come, one entry for each call of a service;
  \<open>dial\<close> is what \<open>socket\<close> and \<open>connect\<close> answer for an address, with the stream such a connection delivers.

  A screen that never returns has the value \<open>None\<close>. Otherwise it ends with a result (\<open>Done\<close>), with an uncaught
  exception, at a request the kernel has not accepted yet (\<open>Send_Waiting\<close>), or at the use of an \<open>int\<close> that no
  input was read into (\<open>Indeterminate\<close>: undefined behaviour). \<open>Chat\<close> is the call of \<open>StartChatSession\<close>, which
  \<open>Client_Session\<close> models.
\<close>

record lobby =
  console :: istream
  services :: client_state
  answers :: "send_answer list list"
  m_is_running :: bool

datatype 'a outcome = Done 'a | Chat | Uncaught client_exn | Send_Waiting | Indeterminate

abbreviation connected :: "lobby \<Rightarrow> bool" where
  "connected l \<equiv> IsConnected (services l)"

text \<open>A call of a service with the kernel's answers for it.\<close>

definition call ::
  "(send_answer list \<Rightarrow> client_state \<Rightarrow> 'a option \<times> client_state) \<Rightarrow> lobby \<Rightarrow> 'a option \<times> lobby" where
  "call f l =
     (let as = (case answers l of [] \<Rightarrow> [] | a # _ \<Rightarrow> a)
      in (case f as (services l) of
            (r, st) \<Rightarrow> (r, l\<lparr>services := st, answers := tl (answers l)\<rparr>)))"

section \<open>The prompts\<close>

definition text_read :: "string option \<Rightarrow> string" where
  "text_read x = (case x of None \<Rightarrow> [] | Some s \<Rightarrow> s)"

definition GetConnectionInfo :: "istream \<Rightarrow> string \<times> c_int option \<times> istream" where
  "GetConnectionInfo s =
     (case read_word s of
        (host, s1) \<Rightarrow>
          (case read_int s1 of (port, s2) \<Rightarrow> (text_read host, port, ignore_line s2)))"

definition GetNickname :: "istream \<Rightarrow> string \<times> istream" where
  "GetNickname s = (case read_word s of (nick, s1) \<Rightarrow> (text_read nick, ignore_line s1))"

definition GetMessageInput :: "istream \<Rightarrow> string \<times> istream" where
  "GetMessageInput s = (case std_getline s of (line, s1) \<Rightarrow> (text_read line, s1))"

section \<open>Connecting and registering\<close>

definition SetupConnection ::
  "(string \<Rightarrow> string \<Rightarrow> bool \<times> bool \<times> string) \<Rightarrow> lobby \<Rightarrow> bool outcome \<times> lobby" where
  "SetupConnection dial l =
     (case GetConnectionInfo (console l) of
        (host, port, s) \<Rightarrow>
          (let l1 = l\<lparr>console := s\<rparr>
           in (case port of
                 None \<Rightarrow> (Indeterminate, l1)
               | Some p \<Rightarrow>
                   (case ConnectToServer dial host p (services l1) of
                      (ok, st) \<Rightarrow> (Done ok, l1\<lparr>services := st\<rparr>)))))"

partial_function (option) RegisterUser ::
  "(u64 \<Rightarrow> string) \<Rightarrow> lobby \<Rightarrow> (bool outcome \<times> lobby) option" where
  "RegisterUser dt l =
     (if \<not> connected l then Some (Done False, l)
      else
        (case GetNickname (console l) of
           (nick, s) \<Rightarrow>
             (case call (RegisterNickname dt nick) (l\<lparr>console := s\<rparr>) of
                (None, l1) \<Rightarrow> Some (Send_Waiting, l1)
              | (Some (Inl e), l1) \<Rightarrow> Some (Uncaught e, l1)
              | (Some (Inr ok), l1) \<Rightarrow> if ok then Some (Done True, l1) else RegisterUser dt l1)))"

section \<open>The menu\<close>

text \<open>How a room request ends: with a code the chat starts, otherwise the menu comes back.\<close>

definition room_outcome :: "(client_exn + string option) option \<Rightarrow> unit outcome" where
  "room_outcome r =
     (case r of
        None \<Rightarrow> Send_Waiting
      | Some (Inl e) \<Rightarrow> Uncaught e
      | Some (Inr None) \<Rightarrow> Done ()
      | Some (Inr (Some code)) \<Rightarrow> Chat)"

definition HandleCreateRoom :: "(u64 \<Rightarrow> string) \<Rightarrow> lobby \<Rightarrow> unit outcome \<times> lobby" where
  "HandleCreateRoom dt l =
     (case std_getline (console l) of
        (x, s) \<Rightarrow>
          (let roomName = text_read x
           in if roomName = [] then (Done (), l\<lparr>console := s\<rparr>)
              else
                (case read_int s of
                   (y, s1) \<Rightarrow>
                     (let l1 = l\<lparr>console := ignore_line s1\<rparr>
                      in (case y of
                            None \<Rightarrow> (Indeterminate, l1)
                          | Some maxUsers \<Rightarrow>
                              if sint maxUsers < 2 \<or> sint maxUsers > 10 then (Done (), l1)
                              else apfst room_outcome (call (CreateRoom dt roomName maxUsers) l1))))))"

definition HandleJoinRoom :: "(u64 \<Rightarrow> string) \<Rightarrow> lobby \<Rightarrow> unit outcome \<times> lobby" where
  "HandleJoinRoom dt l =
     (case std_getline (console l) of
        (x, s) \<Rightarrow>
          (let roomCode = text_read x; l1 = l\<lparr>console := s\<rparr>
           in if roomCode = [] then (Done (), l1)
              else apfst room_outcome (call (JoinRoom dt roomCode) l1)))"

partial_function (option) ShowLobbyMenu ::
  "(u64 \<Rightarrow> string) \<Rightarrow> lobby \<Rightarrow> (unit outcome \<times> lobby) option" where
  "ShowLobbyMenu dt l =
     (if \<not> (m_is_running l \<and> connected l) then Some (Done (), l)
      else
        (case read_int (console l) of
           (choice, s) \<Rightarrow>
             (let l1 = l\<lparr>console := ignore_line s\<rparr>
              in (case choice of
                    None \<Rightarrow> Some (Indeterminate, l1)
                  | Some c \<Rightarrow>
                      if c = 3 then Some (Done (), l1\<lparr>m_is_running := False\<rparr>)
                      else
                        (case (if c = 1 then HandleCreateRoom dt l1
                               else if c = 2 then HandleJoinRoom dt l1 else (Done (), l1)) of
                           (r, l2) \<Rightarrow> if r = Done () then ShowLobbyMenu dt l2 else Some (r, l2))))))"

text \<open>\<open>Lobby::Run\<close>, from the first prompt to the end of the program or to the first chat.\<close>

definition Lobby_Run ::
  "(u64 \<Rightarrow> string) \<Rightarrow> (string \<Rightarrow> string \<Rightarrow> bool \<times> bool \<times> string) \<Rightarrow> lobby \<Rightarrow> (unit outcome \<times> lobby) option" where
  "Lobby_Run dt dial l =
     (case SetupConnection dial l of
        (Done ok, l1) \<Rightarrow>
          if \<not> ok then Some (Done (), l1)
          else
            (case RegisterUser dt l1 of
               None \<Rightarrow> None
             | Some (Done ok, l2) \<Rightarrow>
                 if \<not> ok then Some (Done (), l2)
                 else ShowLobbyMenu dt (l2\<lparr>m_is_running := True\<rparr>)
             | Some (Uncaught e, l2) \<Rightarrow> Some (Uncaught e, l2)
             | Some (Send_Waiting, l2) \<Rightarrow> Some (Send_Waiting, l2)
             | Some (Indeterminate, l2) \<Rightarrow> Some (Indeterminate, l2)
             | Some (Chat, l2) \<Rightarrow> Some (Chat, l2))
      | (Uncaught e, l1) \<Rightarrow> Some (Uncaught e, l1)
      | (Send_Waiting, l1) \<Rightarrow> Some (Send_Waiting, l1)
      | (Indeterminate, l1) \<Rightarrow> Some (Indeterminate, l1)
      | (Chat, l1) \<Rightarrow> Some (Chat, l1))"

section \<open>Facts\<close>

lemma call_console [simp]: "call f l = (r, l') \<Longrightarrow> console l' = console l"
  by (auto simp: call_def Let_def split: prod.splits)

lemma call_services:
  assumes "call f l = (r, l')"
  shows "\<exists>as. f as (services l) = (r, services l')"
proof -
  let ?as = "case answers l of [] \<Rightarrow> [] | a # _ \<Rightarrow> a"
  obtain r' st where "f ?as (services l) = (r', st)" by force
  with assms show ?thesis by (auto simp: call_def Let_def)
qed

lemma IsConnected_simp [simp]: "IsConnected st = m_connected (net st)"
  by (simp add: IsConnected_def nc_IsConnected_def)

text \<open>No word is left on the console: the next extraction fails, and so do all that follow.\<close>

definition no_word :: "istream \<Rightarrow> bool" where
  "no_word s \<longleftrightarrow> (good s \<longrightarrow> list_all is_space (left_input s))"

lemma not_good_no_word: "\<not> good s \<Longrightarrow> no_word s"
  by (simp add: no_word_def)

lemma no_word_reads:
  assumes "no_word s"
  obtains s' where "read_word s = (None, s')" "read_int s = (None, s')" "\<not> good s'"
proof (cases "good s")
  case False
  then show ?thesis using that [of "s\<lparr>failbit := True\<rparr>"] by (simp add: bad_reads)
next
  case True
  with assms have "dropWhile is_space (left_input s) = []"
    by (simp add: no_word_def list_all_iff)
  with True show ?thesis
    using that [of "s\<lparr>left_input := [], eofbit := True, failbit := True\<rparr>"]
    by (simp add: read_word_def read_int_def sentry_def good_def del: dropWhile_eq_Nil_conv)
qed

lemma GetNickname_no_word:
  assumes "no_word s"
  shows "\<exists>s'. GetNickname s = ([], s') \<and> no_word s'"
proof -
  obtain s' where "read_word s = (None, s')" "\<not> good s'" using no_word_reads [OF assms] by metis
  then show ?thesis by (simp add: GetNickname_def text_read_def bad_reads not_good_no_word)
qed

lemma call_empty_nickname:
  "call (RegisterNickname dt []) l = (Some (Inr False), l\<lparr>answers := tl (answers l)\<rparr>)"
  by (simp add: call_def RegisterNickname_def ValidateNickname_def)

lemma RegisterUser_returns:
  "RegisterUser dt l = Some y \<Longrightarrow> connected l \<longrightarrow> \<not> no_word (console l)"
proof (induction rule: RegisterUser.raw_induct [rotated, consumes 1])
  case (1 f dt l y)
  show ?case
  proof (intro impI notI)
    assume c: "connected l" and "no_word (console l)"
    from GetNickname_no_word [OF this(2)] obtain s where
      "GetNickname (console l) = ([], s)" and s: "no_word s" by blast
    with "1.hyps"(1) c have "f dt (l\<lparr>console := s, answers := tl (answers l)\<rparr>) = Some y"
      by (simp add: call_empty_nickname)
    from "1.IH" [OF this] c s show False by simp
  qed
qed

text \<open>
  Registration does not survive the end of the input. While the connection stands and the console has no
  further word, the client asks for a nickname for ever: every prompt yields the empty string, which is refused
  before anything is sent, so neither the server nor the user can end the loop.
\<close>

theorem registration_never_returns:
  assumes "connected l" and "no_word (console l)"
  shows "RegisterUser dt l = None"
  using RegisterUser_returns assms by (cases "RegisterUser dt l") blast+

definition demo_lobby :: "string \<Rightarrow> lobby" where
  "demo_lobby input =
     \<lparr>console = open_stream input,
      services = \<lparr>net = nc_new\<lparr>m_connected := True\<rparr>, m_current_user = no_user, m_current_room_code = []\<rparr>,
      answers = [], m_is_running = True\<rparr>"

theorem registration_never_returns_witness:
  "RegisterUser (\<lambda>_. []) (demo_lobby [newline]) = None"
  by (rule registration_never_returns)
    (simp_all add: demo_lobby_def nc_new_def no_word_def open_stream_def newline_def is_space_def byte_of_def)

subsection \<open>The menu\<close>

text \<open>Something that is no number: the value becomes 0, the stream fails and stays failed.\<close>

definition no_number :: "string \<Rightarrow> bool" where
  "no_number w \<longleftrightarrow>
     (\<exists>ws c r. w = ws @ c # r \<and> list_all is_space ws \<and> \<not> is_space c \<and> \<not> is_digit c \<and> c \<noteq> CHR ''-'' \<and> c \<noteq> CHR ''+'')"

lemma read_int_no_number:
  assumes "good s" and "no_number (left_input s)"
  obtains s' where "read_int s = (Some 0, s')" "\<not> good s'"
proof -
  from assms(2) obtain ws c r where inp: "left_input s = ws @ c # r" and ws: "list_all is_space ws"
    and c: "\<not> is_space c" "\<not> is_digit c" "c \<noteq> CHR ''-''" "c \<noteq> CHR ''+''" by (auto simp: no_number_def)
  have "dropWhile is_space (left_input s) = c # r"
    using ws c by (simp add: inp dropWhile_append3 list_all_iff)
  with assms(1) have "sentry False s = (True, s\<lparr>left_input := c # r\<rparr>)" by (simp add: sentry_def)
  with c have "read_int s = (Some 0, s\<lparr>left_input := c # r, eofbit := False, failbit := True\<rparr>)"
    by (simp add: read_int_def Let_def)
  then show ?thesis by (rule that) simp
qed

lemma menu_indeterminate:
  assumes "m_is_running l" and "connected l" and "no_word (console l)"
  shows "\<exists>l'. ShowLobbyMenu dt l = Some (Indeterminate, l')"
proof -
  obtain s' where "read_int (console l) = (None, s')" using no_word_reads [OF assms(3)] by metis
  with assms show ?thesis by (subst ShowLobbyMenu.simps) (simp add: Let_def)
qed

text \<open>
  One mistyped choice ruins the menu. When the next thing typed is no number, the extraction fails, the
  call that should skip the line does nothing because the stream has failed, and nothing clears the failure: the
  menu comes back, the next extraction leaves \<open>choice\<close> unwritten and the \<open>switch\<close> uses the indeterminate value,
  whatever the user typed after the mistake.
\<close>

theorem menu_undefined_after_typo:
  assumes "m_is_running l" and "connected l" and "good (console l)" and "no_number (left_input (console l))"
  shows "\<exists>l'. ShowLobbyMenu dt l = Some (Indeterminate, l')"
proof -
  from assms(3,4) obtain s where s: "read_int (console l) = (Some 0, s)" "\<not> good s"
    by (rule read_int_no_number)
  let ?l = "l\<lparr>console := s\<lparr>failbit := True\<rparr>\<rparr>"
  have "ShowLobbyMenu dt l = ShowLobbyMenu dt ?l"
    using s assms(1,2) by (subst ShowLobbyMenu.simps) (simp add: bad_reads Let_def)
  with menu_indeterminate [of ?l dt] assms(1,2) show ?thesis by (simp add: not_good_no_word)
qed

theorem menu_undefined_after_typo_witness:
  "\<exists>l'. ShowLobbyMenu (\<lambda>_. []) (demo_lobby (''x'' @ [newline] @ ''3'' @ [newline])) = Some (Indeterminate, l')"
proof (rule menu_undefined_after_typo)
  show "no_number (left_input (console (demo_lobby (''x'' @ [newline] @ ''3'' @ [newline]))))"
    unfolding no_number_def
    by (rule exI [of _ "[]"], rule exI [of _ "CHR ''x''"])
      (simp add: demo_lobby_def open_stream_def is_space_def is_digit_def byte_of_def)
qed (simp_all add: demo_lobby_def nc_new_def open_stream_def good_def)

text \<open>
  Rooms created from the menu have a sensible capacity. Whenever \<open>HandleCreateRoom\<close> touches the connection or
  the stored room code, it does so by one create request with the typed name, which is not empty, and a capacity
  between 2 and 10; in all other cases only the console moves on.
\<close>

theorem menu_capacity_bounds:
  assumes "HandleCreateRoom dt l = (r, l')"
  shows "services l' = services l \<and> (r = Done () \<or> r = Indeterminate)
     \<or> (\<exists>name maxUsers as x. name \<noteq> [] \<and> 2 \<le> sint maxUsers \<and> sint maxUsers \<le> 10
          \<and> CreateRoom dt name maxUsers as (services l) = (x, services l') \<and> r = room_outcome x)"
proof -
  obtain x s where x: "std_getline (console l) = (x, s)" by force
  obtain y s1 where y: "read_int s = (y, s1)" by force
  let ?l = "l\<lparr>console := ignore_line s1\<rparr>"
  show ?thesis
  proof (cases "text_read x = [] \<or> y = None \<or> (\<exists>m. y = Some m \<and> (sint m < 2 \<or> sint m > 10))")
    case True
    have "(\<exists>c. l' = l\<lparr>console := c\<rparr>) \<and> (r = Done () \<or> r = Indeterminate)"
    proof (cases "text_read x = []")
      case True
      with assms x show ?thesis by (auto simp: HandleCreateRoom_def)
    next
      case False
      with True assms x y show ?thesis by (auto simp: HandleCreateRoom_def Let_def split: option.splits)
    qed
    then show ?thesis by auto
  next
    case False
    then obtain m where m: "y = Some m" "2 \<le> sint m" "sint m \<le> 10" and n: "text_read x \<noteq> []"
      by (auto simp: not_less)
    obtain z l2 where z: "call (CreateRoom dt (text_read x) m) ?l = (z, l2)" by force
    with assms x y m n have "r = room_outcome z" "l' = l2"
      by (simp_all add: HandleCreateRoom_def Let_def)
    moreover have "\<exists>as. CreateRoom dt (text_read x) m as (services l) = (z, services l2)"
      using call_services [OF z] by simp
    ultimately have "\<exists>as. text_read x \<noteq> [] \<and> 2 \<le> sint m \<and> sint m \<le> 10
        \<and> CreateRoom dt (text_read x) m as (services l) = (z, services l') \<and> r = room_outcome z"
      using m n by simp
    then show ?thesis by (intro disjI2) fast
  qed
qed

theorem menu_capacity_bounds_witness:
  "\<exists>name maxUsers as x. name \<noteq> [] \<and> 2 \<le> sint maxUsers \<and> sint maxUsers \<le> 10
     \<and> Send_Waiting = room_outcome x
     \<and> fst (CreateRoom (\<lambda>_. []) name maxUsers as (services (demo_lobby []))) = x"
proof -
  let ?l = "demo_lobby (''r'' @ [newline] @ ''4'' @ [newline])"
  have h: "fst (HandleCreateRoom (\<lambda>_. []) ?l) = Send_Waiting" by code_simp
  obtain r l' where hl: "HandleCreateRoom (\<lambda>_. []) ?l = (r, l')" by force
  with h have r: "r = Send_Waiting" by simp
  have "services ?l = services (demo_lobby [])" by (simp add: demo_lobby_def)
  with menu_capacity_bounds [OF hl] r show ?thesis by (metis fst_conv outcome.distinct)
qed

end
