(* ===== verification/Logger.thy ===== *)
theory Logger
  imports Prelude
begin

text \<open>
  \<open>server/src/logger/Logger.cpp\<close>: the lines the program logs, and the local time in them, which the chat messages carry in
  the same format. The client's copy is in \<open>Client_Copies\<close>.

  The clock is an argument, as broken-down local time with milliseconds. The state is what has been written to
  the two standard streams and to the log file. \<open>Logger::init\<close> is declared but defined nowhere, so nothing ever
  sets \<open>s_useFile\<close>.
\<close>

section \<open>The local time as text\<close>

record local_time =
  tm_year :: nat
  tm_mon :: nat
  tm_mday :: nat
  tm_hour :: nat
  tm_min :: nat
  tm_sec :: nat

text \<open>\<open>std::setw(w) << std::setfill('0')\<close>, and the two-digit fields of \<open>strftime\<close>.\<close>

definition padded :: "nat \<Rightarrow> nat \<Rightarrow> string" where
  "padded w n = replicate (w - length (dec_digits n)) CHR ''0'' @ dec_digits n"

text \<open>The format \<open>%Y-%m-%d %H:%M:%S\<close>.\<close>

definition format_time :: "local_time \<Rightarrow> string" where
  "format_time t =
     dec_digits (tm_year t) @ ''-'' @ padded 2 (tm_mon t) @ ''-'' @ padded 2 (tm_mday t) @ '' ''
     @ padded 2 (tm_hour t) @ '':'' @ padded 2 (tm_min t) @ '':'' @ padded 2 (tm_sec t)"

definition log_timestamp :: "local_time \<Rightarrow> nat \<Rightarrow> string" where
  "log_timestamp t ms = format_time t @ ''.'' @ padded 3 ms"

section \<open>Log lines\<close>

datatype log_level = INFO | WARN | ERROR

fun level_str :: "log_level \<Rightarrow> string" where
  "level_str INFO = ''INFO ''"
| "level_str WARN = ''WARN ''"
| "level_str ERROR = ''ERROR''"

definition log_line :: "local_time \<Rightarrow> nat \<Rightarrow> log_level \<Rightarrow> string \<Rightarrow> string" where
  "log_line t ms level msg = ''['' @ log_timestamp t ms @ ''] ['' @ level_str level @ ''] '' @ msg"

record log_state =
  std_out :: string
  std_err :: string
  s_logfile :: "string option"
  s_useFile :: bool

definition log_initial :: log_state where
  "log_initial = \<lparr>std_out = [], std_err = [], s_logfile = None, s_useFile = False\<rparr>"

definition log_newline :: string where
  "log_newline = [CHR 0x0A]"

definition Logger_log :: "local_time \<Rightarrow> nat \<Rightarrow> log_level \<Rightarrow> string \<Rightarrow> log_state \<Rightarrow> log_state" where
  "Logger_log t ms level msg s =
     (let line = log_line t ms level msg;
          s1 = (if level = ERROR then s\<lparr>std_err := std_err s @ line @ log_newline\<rparr>
                else s\<lparr>std_out := std_out s @ line @ log_newline\<rparr>)
      in (case s_logfile s1 of
            None \<Rightarrow> s1
          | Some content \<Rightarrow>
              if s_useFile s1 then s1\<lparr>s_logfile := Some (content @ line @ log_newline)\<rparr> else s1))"

definition Logger_info :: "local_time \<Rightarrow> nat \<Rightarrow> string \<Rightarrow> log_state \<Rightarrow> log_state" where
  "Logger_info t ms = Logger_log t ms INFO"

definition Logger_warn :: "local_time \<Rightarrow> nat \<Rightarrow> string \<Rightarrow> log_state \<Rightarrow> log_state" where
  "Logger_warn t ms = Logger_log t ms WARN"

definition Logger_error :: "local_time \<Rightarrow> nat \<Rightarrow> string \<Rightarrow> log_state \<Rightarrow> log_state" where
  "Logger_error t ms = Logger_log t ms ERROR"

section \<open>Facts\<close>

subsection \<open>Decimal text of a fixed width\<close>

lemma digits_value_Cons: "digits_value (c # s) = digit_val c * 10 ^ length s + digits_value s"
proof (induction s rule: rev_induct)
  case Nil
  then show ?case by (simp add: digits_value_def)
next
  case (snoc x xs)
  have "digits_value (c # xs @ [x]) = 10 * digits_value (c # xs) + digit_val x"
    using digits_value_append [of "c # xs" x] by simp
  with snoc digits_value_append [of xs x] show ?case by (simp add: algebra_simps)
qed

lemma digits_value_Nil [simp]: "digits_value [] = 0"
  by (simp add: digits_value_def)

lemma digits_value_bound: "\<forall>c \<in> set s. is_digit c \<Longrightarrow> digits_value s < 10 ^ length s"
proof (induction s)
  case (Cons c s)
  then have "digits_value s < 10 ^ length s" "digit_val c \<le> 9"
    by (auto simp: is_digit_def digit_val_def)
  then have "digit_val c * 10 ^ length s \<le> 9 * 10 ^ length s" by simp
  with \<open>digits_value s < 10 ^ length s\<close> show ?case
    unfolding digits_value_Cons length_Cons power_Suc by linarith
qed simp

lemma digit_val_less: "is_digit c \<Longrightarrow> is_digit d \<Longrightarrow> c < d \<longleftrightarrow> digit_val c < digit_val d"
  by (auto simp: is_digit_def digit_val_def byte_of_def less_char_def)

text \<open>Digit strings of one length are ordered like their values.\<close>

lemma digits_less:
  assumes "length s = length t" and "\<forall>c \<in> set s. is_digit c" and "\<forall>c \<in> set t. is_digit c"
  shows "s < t \<longleftrightarrow> digits_value s < digits_value t"
  using assms
proof (induction s t rule: list_induct2)
  case (Cons c s d t)
  have b: "digits_value s < 10 ^ length t" "digits_value t < 10 ^ length t"
    using Cons.prems digits_value_bound [of s] digits_value_bound [of t] Cons.hyps by auto
  have cd: "is_digit c" "is_digit d" using Cons.prems by auto
  have eq: "c = d \<longleftrightarrow> digit_val c = digit_val d"
    using digit_val_less [OF cd] digit_val_less [OF cd(2,1)] by (metis (full_types) linorder_less_linear nat_neq_iff)
  let ?p = "10 ^ length t :: nat"
  have "digit_val c * ?p + digits_value s < digit_val d * ?p + digits_value t \<longleftrightarrow>
      digit_val c < digit_val d \<or> digit_val c = digit_val d \<and> digits_value s < digits_value t"
  proof (rule linorder_cases [of "digit_val c" "digit_val d"])
    assume "digit_val c < digit_val d"
    then have "Suc (digit_val c) * ?p \<le> digit_val d * ?p" by (intro mult_le_mono1) simp
    with b \<open>digit_val c < digit_val d\<close> show ?thesis by simp
  next
    assume "digit_val d < digit_val c"
    then have "Suc (digit_val d) * ?p \<le> digit_val c * ?p" by (intro mult_le_mono1) simp
    with b \<open>digit_val d < digit_val c\<close> show ?thesis by simp
  qed simp
  with Cons.IH Cons.prems Cons.hyps eq digit_val_less [OF cd] show ?case
    by (simp add: digits_value_Cons)
qed simp

lemma length_dec_digits:
  "n < 10 ^ w \<Longrightarrow> 0 < w \<Longrightarrow> length (dec_digits n) \<le> w"
proof (induction w arbitrary: n)
  case (Suc w)
  show ?case
  proof (cases "n < 10")
    case True
    then show ?thesis by (subst dec_digits.simps) simp
  next
    case False
    with Suc.prems have "n div 10 < 10 ^ w" "0 < w" by (auto intro!: Nat.gr0I simp: div_less_iff_less_mult)
    from Suc.IH [OF this] False show ?thesis by (subst dec_digits.simps) simp
  qed
qed simp

lemma is_digit_0 [simp]: "is_digit CHR ''0''" "digit_val CHR ''0'' = 0"
  by (simp_all add: is_digit_def digit_val_def byte_of_def)

lemma digits_value_zeros: "digits_value (replicate k CHR ''0'' @ s) = digits_value s"
  by (induction k) (simp_all add: digits_value_Cons)

lemma padded_props:
  assumes "n < 10 ^ w" and "0 < w"
  shows "length (padded w n) = w" "\<forall>c \<in> set (padded w n). is_digit c" "digits_value (padded w n) = n"
  using length_dec_digits [OF assms] dec_digits_props [of n]
  by (auto simp: padded_def digits_value_zeros)

lemma padded_less:
  assumes "m < 10 ^ w" and "n < 10 ^ w" and "0 < w"
  shows "padded w m < padded w n \<longleftrightarrow> m < n" and "padded w m = padded w n \<longleftrightarrow> m = n"
proof -
  note p = padded_props [OF assms(1,3)] padded_props [OF assms(2,3)]
  from p show "padded w m < padded w n \<longleftrightarrow> m < n" by (simp add: digits_less)
  from p show "padded w m = padded w n \<longleftrightarrow> m = n" by metis
qed

lemma append_less:
  "length (xs :: string) = length ys \<Longrightarrow> xs @ as < ys @ bs \<longleftrightarrow> xs < ys \<or> xs = ys \<and> as < bs"
  by (induction xs ys rule: list_induct2) (auto simp del: less_char_simp)

lemma append_eq_length: "length (xs :: string) = length ys \<Longrightarrow> xs @ as = ys @ bs \<longleftrightarrow> xs = ys \<and> as = bs"
  by simp

subsection \<open>Order of the timestamps\<close>

definition valid_time :: "local_time \<Rightarrow> bool" where
  "valid_time t \<longleftrightarrow>
     1000 \<le> tm_year t \<and> tm_year t \<le> 9999 \<and> tm_mon t \<le> 12 \<and> tm_mday t \<le> 31 \<and> tm_hour t \<le> 23 \<and>
     tm_min t \<le> 59 \<and> tm_sec t \<le> 60"

definition time_fields :: "local_time \<Rightarrow> nat \<Rightarrow> nat list" where
  "time_fields t ms = [tm_year t, tm_mon t, tm_mday t, tm_hour t, tm_min t, tm_sec t, ms]"

lemma year_padded:
  assumes "valid_time t"
  shows "dec_digits (tm_year t) = padded 4 (tm_year t)"
proof -
  have "length (dec_digits (tm_year t)) = 4"
  proof (rule antisym)
    show "length (dec_digits (tm_year t)) \<le> 4"
      using assms by (intro length_dec_digits) (auto simp: valid_time_def)
    show "4 \<le> length (dec_digits (tm_year t))"
    proof (rule ccontr)
      assume "\<not> 4 \<le> length (dec_digits (tm_year t))"
      then have "(10 :: nat) ^ length (dec_digits (tm_year t)) \<le> 10 ^ 3" by (intro power_increasing) auto
      moreover have "tm_year t < 10 ^ length (dec_digits (tm_year t))"
        using dec_digits_props [of "tm_year t"] digits_value_bound [of "dec_digits (tm_year t)"] by auto
      ultimately show False using assms by (simp add: valid_time_def)
    qed
  qed
  then show ?thesis by (simp add: padded_def)
qed

text \<open>
  Timestamps are in chronological order exactly if their texts are in the order of strings, for the years 1000 to
  9999: sorting log lines sorts them by time.
\<close>

theorem timestamps_sorted:
  assumes "valid_time t" and "valid_time u" and "m < 1000" and "n < 1000"
  shows "log_timestamp t m < log_timestamp u n \<longleftrightarrow> time_fields t m < time_fields u n"
proof -
  have l: "length (padded w k) = w" if "k < 10 ^ w" "0 < w" for k w
    using padded_props(1) [OF that] .
  from assms(1) have t: "tm_year t < 10 ^ 4" "tm_mon t < 10 ^ 2" "tm_mday t < 10 ^ 2" "tm_hour t < 10 ^ 2"
    "tm_min t < 10 ^ 2" "tm_sec t < 10 ^ 2" by (auto simp: valid_time_def)
  from assms(2) have u: "tm_year u < 10 ^ 4" "tm_mon u < 10 ^ 2" "tm_mday u < 10 ^ 2" "tm_hour u < 10 ^ 2"
    "tm_min u < 10 ^ 2" "tm_sec u < 10 ^ 2" by (auto simp: valid_time_def)
  have ms: "m < 10 ^ 3" "n < 10 ^ 3" using assms(3,4) by simp_all
  show ?thesis
    using t u ms
    by (simp add: log_timestamp_def format_time_def year_padded [OF assms(1)] year_padded [OF assms(2)]
        time_fields_def append_less padded_less l del: power_numeral)
qed

text \<open>The buffer of 100 bytes the programs give to \<open>strftime\<close> holds the text and its terminator.\<close>

lemma format_time_fits: "valid_time t \<Longrightarrow> length (format_time t) + 1 \<le> 100"
  by (simp add: format_time_def year_padded padded_props valid_time_def)

subsection \<open>Where the lines go\<close>

type_synonym log_entry = "local_time \<times> nat \<times> log_level \<times> string"

fun log_all :: "log_entry list \<Rightarrow> log_state \<Rightarrow> log_state" where
  "log_all [] s = s"
| "log_all ((t, ms, level, msg) # es) s = log_all es (Logger_log t ms level msg s)"

definition entry_line :: "log_entry \<Rightarrow> string" where
  "entry_line e = (case e of (t, ms, level, msg) \<Rightarrow> log_line t ms level msg @ log_newline)"

definition is_error :: "log_entry \<Rightarrow> bool" where
  "is_error e \<longleftrightarrow> fst (snd (snd e)) = ERROR"

lemma log_all_streams:
  "\<not> s_useFile s \<Longrightarrow>
   std_out (log_all es s) = std_out s @ concat (map entry_line (filter (\<lambda>e. \<not> is_error e) es)) \<and>
   std_err (log_all es s) = std_err s @ concat (map entry_line (filter is_error es)) \<and>
   s_logfile (log_all es s) = s_logfile s"
proof (induction es arbitrary: s)
  case (Cons e es)
  obtain t ms level msg where e: "e = (t, ms, level, msg)" by (cases e)
  let ?s = "Logger_log t ms level msg s"
  have "\<not> s_useFile ?s \<and> s_logfile ?s = s_logfile s \<and>
      std_out ?s = (if level = ERROR then std_out s else std_out s @ entry_line e) \<and>
      std_err ?s = (if level = ERROR then std_err s @ entry_line e else std_err s)"
    using Cons.prems by (simp add: Logger_log_def e entry_line_def Let_def split: option.split)
  with Cons.IH [of ?s] show ?case by (simp add: e is_error_def)
qed simp

text \<open>
  Everything a program logs from its start appears once, in order: the errors on \<open>cerr\<close>, the rest on \<open>cout\<close>, and
  nothing in the log file, which is never opened.
\<close>

theorem log_streams:
  "std_out (log_all es log_initial) = concat (map entry_line (filter (\<lambda>e. \<not> is_error e) es)) \<and>
   std_err (log_all es log_initial) = concat (map entry_line (filter is_error es)) \<and>
   s_logfile (log_all es log_initial) = None"
  using log_all_streams [of log_initial es] by (simp add: log_initial_def)

theorem timestamps_sorted_witness:
  "let t = \<lparr>tm_year = 2025, tm_mon = 3, tm_mday = 9, tm_hour = 8, tm_min = 5, tm_sec = 7\<rparr>;
       u = \<lparr>tm_year = 2025, tm_mon = 10, tm_mday = 1, tm_hour = 0, tm_min = 0, tm_sec = 0\<rparr>
   in log_timestamp t 4 < log_timestamp u 999"
proof -
  let ?t = "\<lparr>tm_year = 2025, tm_mon = 3, tm_mday = 9, tm_hour = 8, tm_min = 5, tm_sec = 7\<rparr>"
  let ?u = "\<lparr>tm_year = 2025, tm_mon = 10, tm_mday = 1, tm_hour = 0, tm_min = 0, tm_sec = 0\<rparr>"
  have "valid_time ?t" "valid_time ?u" by (simp_all add: valid_time_def)
  from timestamps_sorted [OF this, of 4 999] show ?thesis by (simp add: time_fields_def)
qed

end
