(* ===== verification/Console_UI.thy ===== *)
theory Console_UI
  imports Client_Packets Std_Stream
begin

text \<open>
  The output half of \<open>client/src/ui/ConsoleUI.cpp\<close>: what each function writes, as the bytes it writes. The Korean texts
  are given by their UTF-8 bytes.
\<close>

section \<open>Texts\<close>

definition prompt_text :: string where
  "prompt_text = map char_of
     [0x28 :: nat, 0xEC, 0x9E, 0x85, 0xEB, 0xA0, 0xA5, 0xEC, 0xB0, 0xBD, 0x29, 0x20, 0x3E, 0x20]"

definition error_tag :: string where
  "error_tag = map char_of
     [0x5B :: nat, 0xEC, 0x98, 0xA4, 0xEB, 0xA5, 0x98, 0x5D, 0x20]"

definition chat_started_text :: string where
  "chat_started_text = map char_of
     [0xEC :: nat, 0xB1, 0x84, 0xED, 0x8C, 0x85, 0xEC, 0x9D, 0xB4, 0x20, 0xEC, 0x8B, 0x9C, 0xEC, 0x9E, 0x91,
      0xEB, 0x90, 0x98, 0xEC, 0x97, 0x88, 0xEC, 0x8A, 0xB5, 0xEB, 0x8B, 0x88, 0xEB, 0x8B, 0xA4, 0x21, 0x20,
      0x28, 0xEC, 0xA2, 0x85, 0xEB, 0xA3, 0x8C, 0x3A, 0x20, 0x2F, 0x65, 0x78, 0x69, 0x74, 0x29]"

definition connection_ended_text :: string where
  "connection_ended_text = map char_of
     [0xEC :: nat, 0x84, 0x9C, 0xEB, 0xB2, 0x84, 0xEC, 0x99, 0x80, 0xEC, 0x9D, 0x98, 0x20, 0xEC, 0x97, 0xB0,
      0xEA, 0xB2, 0xB0, 0xEC, 0x9D, 0xB4, 0x20, 0xEC, 0xA2, 0x85, 0xEB, 0xA3, 0x8C, 0xEB, 0x90, 0x98, 0xEC,
      0x97, 0x88, 0xEC, 0x8A, 0xB5, 0xEB, 0x8B, 0x88, 0xEB, 0x8B, 0xA4, 0x2E, 0x20, 0x45, 0x6E, 0x74, 0x65,
      0x72, 0x20, 0xED, 0x82, 0xA4, 0xEB, 0xA5, 0xBC, 0x20, 0xEB, 0x88, 0x8C, 0xEB, 0x9F, 0xAC, 0x20, 0xED,
      0x94, 0x84, 0xEB, 0xA1, 0x9C, 0xEA, 0xB7, 0xB8, 0xEB, 0x9E, 0xA8, 0xEC, 0x9D, 0x84, 0x20, 0xEC, 0xA2,
      0x85, 0xEB, 0xA3, 0x8C, 0xED, 0x95, 0x98, 0xEC, 0x84, 0xB8, 0xEC, 0x9A, 0x94, 0x2E]"

definition back_to_lobby_text :: string where
  "back_to_lobby_text = map char_of
     [0xEB :: nat, 0xA1, 0x9C, 0xEB, 0xB9, 0x84, 0xEB, 0xA1, 0x9C, 0x20, 0xEB, 0x8F, 0x8C, 0xEC, 0x95, 0x84,
      0xEA, 0xB0, 0x91, 0xEB, 0x8B, 0x88, 0xEB, 0x8B, 0xA4, 0x2E, 0x2E, 0x2E]"

section \<open>Output\<close>

definition ClearLine :: string where
  "ClearLine = [carriage_return] @ replicate 80 CHR '' '' @ [carriage_return]"

definition ShowInputPrompt :: string where
  "ShowInputPrompt = prompt_text"

definition DisplaySystemMessage :: "string \<Rightarrow> string" where
  "DisplaySystemMessage msg = ClearLine @ system_tag @ msg @ [newline]"

definition DisplayMessage :: "message \<Rightarrow> string" where
  "DisplayMessage m = ClearLine @ FormatForDisplay False m @ [newline] @ ShowInputPrompt"

text \<open>On \<open>std::cerr\<close>.\<close>

definition DisplayError :: "string \<Rightarrow> string" where
  "DisplayError err = error_tag @ err @ [newline]"

text \<open>\<open>Lobby::OnMessageReceived\<close>, which gets the text of the message.\<close>

definition OnMessageReceived :: "string \<Rightarrow> string" where
  "OnMessageReceived msg = ClearLine @ msg @ [newline] @ ShowInputPrompt"

lemma OnMessageReceived_DisplayMessage: "OnMessageReceived (FormatForDisplay False m) = DisplayMessage m"
  by (simp add: OnMessageReceived_def DisplayMessage_def)

end
