(* ===== verification/Client_Session.thy ===== *)
theory Client_Session
  imports Lobby Logger Console_UI
begin

text \<open>
  The chat screen of \<open>client/src/ui/Lobby.cpp\<close>: \<open>StartChatSession\<close> starts the thread that runs
  \<open>ChatService::StartReceiving\<close>, and the main thread runs \<open>InputLoop\<close>, where \<open>/exit\<close> calls \<open>RoomService::ExitRoom\<close>. Both
  threads read packets from the same socket.

  A step is one step of one thread between two points where the other can get in: a call of \<open>recv\<close>, a test of a
  shared flag, one line of input. \<open>inbox\<close> holds the bytes the server sends in the time considered, and \<open>closes\<close>
  says whether it closes the connection after them; a \<open>recv\<close> for more bytes than there are returns only in that
  case, or when the client has closed the socket itself. The flags are plain variables, read and written here in
  one order all threads agree on. \<open>screen\<close> is what the two loops write to \<open>std::cout\<close>; the services' own reports are left
  out.
\<close>

section \<open>Receiving in two steps\<close>

text \<open>\<open>NetworkClient::Receive\<close>, cut at its second call of \<open>recv\<close>.\<close>

datatype read_end = Read_Failed | Read_Body packet_type u16 | Read_Packet packet

definition receive_header :: "network_client \<Rightarrow> read_end \<times> network_client" where
  "receive_header c =
     (case recv_waitall HEADER_SIZE c of
        (hdr, c1) \<Rightarrow>
          if length hdr \<noteq> HEADER_SIZE then (Read_Failed, nc_Close c1)
          else
            (let t = read_type hdr; n = read_size hdr
             in if unat n > 0 then
                  (if unat n > MAX_PAYLOAD_SIZE then (Read_Failed, nc_Close c1) else (Read_Body t n, c1))
                else (Read_Packet (mk_packet t n []), c1)))"

definition receive_body :: "packet_type \<Rightarrow> u16 \<Rightarrow> network_client \<Rightarrow> read_end \<times> network_client" where
  "receive_body t n c =
     (case recv_waitall (unat n) c of
        (body, c2) \<Rightarrow>
          if length body \<noteq> unat n then (Read_Failed, nc_Close c2)
          else (Read_Packet (mk_packet t n body), c2))"

definition packet_read :: "read_end \<times> network_client \<Rightarrow> packet option \<times> network_client" where
  "packet_read r = (case r of (Read_Packet p, c) \<Rightarrow> (Some p, c) | (_, c) \<Rightarrow> (None, c))"

lemma nc_Receive_two_steps:
  "nc_Receive c =
     (case receive_header c of
        (Read_Body t n, c1) \<Rightarrow> packet_read (receive_body t n c1)
      | r \<Rightarrow> packet_read r)"
  by (simp add: nc_Receive_def receive_header_def receive_body_def packet_read_def Let_def split: prod.splits)

definition recv_returns :: "bool \<Rightarrow> nat \<Rightarrow> network_client \<Rightarrow> bool" where
  "recv_returns closes n c \<longleftrightarrow> \<not> m_connected c \<or> closes \<or> n \<le> length (inbox c)"

section \<open>The two threads\<close>

datatype main_pc =
    Loop_Test | Read_Line | Send_Line string
  | Exit_Send | Exit_Header | Exit_Body packet_type u16
  | Stop_Receiving | Joining | Back_In_Lobby | Chat_Over
  | Main_Thrown client_exn | Unwinding client_exn | Chat_Thrown client_exn

datatype recv_pc =
    Recv_Start | Recv_Test | Recv_Header | Recv_Body packet_type u16 | Recv_Got packet
  | Recv_Finish | Recv_Done | Recv_Thrown client_exn

record session =
  main_at :: main_pc
  recv_at :: recv_pc
  m_is_receiving :: bool
  keyboard :: istream
  state :: client_state
  shown :: "message list"
  screen :: string

abbreviation sock :: "session \<Rightarrow> network_client" where
  "sock s \<equiv> net (state s)"

definition set_sock :: "network_client \<Rightarrow> session \<Rightarrow> session" where
  "set_sock c s = s\<lparr>state := (state s)\<lparr>net := c\<rparr>\<rparr>"

definition start_session :: "istream \<Rightarrow> client_state \<Rightarrow> session" where
  "start_session kb st =
     \<lparr>main_at = Loop_Test, recv_at = Recv_Start, m_is_receiving = False, keyboard = kb, state = st, shown = [],
      screen = DisplaySystemMessage chat_started_text @ ShowInputPrompt\<rparr>"

text \<open>Where \<open>InputLoop\<close> goes after a line: the end of the input or of the connection, \<open>/exit\<close>, a message, or nothing.\<close>

definition after_line :: "string \<Rightarrow> istream \<Rightarrow> client_state \<Rightarrow> main_pc" where
  "after_line line kb st =
     (if eofbit kb \<or> \<not> m_connected (net st) then Stop_Receiving
      else if line = ''/exit'' then (if IsInRoom st then Exit_Send else Stop_Receiving)
      else if line \<noteq> [] then Send_Line line else Loop_Test)"

text \<open>A sent message on the sender's own screen, with the local time.\<close>

definition own_line :: "local_time \<Rightarrow> string \<Rightarrow> string" where
  "own_line t line = FormatForDisplay True (new_message [] [] line (format_time t) (-1) CHAT)"

text \<open>The end of \<open>ExitRoom\<close>, by the type of the packet it took for the answer.\<close>

definition exit_answered :: "packet \<Rightarrow> session \<Rightarrow> session" where
  "exit_answered p s =
     (let s1 = s\<lparr>main_at := Stop_Receiving\<rparr>
      in if pkt_type p = ROOM_EXIT_OK
         then s1\<lparr>state := (state s1)\<lparr>m_current_room_code := []\<rparr>\<rparr> else s1)"

definition main_read :: "read_end \<times> network_client \<Rightarrow> session \<Rightarrow> session" where
  "main_read r s =
     (case r of
        (Read_Failed, c) \<Rightarrow> (set_sock c s)\<lparr>main_at := Stop_Receiving\<rparr>
      | (Read_Body t n, c) \<Rightarrow> (set_sock c s)\<lparr>main_at := Exit_Body t n\<rparr>
      | (Read_Packet p, c) \<Rightarrow> exit_answered p (set_sock c s))"

definition receiver_read :: "read_end \<times> network_client \<Rightarrow> session \<Rightarrow> session" where
  "receiver_read r s =
     (case r of
        (Read_Failed, c) \<Rightarrow> (set_sock c s)\<lparr>recv_at := Recv_Finish\<rparr>
      | (Read_Body t n, c) \<Rightarrow> (set_sock c s)\<lparr>recv_at := Recv_Body t n\<rparr>
      | (Read_Packet p, c) \<Rightarrow> (set_sock c s)\<lparr>recv_at := Recv_Got p\<rparr>)"

definition receiver_shows :: "(u64 \<Rightarrow> c_int) \<Rightarrow> packet \<Rightarrow> session \<Rightarrow> session" where
  "receiver_shows oo p s =
     (if displayed_type (pkt_type p) then
        (case ParseMessagePacket oo p of
           Inl e \<Rightarrow> s\<lparr>recv_at := Recv_Thrown e\<rparr>
         | Inr m \<Rightarrow> s\<lparr>recv_at := Recv_Test, shown := shown s @ [m], 
             screen := screen s @ OnMessageReceived (FormatForDisplay False m)\<rparr>)
      else s\<lparr>recv_at := Recv_Test\<rparr>)"

text \<open>\<open>ChatService::StartReceiving\<close> and \<open>ReceiveLoop\<close> on their own thread.\<close>

inductive receiver_step :: "(u64 \<Rightarrow> c_int) \<Rightarrow> bool \<Rightarrow> session \<Rightarrow> session \<Rightarrow> bool" for oo closes where
  recv_start:
    "recv_at s = Recv_Start \<Longrightarrow>
     receiver_step oo closes s (s\<lparr>m_is_receiving := True, recv_at := Recv_Test\<rparr>)"
| recv_test:
    "recv_at s = Recv_Test \<Longrightarrow>
     receiver_step oo closes s
       (s\<lparr>recv_at := (if m_is_receiving s \<and> m_connected (sock s) then Recv_Header else Recv_Finish)\<rparr>)"
| recv_header:
    "recv_at s = Recv_Header \<Longrightarrow> recv_returns closes HEADER_SIZE (sock s) \<Longrightarrow>
     receiver_step oo closes s (receiver_read (receive_header (sock s)) s)"
| recv_body:
    "recv_at s = Recv_Body t n \<Longrightarrow> recv_returns closes (unat n) (sock s) \<Longrightarrow>
     receiver_step oo closes s (receiver_read (receive_body t n (sock s)) s)"
| recv_got:
    "recv_at s = Recv_Got p \<Longrightarrow> receiver_step oo closes s (receiver_shows oo p s)"
| recv_finish:
    "recv_at s = Recv_Finish \<Longrightarrow>
     receiver_step oo closes s
       (s\<lparr>m_is_receiving := False, recv_at := Recv_Done,
          screen := screen s @ ClearLine @ DisplaySystemMessage connection_ended_text\<rparr>)"

text \<open>
  \<open>InputLoop\<close> on the main thread, and the two threads together. An exception on the main thread runs \<open>~Lobby\<close> on its
  way out, which stops and joins the receiver and closes the connection.
\<close>

inductive thread_step ::
  "(u64 \<Rightarrow> string) \<Rightarrow> (u64 \<Rightarrow> c_int) \<Rightarrow> bool \<Rightarrow> session \<Rightarrow> session \<Rightarrow> bool" for dt oo closes where
  loop_test:
    "main_at s = Loop_Test \<Longrightarrow>
     thread_step dt oo closes s
       (s\<lparr>main_at := (if m_connected (sock s) then Read_Line else Stop_Receiving)\<rparr>)"
| read_line:
    "main_at s = Read_Line \<Longrightarrow> GetMessageInput (keyboard s) = (line, kb) \<Longrightarrow>
     thread_step dt oo closes s 
       (s\<lparr>keyboard := kb, main_at := after_line line kb (state s),
          screen := screen s @ (if after_line line kb (state s) = Loop_Test then ShowInputPrompt else [])\<rparr>)"
| send_line:
    "main_at s = Send_Line line \<Longrightarrow> SendMessage dt line as (state s) = (Some (Inr ok), st) \<Longrightarrow>
     thread_step dt oo closes s
       (s\<lparr>state := st, main_at := Loop_Test,
          screen := screen s @ (if ok then ClearLine @ own_line t line @ [newline] else []) @ ShowInputPrompt\<rparr>)"
| send_throws:
    "main_at s = Send_Line line \<Longrightarrow> SendMessage dt line as (state s) = (Some (Inl e), st) \<Longrightarrow>
     thread_step dt oo closes s (s\<lparr>state := st, main_at := Main_Thrown e\<rparr>)"
| exit_send:
    "main_at s = Exit_Send \<Longrightarrow> nc_Send CreateRoomExitPacket as (sock s) = (Some ok, c) \<Longrightarrow>
     thread_step dt oo closes s
       ((set_sock c s)\<lparr>main_at := (if ok then Exit_Header else Stop_Receiving)\<rparr>)"
| exit_header:
    "main_at s = Exit_Header \<Longrightarrow> recv_returns closes HEADER_SIZE (sock s) \<Longrightarrow>
     thread_step dt oo closes s (main_read (receive_header (sock s)) s)"
| exit_body:
    "main_at s = Exit_Body t n \<Longrightarrow> recv_returns closes (unat n) (sock s) \<Longrightarrow>
     thread_step dt oo closes s (main_read (receive_body t n (sock s)) s)"
| stop_receiving:
    "main_at s = Stop_Receiving \<Longrightarrow>
     thread_step dt oo closes s (s\<lparr>m_is_receiving := False, main_at := Joining\<rparr>)"
| join:
    "main_at s = Joining \<Longrightarrow> recv_at s = Recv_Done \<Longrightarrow>
     thread_step dt oo closes s
       (s\<lparr>main_at := (if m_connected (sock s) then Back_In_Lobby else Chat_Over),
          screen := screen s @
            (if m_connected (sock s) then [newline] @ back_to_lobby_text @ [newline, newline] else [])\<rparr>)"
| unwind:
    "main_at s = Main_Thrown e \<Longrightarrow>
     thread_step dt oo closes s (s\<lparr>m_is_receiving := False, main_at := Unwinding e\<rparr>)"
| unwound:
    "main_at s = Unwinding e \<Longrightarrow> recv_at s = Recv_Done \<Longrightarrow>
     thread_step dt oo closes s ((set_sock (nc_Close (sock s)) s)\<lparr>main_at := Chat_Thrown e\<rparr>)"
| by_receiver:
    "receiver_step oo closes s s' \<Longrightarrow> thread_step dt oo closes s s'"

text \<open>An exception on the receiver's thread is caught by nobody and ends the program.\<close>

definition terminated :: "session \<Rightarrow> bool" where
  "terminated s \<longleftrightarrow> (\<exists>e. recv_at s = Recv_Thrown e)"

definition session_step ::
  "(u64 \<Rightarrow> string) \<Rightarrow> (u64 \<Rightarrow> c_int) \<Rightarrow> bool \<Rightarrow> session \<Rightarrow> session \<Rightarrow> bool" where
  "session_step dt oo closes s s' \<longleftrightarrow> \<not> terminated s \<and> thread_step dt oo closes s s'"

section \<open>Leaving the chat\<close>

lemma set_sock_fields [simp]:
  "main_at (set_sock c s) = main_at s" "recv_at (set_sock c s) = recv_at s"
  "m_is_receiving (set_sock c s) = m_is_receiving s" "sock (set_sock c s) = c"
  "keyboard (set_sock c s) = keyboard s" "shown (set_sock c s) = shown s" "screen (set_sock c s) = screen s"
  by (simp_all add: set_sock_def)

definition in_chat :: "main_pc \<Rightarrow> bool" where
  "in_chat m \<longleftrightarrow> m \<noteq> Back_In_Lobby \<and> m \<noteq> Chat_Over \<and> (\<forall>e. m \<noteq> Chat_Thrown e)"

text \<open>The receiver waits for a header that will not come.\<close>

definition receiver_starved :: "session \<Rightarrow> bool" where
  "receiver_starved s \<longleftrightarrow>
     recv_at s = Recv_Header \<and> m_connected (sock s) \<and> length (inbox (sock s)) < HEADER_SIZE \<and> in_chat (main_at s)"

lemma SendMessage_sock:
  "SendMessage dt line as st = (r, st') \<Longrightarrow>
   m_connected (net st') = m_connected (net st) \<and> inbox (net st') = inbox (net st)"
  by (auto simp: SendMessage_def nc_Send_def split: if_splits sum.splits prod.splits)

lemma nc_Send_sock:
  "nc_Send p as c = (r, c') \<Longrightarrow> m_connected c' = m_connected c \<and> inbox c' = inbox c"
  by (auto simp: nc_Send_def split: if_splits prod.splits)

lemma starved_receiver: "receiver_step oo False s s' \<Longrightarrow> receiver_starved s \<Longrightarrow> receiver_starved s'"
  by (cases rule: receiver_step.cases) (auto simp: receiver_starved_def recv_returns_def)

lemma starved_step:
  assumes "receiver_starved s" and "session_step dt oo False s s'"
  shows "receiver_starved s'"
proof -
  from assms(2) have "thread_step dt oo False s s'" by (simp add: session_step_def)
  then show ?thesis
  proof (cases rule: thread_step.cases)
    case by_receiver
    with assms(1) show ?thesis by (simp add: starved_receiver)
  qed (use assms(1) in \<open>auto simp: receiver_starved_def in_chat_def after_line_def recv_returns_def main_read_def
         exit_answered_def receive_body_def recv_waitall_def Let_def
         dest!: SendMessage_sock nc_Send_sock split: if_splits\<close>)
qed

interpretation st: transition_invariant "session_step dt oo False" receiver_starved for dt oo
  by unfold_locales (rule starved_step)

text \<open>The answer of the server to a request to leave the room.\<close>

definition exit_reply :: packet where
  "exit_reply = mk_packet ROOM_EXIT_OK 0 []"

text \<open>
  Both threads wait for a header and the answer is all that comes: whoever takes it, the other one waits on.
\<close>

definition exit_race :: "session \<Rightarrow> bool" where
  "exit_race s \<longleftrightarrow>
     m_connected (sock s) \<and> main_at s = Exit_Header \<and> m_is_receiving s
     \<and> (inbox (sock s) = packet_bytes exit_reply \<and> recv_at s = Recv_Header
        \<or> inbox (sock s) = [] \<and> recv_at s \<in> {Recv_Got exit_reply, Recv_Test, Recv_Header})"

lemma exit_reply_header':
  assumes "m_connected c" and "inbox c = packet_bytes exit_reply @ rest"
  shows "receive_header c = (Read_Packet exit_reply, c\<lparr>inbox := rest\<rparr>)"
proof -
  have wf: "wf_packet exit_reply" by (simp add: exit_reply_def wf_packet_def)
  let ?h = "header_bytes \<lparr>ptype = ROOM_EXIT_OK, psize = 0\<rparr>"
  from assms(2) have box: "inbox c = ?h @ rest" by (simp add: packet_bytes_wf [OF wf]) (simp add: exit_reply_def mk_packet_def)
  have "read_type ?h = ROOM_EXIT_OK" "read_size ?h = 0"
    using read_type_header [of "\<lparr>ptype = ROOM_EXIT_OK, psize = 0\<rparr>" "[]"]
      read_size_header [of "\<lparr>ptype = ROOM_EXIT_OK, psize = 0\<rparr>" "[]"]
    using canonical_enumerator [of ROOM_EXIT_OK] by (simp_all add: canonical_type_def)
  then show ?thesis
    using recv_waitall_exact [OF assms(1) box, of HEADER_SIZE]
    by (simp add: receive_header_def exit_reply_def Let_def)
qed

lemmas exit_reply_header = exit_reply_header' [where rest = "[]", simplified]

lemma race_receiver:
  assumes "receiver_step oo False s s'" and "exit_race s"
  shows "exit_race s' \<or> receiver_starved s'"
  using assms
proof (cases rule: receiver_step.cases)
  case recv_header
  with assms(2) show ?thesis
    by (auto simp: exit_race_def recv_returns_def HEADER_SIZE_def receiver_read_def exit_reply_header)
next
  case (recv_got p)
  with assms(2) have "p = exit_reply" by (auto simp: exit_race_def)
  with recv_got assms(2) show ?thesis
    by (auto simp: exit_race_def receiver_shows_def displayed_type_def exit_reply_def [THEN arg_cong [of _ _ pkt_type]])
qed (use assms(2) in \<open>auto simp: exit_race_def\<close>)

lemma race_step:
  assumes "exit_race s" and "session_step dt oo False s s'"
  shows "exit_race s' \<or> receiver_starved s'"
proof -
  from assms(2) have "thread_step dt oo False s s'" by (simp add: session_step_def)
  then show ?thesis
  proof (cases rule: thread_step.cases)
    case by_receiver
    with assms(1) show ?thesis by (simp add: race_receiver)
  qed (use assms(1) in \<open>auto simp: exit_race_def receiver_starved_def in_chat_def recv_returns_def HEADER_SIZE_def
         main_read_def exit_answered_def exit_reply_header exit_reply_def [THEN arg_cong [of _ _ pkt_type]]
         Let_def split: if_splits\<close>)
qed

interpretation ex: transition_invariant "session_step dt oo False" "\<lambda>s. exit_race s \<or> receiver_starved s" for dt oo
  by unfold_locales (blast dest: race_step starved_step)

text \<open>
  C38. Leaving a room hangs the client. When \<open>/exit\<close> has sent its request while the receiving thread waits for
  the next packet, as it does whenever the room is quiet, and the server sends its answer \<open>ROOM_EXIT_OK\<close> and
  nothing more, the main thread never gets past \<open>join\<close>, so the client never comes back to the lobby: one of the two
  threads takes the answer, the other one stays in \<open>recv\<close>, and closing the connection is what neither does.
\<close>

theorem exit_never_returns:
  assumes "main_at s = Exit_Header" and "recv_at s = Recv_Header" and "m_is_receiving s"
    and "m_connected (sock s)" and "inbox (sock s) = packet_bytes exit_reply"
    and "reachable (session_step dt oo False) s s'"
  shows "main_at s' \<noteq> Back_In_Lobby \<and> main_at s' \<noteq> Chat_Over"
proof -
  have "exit_race s" using assms(1-5) by (simp add: exit_race_def)
  with ex.invariant_reachable [OF assms(6)] have "exit_race s' \<or> receiver_starved s'" by blast
  then show ?thesis by (auto simp: exit_race_def receiver_starved_def in_chat_def)
qed

definition demo_session :: "recv_pc \<Rightarrow> session" where
  "demo_session r =
     \<lparr>main_at = Exit_Header, recv_at = r, m_is_receiving = True, keyboard = open_stream [],
      state = \<lparr>net = \<lparr>m_connected = True, inbox = packet_bytes exit_reply, sent = packet_bytes CreateRoomExitPacket\<rparr>,
               m_current_user = named_user ''al'', m_current_room_code = ''ABCD1234''\<rparr>,
      shown = [], screen = []\<rparr>"

theorem exit_never_returns_witness:
  "main_at (exit_answered exit_reply (set_sock ((sock (demo_session Recv_Header))\<lparr>inbox := []\<rparr>) (demo_session Recv_Header)))
     \<noteq> Back_In_Lobby"
proof -
  let ?s = "demo_session Recv_Header"
  have "thread_step dt oo False ?s (main_read (receive_header (sock ?s)) ?s)" for dt oo
    by (rule exit_header) (simp_all add: demo_session_def recv_returns_def exit_reply_def packet_bytes_def HEADER_SIZE_def)
  moreover have "receive_header (sock ?s) = (Read_Packet exit_reply, (sock ?s)\<lparr>inbox := []\<rparr>)"
    by (rule exit_reply_header) (simp_all add: demo_session_def)
  ultimately have "session_step dt oo False ?s (exit_answered exit_reply (set_sock ((sock ?s)\<lparr>inbox := []\<rparr>) ?s))" for dt oo
    by (simp add: session_step_def terminated_def main_read_def demo_session_def)
  then have "reachable (session_step (\<lambda>_. []) (\<lambda>_. 0) False) ?s
      (exit_answered exit_reply (set_sock ((sock ?s)\<lparr>inbox := []\<rparr>) ?s))"
    by (rule reachable.next_state [OF reachable.start])
  from exit_never_returns [OF _ _ _ _ _ this] show ?thesis by (simp add: demo_session_def)
qed

lemma session_next:
  "reachable (session_step dt oo closes) s s1 \<Longrightarrow> \<not> terminated s1 \<Longrightarrow> thread_step dt oo closes s1 s2 \<Longrightarrow>
   reachable (session_step dt oo closes) s s2"
  by (auto intro: reachable.next_state simp: session_step_def)

text \<open>
  The other way it can go. Only while the receiving thread is between two packets can the client leave: if the
  main thread takes the answer and clears \<open>m_is_receiving\<close> before the receiver tests it, the receiver ends, the
  threads join, and the client is back in the lobby, connected and in no room.
\<close>

theorem exit_returns_between_packets:
  assumes "main_at s = Exit_Header" and "recv_at s = Recv_Test"
    and "m_connected (sock s)" and "inbox (sock s) = packet_bytes exit_reply @ rest"
  shows "\<exists>s'. reachable (session_step dt oo closes) s s' \<and> main_at s' = Back_In_Lobby
    \<and> m_current_room_code (state s') = [] \<and> m_connected (sock s') \<and> inbox (sock s') = rest"
proof -
  let ?st = "(state s)\<lparr>net := (sock s)\<lparr>inbox := rest\<rparr>, m_current_room_code := []\<rparr>"
  let ?s1 = "s\<lparr>main_at := Stop_Receiving, state := ?st\<rparr>"
  let ?s2 = "?s1\<lparr>m_is_receiving := False, main_at := Joining\<rparr>"
  let ?s3 = "?s2\<lparr>recv_at := Recv_Finish\<rparr>"
  let ?s4 = "?s3\<lparr>m_is_receiving := False, recv_at := Recv_Done,
      screen := screen ?s3 @ ClearLine @ DisplaySystemMessage connection_ended_text\<rparr>"
  let ?s5 = "?s4\<lparr>main_at := Back_In_Lobby,
      screen := screen ?s4 @ [newline] @ back_to_lobby_text @ [newline, newline]\<rparr>"
  let ?R = "reachable (session_step dt oo closes) s"
  note exit_reply_header' [OF assms(3,4)]
  then have r: "main_read (receive_header (sock s)) s = ?s1"
    by (simp add: main_read_def exit_answered_def exit_reply_def set_sock_def Let_def)
  have "recv_returns closes HEADER_SIZE (sock s)"
    using assms(4) by (simp add: recv_returns_def exit_reply_def packet_bytes_def)
  from exit_header [OF assms(1) this, of dt oo] r have "thread_step dt oo closes s ?s1" by simp
  then have "?R ?s1" using assms(2) by (intro session_next [OF reachable.start]) (simp_all add: terminated_def)
  moreover have "thread_step dt oo closes ?s1 ?s2" by (rule stop_receiving) simp
  ultimately have "?R ?s2" using assms(2) by (elim session_next) (simp_all add: terminated_def)
  moreover have "thread_step dt oo closes ?s2 ?s3" using by_receiver [OF recv_test [of ?s2 oo closes]] assms(2) by simp
  ultimately have "?R ?s3" using assms(2) by (elim session_next) (simp_all add: terminated_def)
  moreover have "thread_step dt oo closes ?s3 ?s4" by (rule by_receiver [OF recv_finish]) simp
  ultimately have "?R ?s4" by (elim session_next) (simp_all add: terminated_def)
  moreover have "thread_step dt oo closes ?s4 ?s5" using join [of ?s4 dt oo closes] assms(3) by simp
  ultimately have "?R ?s5" by (elim session_next) (simp_all add: terminated_def)
  then show ?thesis using assms(3) by (intro exI [of _ ?s5]) simp
qed

theorem exit_returns_between_packets_witness:
  "\<exists>s'. reachable (session_step (\<lambda>_. []) (\<lambda>_. 0) False) (demo_session Recv_Test) s' \<and> main_at s' = Back_In_Lobby"
  using exit_returns_between_packets [of "demo_session Recv_Test" "[]" "\<lambda>_. []" "\<lambda>_. 0" False]
  by (auto simp: demo_session_def)

section \<open>When the chat can block\<close>

definition waits_for_server :: "bool \<Rightarrow> nat \<Rightarrow> session \<Rightarrow> bool" where
  "waits_for_server closes n s \<longleftrightarrow> \<not> recv_returns closes n (sock s)"

definition main_blocked :: "bool \<Rightarrow> session \<Rightarrow> bool" where
  "main_blocked closes s \<longleftrightarrow>
     (case main_at s of
        Joining \<Rightarrow> recv_at s \<noteq> Recv_Done
      | Unwinding e \<Rightarrow> recv_at s \<noteq> Recv_Done
      | Exit_Header \<Rightarrow> waits_for_server closes HEADER_SIZE s
      | Exit_Body t n \<Rightarrow> waits_for_server closes (unat n) s
      | _ \<Rightarrow> False)"

definition receiver_blocked :: "bool \<Rightarrow> session \<Rightarrow> bool" where
  "receiver_blocked closes s \<longleftrightarrow>
     (case recv_at s of
        Recv_Header \<Rightarrow> waits_for_server closes HEADER_SIZE s
      | Recv_Body t n \<Rightarrow> waits_for_server closes (unat n) s
      | Recv_Done \<Rightarrow> True
      | _ \<Rightarrow> False)"

lemma nc_Send_returns: "\<exists>ok c'. nc_Send p [Send_Failed] c = (Some ok, c')"
  by (cases "packet_bytes p = []") (auto simp: nc_Send_def)

lemma SendMessage_returns: "\<exists>r st'. SendMessage dt line [Send_Failed] st = (Some r, st')"
proof (cases "CreateMessageSendPacket dt line")
  case (Inr p)
  obtain ok c where "nc_Send p [Send_Failed] (net st) = (Some ok, c)" using nc_Send_returns by blast
  with Inr show ?thesis by (simp add: SendMessage_def)
qed (simp add: SendMessage_def)

lemma receiver_enabled:
  assumes "\<not> receiver_blocked closes s" and "\<not> terminated s"
  shows "\<exists>s'. receiver_step oo closes s s'"
proof (cases "recv_at s")
  case Recv_Start
  then show ?thesis by (blast intro: recv_start)
next
  case Recv_Test
  then show ?thesis by (blast intro: recv_test)
next
  case Recv_Header
  with assms(1) show ?thesis by (auto simp: receiver_blocked_def waits_for_server_def intro: recv_header)
next
  case (Recv_Body t n)
  with assms(1) show ?thesis by (auto simp: receiver_blocked_def waits_for_server_def intro: recv_body)
next
  case (Recv_Got p)
  then show ?thesis by (blast intro: recv_got)
next
  case Recv_Finish
  then show ?thesis by (blast intro: recv_finish)
next
  case Recv_Done
  with assms(1) show ?thesis by (simp add: receiver_blocked_def)
next
  case (Recv_Thrown e)
  with assms(2) show ?thesis by (simp add: terminated_def)
qed

lemma main_enabled:
  assumes "\<not> main_blocked closes s" and "in_chat (main_at s)"
  shows "\<exists>s'. thread_step dt oo closes s s'"
proof (cases "main_at s")
  case Loop_Test
  then show ?thesis by (blast intro: loop_test)
next
  case Read_Line
  obtain line kb where "GetMessageInput (keyboard s) = (line, kb)" by force
  with Read_Line show ?thesis by (blast intro: read_line)
next
  case (Send_Line line)
  obtain r st where "SendMessage dt line [Send_Failed] (state s) = (Some r, st)"
    using SendMessage_returns by blast
  with Send_Line show ?thesis by (cases r) (blast intro: send_line send_throws)+
next
  case Exit_Send
  obtain ok c where "nc_Send CreateRoomExitPacket [Send_Failed] (sock s) = (Some ok, c)"
    using nc_Send_returns by blast
  with Exit_Send show ?thesis by (blast intro: exit_send)
next
  case Exit_Header
  with assms(1) show ?thesis by (auto simp: main_blocked_def waits_for_server_def intro: exit_header)
next
  case (Exit_Body t n)
  with assms(1) show ?thesis by (auto simp: main_blocked_def waits_for_server_def intro: exit_body)
next
  case Stop_Receiving
  then show ?thesis by (blast intro: stop_receiving)
next
  case Joining
  with assms(1) show ?thesis by (auto simp: main_blocked_def intro: join)
next
  case (Main_Thrown e)
  then show ?thesis by (blast intro: unwind)
next
  case (Unwinding e)
  with assms(1) show ?thesis by (auto simp: main_blocked_def intro: unwound)
qed (use assms(2) in \<open>simp_all add: in_chat_def\<close>)



end
