(* ===== verification/Client_Main.thy ===== *)
theory Client_Main
  imports Client_Session
begin

text \<open>
  The whole client: \<open>client/src/main.cpp\<close> around \<open>Lobby::Run\<close>, with the menu of \<open>Lobby\<close> and the chats of \<open>Client_Session\<close> one
  after the other.

  \<open>InputLoop\<close> ends by calling \<open>ShowLobbyMenu\<close> again, inside the menu that started the chat. When the inner menu
  returns, the chat's flag or the connection is gone and the outer loops end too, so what happens is one menu
  after the other.
\<close>

section \<open>From the start to the end\<close>

definition new_lobby :: "istream \<Rightarrow> send_answer list list \<Rightarrow> lobby" where
  "new_lobby kb as = \<lparr>console = kb, services = new_services, answers = as, m_is_running = False\<rparr>"

text \<open>\<open>~Lobby\<close> when no chat is running: the receiver has been joined.\<close>

definition destroy_Lobby :: "lobby \<Rightarrow> lobby" where
  "destroy_Lobby l = (if connected l then l\<lparr>services := Disconnect (services l)\<rparr> else l)"

text \<open>The lobby after a chat that is in the state \<open>s\<close>.\<close>

definition after_chat :: "lobby \<Rightarrow> session \<Rightarrow> lobby" where
  "after_chat l s = l\<lparr>console := keyboard s, services := state s\<rparr>"

definition chat_state :: "(u64 \<Rightarrow> string) \<Rightarrow> (u64 \<Rightarrow> c_int) \<Rightarrow> bool \<Rightarrow> lobby \<Rightarrow> session \<Rightarrow> bool" where
  "chat_state dt oo closes l s \<longleftrightarrow>
     reachable (session_step dt oo closes) (start_session (console l) (services l)) s"

text \<open>How \<open>Run\<close> ends: it returns, an exception leaves it, or the program has been ended or is undefined.\<close>

datatype run_end = Run_Returned | Run_Thrown client_exn | Run_Terminated | Run_Undefined

inductive run_goes_on ::
  "(u64 \<Rightarrow> string) \<Rightarrow> (u64 \<Rightarrow> c_int) \<Rightarrow> bool \<Rightarrow> unit outcome \<Rightarrow> lobby \<Rightarrow> run_end \<Rightarrow> lobby \<Rightarrow> bool"
  for dt oo closes where
  run_returns: "run_goes_on dt oo closes (Done ()) l Run_Returned l"
| run_throws: "run_goes_on dt oo closes (Uncaught e) l (Run_Thrown e) l"
| run_undefined: "run_goes_on dt oo closes Indeterminate l Run_Undefined l"
| back_in_lobby:
    "chat_state dt oo closes l s \<Longrightarrow> main_at s = Back_In_Lobby \<Longrightarrow>
     ShowLobbyMenu dt (after_chat l s) = Some (r, l1) \<Longrightarrow> run_goes_on dt oo closes r l1 e l2 \<Longrightarrow>
     run_goes_on dt oo closes Chat l e l2"
| connection_lost:
    "chat_state dt oo closes l s \<Longrightarrow> main_at s = Chat_Over \<Longrightarrow>
     run_goes_on dt oo closes Chat l Run_Returned (after_chat l s)"
| chat_throws:
    "chat_state dt oo closes l s \<Longrightarrow> main_at s = Chat_Thrown e \<Longrightarrow>
     run_goes_on dt oo closes Chat l (Run_Thrown e) (after_chat l s)"
| receiver_throws:
    "chat_state dt oo closes l s \<Longrightarrow> recv_at s = Recv_Thrown e \<Longrightarrow>
     run_goes_on dt oo closes Chat l Run_Terminated (after_chat l s)"

text \<open>The value \<open>main\<close> returns, if it does: a \<open>json\<close> exception is a \<open>std::exception\<close>; an overrun array is undefined.\<close>

fun exit_code :: "run_end \<Rightarrow> nat option" where
  "exit_code Run_Returned = Some 0"
| "exit_code (Run_Thrown (Json_Exn e)) = Some 1"
| "exit_code (Run_Thrown (Memory_Exn e)) = None"
| "exit_code Run_Terminated = None"
| "exit_code Run_Undefined = None"

definition client_main ::
  "(u64 \<Rightarrow> string) \<Rightarrow> (u64 \<Rightarrow> c_int) \<Rightarrow> bool \<Rightarrow> (string \<Rightarrow> string \<Rightarrow> bool \<times> bool \<times> string) \<Rightarrow> istream
   \<Rightarrow> send_answer list list \<Rightarrow> nat \<Rightarrow> lobby \<Rightarrow> bool" where
  "client_main dt oo closes dial kb as code l' \<longleftrightarrow>
     (\<exists>r l1 e l2. Lobby_Run dt dial (new_lobby kb as) = Some (r, l1) \<and> run_goes_on dt oo closes r l1 e l2
        \<and> exit_code e = Some code \<and> l' = destroy_Lobby l2)"

text \<open>When \<open>main\<close> returns, the connection is closed.\<close>

lemma destroyed_disconnected: "\<not> connected (destroy_Lobby l)"
  by (simp add: destroy_Lobby_def Disconnect_def nc_Close_def)

lemma client_main_disconnected:
  "client_main dt oo closes dial kb as code l' \<Longrightarrow> \<not> connected l' \<and> code \<le> 1"
  using destroyed_disconnected by (auto simp: client_main_def simp del: IsConnected_simp elim!: exit_code.elims)

section \<open>Every chat\<close>

text \<open>The states in which \<open>StartChatSession\<close> is called, in a run that starts from \<open>l0\<close>.\<close>

inductive chat_begins ::
  "(u64 \<Rightarrow> string) \<Rightarrow> (u64 \<Rightarrow> c_int) \<Rightarrow> bool \<Rightarrow> (string \<Rightarrow> string \<Rightarrow> bool \<times> bool \<times> string) \<Rightarrow> lobby \<Rightarrow> lobby \<Rightarrow> bool"
  for dt oo closes dial l0 where
  first_chat:
    "Lobby_Run dt dial l0 = Some (Chat, l) \<Longrightarrow> chat_begins dt oo closes dial l0 l"
| next_chat:
    "chat_begins dt oo closes dial l0 l \<Longrightarrow> chat_state dt oo closes l s \<Longrightarrow> main_at s = Back_In_Lobby \<Longrightarrow>
     ShowLobbyMenu dt (after_chat l s) = Some (Chat, l') \<Longrightarrow> chat_begins dt oo closes dial l0 l'"

definition registered :: "client_state \<Rightarrow> bool" where
  "registered st \<longleftrightarrow> ValidateNickname (user_nickname st)"

lemma room_reply_Chat:
  assumes "room_reply t (exchange p as (net st)) st = (Some (Inr (Some code)), st')"
  shows "IsInRoom st' \<and> m_connected (net st')"
proof -
  obtain q c where x: "exchange p as (net st) = (Response q, c)" and "code \<noteq> []"
    "st' = st\<lparr>net := c, m_current_room_code := code\<rparr>"
    using assms
    by (cases "exchange p as (net st)"; cases "fst (exchange p as (net st))")
      (auto simp: room_reply_def split: if_splits sum.splits)
  moreover from x obtain c1 where "nc_Receive c1 = (Some q, c)"
    by (auto simp: exchange_def split: prod.splits option.splits bool.splits)
  ultimately show ?thesis using nc_Receive_Some by (auto simp: IsInRoom_def)
qed

lemma room_reply_nickname: "room_reply t r st = (x, st') \<Longrightarrow> user_nickname st' = user_nickname st"
  by (cases r; cases "fst r") (auto simp: room_reply_def split: if_splits sum.splits)

text \<open>A request of the menu keeps the nickname, and starts a chat only in a room and on a standing connection.\<close>

definition menu_step_ok :: "lobby \<Rightarrow> unit outcome \<Rightarrow> lobby \<Rightarrow> bool" where
  "menu_step_ok l r l' \<longleftrightarrow>
     user_nickname (services l') = user_nickname (services l) \<and>
     (r = Chat \<longrightarrow> IsInRoom (services l') \<and> m_connected (net (services l')))"

lemma room_outcome_Chat: "room_outcome x = Chat \<longleftrightarrow> (\<exists>code. x = Some (Inr (Some code)))"
  by (auto simp: room_outcome_def split: option.splits sum.splits)

lemma call_room:
  assumes "\<And>as st x st'. f as st = (x, st') \<Longrightarrow> user_nickname st' = user_nickname st"
    and "\<And>as st code st'. f as st = (Some (Inr (Some code)), st') \<Longrightarrow> IsInRoom st' \<and> m_connected (net st')"
    and "apfst room_outcome (call f l) = (r, l')"
  shows "menu_step_ok l r l'"
proof -
  obtain x where c: "call f l = (x, l')" and r: "r = room_outcome x"
    using assms(3) by (cases "call f l") auto
  from call_services [OF c] obtain as where "f as (services l) = (x, services l')" ..
  with assms(1,2) r show ?thesis by (auto simp: menu_step_ok_def room_outcome_Chat)
qed

lemma CreateRoom_ok:
  "CreateRoom dt n k as st = (x, st') \<Longrightarrow> user_nickname st' = user_nickname st"
  "CreateRoom dt n k as st = (Some (Inr (Some code)), st') \<Longrightarrow> IsInRoom st' \<and> m_connected (net st')"
  by (auto simp: CreateRoom_def room_reply_nickname dest: room_reply_Chat split: sum.splits)

lemma JoinRoom_ok:
  "JoinRoom dt c as st = (x, st') \<Longrightarrow> user_nickname st' = user_nickname st"
  "JoinRoom dt c as st = (Some (Inr (Some code)), st') \<Longrightarrow> IsInRoom st' \<and> m_connected (net st')"
  by (auto simp: JoinRoom_def room_reply_nickname dest: room_reply_Chat split: sum.splits)

lemma HandleJoinRoom_ok:
  assumes "HandleJoinRoom dt l = (r, l')"
  shows "menu_step_ok l r l'"
proof -
  obtain x s where x: "std_getline (console l) = (x, s)" by force
  show ?thesis
  proof (cases "text_read x = []")
    case True
    with assms x show ?thesis by (auto simp: HandleJoinRoom_def menu_step_ok_def Let_def)
  next
    case False
    with assms x have "apfst room_outcome (call (JoinRoom dt (text_read x)) (l\<lparr>console := s\<rparr>)) = (r, l')"
      by (simp add: HandleJoinRoom_def Let_def)
    from call_room [OF JoinRoom_ok this] show ?thesis by (simp add: menu_step_ok_def)
  qed
qed

lemma HandleCreateRoom_ok:
  assumes "HandleCreateRoom dt l = (r, l')"
  shows "menu_step_ok l r l'"
proof -
  obtain x s where x: "std_getline (console l) = (x, s)" by force
  obtain y s1 where y: "read_int s = (y, s1)" by force
  let ?l = "l\<lparr>console := ignore_line s1\<rparr>"
  show ?thesis
  proof (cases "text_read x = []")
    case True
    with assms x show ?thesis by (auto simp: HandleCreateRoom_def menu_step_ok_def Let_def)
  next
    case name: False
    show ?thesis
    proof (cases "\<exists>m. y = Some m \<and> 2 \<le> sint m \<and> sint m \<le> 10")
      case True
      then obtain m where "y = Some m" "2 \<le> sint m" "sint m \<le> 10" by blast
      with assms x y name have "apfst room_outcome (call (CreateRoom dt (text_read x) m) ?l) = (r, l')"
        by (simp add: HandleCreateRoom_def Let_def)
      from call_room [OF CreateRoom_ok this] show ?thesis by (simp add: menu_step_ok_def)
    next
      case False
      have "HandleCreateRoom dt l = (if y = None then Indeterminate else Done (), ?l)"
      proof (cases y)
        case None
        with x y name show ?thesis by (simp add: HandleCreateRoom_def Let_def)
      next
        case (Some m)
        with False have "sint m < 2 \<or> 10 < sint m" by auto
        with x y name Some show ?thesis by (simp add: HandleCreateRoom_def Let_def)
      qed
      with assms show ?thesis by (auto simp: menu_step_ok_def split: if_splits)
    qed
  qed
qed

lemma ShowLobbyMenu_ok: "ShowLobbyMenu dt l = Some (r, l') \<Longrightarrow> menu_step_ok l r l'"
proof (induction "(r, l')" arbitrary: r l' rule: ShowLobbyMenu.raw_induct [rotated, consumes 1])
  case (1 f dt l)
  show ?case
  proof (cases "m_is_running l \<and> connected l")
    case False
    with 1 show ?thesis by (auto simp: menu_step_ok_def)
  next
    case run: True
    obtain choice s where read: "read_int (console l) = (choice, s)" by force
    let ?l1 = "l\<lparr>console := ignore_line s\<rparr>"
    show ?thesis
    proof (cases "choice = None \<or> choice = Some 3")
      case True
      with 1 run read show ?thesis by (auto simp: menu_step_ok_def Let_def)
    next
      case False
      then obtain c where c: "choice = Some c" "c \<noteq> 3" by auto
      define r2 where "r2 = (if c = 1 then HandleCreateRoom dt ?l1 else if c = 2 then HandleJoinRoom dt ?l1 else (Done (), ?l1))"
      obtain x l2 where r2: "r2 = (x, l2)" by force
      have ok: "menu_step_ok ?l1 x l2"
        using r2 HandleCreateRoom_ok HandleJoinRoom_ok
        by (auto simp: r2_def menu_step_ok_def split: if_splits)
      from 1(2) run read c have "(if x = Done () then f dt l2 else Some (x, l2)) = Some (r, l')"
        using r2 by (simp add: Let_def r2_def)
      with 1(1) [of dt l2] ok show ?thesis
        by (auto simp: menu_step_ok_def split: if_splits)
    qed
  qed
qed

lemma RegisterNickname_True:
  "RegisterNickname dt nick as st = (Some (Inr True), st') \<Longrightarrow> registered st'"
proof -
  assume r: "RegisterNickname dt nick as st = (Some (Inr True), st')"
  then have v: "ValidateNickname nick" by (auto simp: RegisterNickname_def split: if_splits)
  with r obtain p where p: "CreateNicknameRequestPacket dt nick = Inr p"
    by (cases "CreateNicknameRequestPacket dt nick") (auto simp: RegisterNickname_def)
  obtain x c where x: "exchange p as (net st) = (x, c)" by force
  show ?thesis
  proof (cases x)
    case (Response q)
    have no: "refusal_reason q \<noteq> Inr True"
      by (auto simp: refusal_reason_def split: sum.splits if_splits)
    from r v p x Response have "(if pkt_type q = NICKNAME_RESPONSE_OK
        then (Some (Inr True), st\<lparr>net := c, m_current_user := SetNickname nick (m_current_user st)\<rparr>) else (Some (refusal_reason q), st\<lparr>net := c\<rparr>))
        = (Some (Inr True), st')" by (simp add: RegisterNickname_def)
    with no v show ?thesis by (auto simp: registered_def split: if_splits)
  qed (use r v p x in \<open>simp_all add: RegisterNickname_def\<close>)
qed

lemma RegisterUser_ok:
  "RegisterUser dt l = Some (r, l') \<Longrightarrow> r \<noteq> Chat \<and> (r = Done True \<longrightarrow> registered (services l'))"
proof (induction "(r, l')" arbitrary: r l' rule: RegisterUser.raw_induct [rotated, consumes 1])
  case (1 f dt l)
  show ?case
  proof (cases "connected l")
    case False
    with 1(2) show ?thesis by auto
  next
    case True
    obtain nick s where n: "GetNickname (console l) = (nick, s)" by force
    obtain x l1 where c: "call (RegisterNickname dt nick) (l\<lparr>console := s\<rparr>) = (x, l1)" by force
    from call_services [OF c] obtain as where as: "RegisterNickname dt nick as (services l) = (x, services l1)"
      by auto
    show ?thesis
    proof (cases "x = Some (Inr True)")
      case yes: True
      with 1(2) True n c have "r = Done True" "l' = l1" by simp_all
      with as yes show ?thesis by (simp add: RegisterNickname_True)
    next
      case False
      with 1(2) True n c have "f dt l1 = Some (r, l') \<or> r = Send_Waiting \<or> (\<exists>e. r = Uncaught e)"
        by (auto split: option.splits sum.splits if_splits)
      with 1(1) [of dt l1] show ?thesis by auto
    qed
  qed
qed

lemma SetupConnection_not_Chat: "SetupConnection dial l \<noteq> (Chat, l')"
  by (auto simp: SetupConnection_def Let_def split: prod.splits option.splits)

lemma SendMessage_nickname:
  "SendMessage dt line as st = (r, st') \<Longrightarrow> user_nickname st' = user_nickname st"
  by (auto simp: SendMessage_def split: if_splits sum.splits prod.splits)

lemma session_nickname_receiver:
  "receiver_step oo closes s s' \<Longrightarrow> user_nickname (state s') = user_nickname (state s)"
  by (cases rule: receiver_step.cases)
    (auto simp: receiver_read_def receiver_shows_def set_sock_def split: prod.splits read_end.splits sum.splits)

lemma main_read_nickname: "user_nickname (state (main_read r s)) = user_nickname (state s)"
  by (auto simp: main_read_def exit_answered_def set_sock_def Let_def split: prod.splits read_end.splits)

interpretation nick: transition_invariant "session_step dt oo closes" "\<lambda>s. user_nickname (state s) = n" for dt oo closes n
proof
  fix s s'
  assume n: "user_nickname (state s) = n" and "session_step dt oo closes s s'"
  then have "thread_step dt oo closes s s'" by (simp add: session_step_def)
  then show "user_nickname (state s') = n"
    using n
    by (cases rule: thread_step.cases)
      (auto simp: main_read_nickname set_sock_def session_nickname_receiver dest: SendMessage_nickname)
qed


section \<open>Witness\<close>

text \<open>A user \<open>al\<close> connects, registers and joins the room \<open>r\<close>.\<close>

definition demo_typed :: string where
  "demo_typed = ''h 1'' @ [newline] @ ''al'' @ [newline] @ ''2'' @ [newline] @ ''r'' @ [newline]"

definition demo_dial :: "string \<Rightarrow> string \<Rightarrow> bool \<times> bool \<times> string" where
  "demo_dial host port =
     (True, True, packet_bytes (mk_packet NICKNAME_RESPONSE_OK 0 []) @
        packet_bytes (text_packet ROOM_JOIN_OK ''{\"roomCode\":\"r\"}''))"

definition demo_start :: lobby where
  "demo_start = new_lobby (open_stream demo_typed) [[Sent 100], [Sent 100]]"

declare RegisterUser.simps [code] ShowLobbyMenu.simps [code]

lemma demo_run_chat: "map_option fst (Lobby_Run (\<lambda>_. []) demo_dial demo_start) = Some Chat"
  by code_simp


end
