(* ===== verification/Chat_Client.thy ===== *)
theory Chat_Client
  imports Client_Session
begin

text \<open>
  \<open>client/src/ui/ChatClient.cpp\<close>, the client before there were rooms. It is still compiled, but \<open>main\<close> uses \<open>Lobby\<close>. It
  connects and registers with the same code, then chats; its destructor stops and joins the receiver.

  The state is that of \<open>Client_Session\<close>, and so is the receiving thread. \<open>Stop_Receiving\<close> is the end of \<open>InputLoop\<close>,
  \<open>Joining\<close> the \<open>join\<close> of the destructor.
\<close>

definition ChatClient_SetupConnection ::
  "(string \<Rightarrow> string \<Rightarrow> bool \<times> bool \<times> string) \<Rightarrow> lobby \<Rightarrow> bool outcome \<times> lobby" where
  "ChatClient_SetupConnection dial l =
     (case GetConnectionInfo (console l) of
        (host, port, s) \<Rightarrow>
          (let l1 = l\<lparr>console := s\<rparr>
           in (case port of
                 None \<Rightarrow> (Indeterminate, l1)
               | Some p \<Rightarrow>
                   (case ConnectToServer dial host p (services l1) of
                      (ok, st) \<Rightarrow> (Done ok, l1\<lparr>services := st\<rparr>)))))"

partial_function (option) ChatClient_RegisterUser ::
  "(u64 \<Rightarrow> string) \<Rightarrow> lobby \<Rightarrow> (bool outcome \<times> lobby) option" where
  "ChatClient_RegisterUser dt l =
     (if \<not> connected l then Some (Done False, l)
      else
        (case GetNickname (console l) of
           (nick, s) \<Rightarrow>
             (case call (RegisterNickname dt nick) (l\<lparr>console := s\<rparr>) of
                (None, l1) \<Rightarrow> Some (Send_Waiting, l1)
              | (Some (Inl e), l1) \<Rightarrow> Some (Uncaught e, l1)
              | (Some (Inr ok), l1) \<Rightarrow> if ok then Some (Done True, l1) else ChatClient_RegisterUser dt l1)))"

text \<open>\<open>ChatClient::Run\<close>, up to \<open>StartChatSession\<close>: \<open>Chat\<close> is its call.\<close>

definition ChatClient_Run ::
  "(u64 \<Rightarrow> string) \<Rightarrow> (string \<Rightarrow> string \<Rightarrow> bool \<times> bool \<times> string) \<Rightarrow> lobby \<Rightarrow> (unit outcome \<times> lobby) option" where
  "ChatClient_Run dt dial l =
     (case ChatClient_SetupConnection dial l of
        (Done ok, l1) \<Rightarrow>
          if \<not> ok then Some (Done (), l1)
          else
            (case ChatClient_RegisterUser dt l1 of
               None \<Rightarrow> None
             | Some (Done ok, l2) \<Rightarrow> Some (if ok then Chat else Done (), l2)
             | Some (Uncaught e, l2) \<Rightarrow> Some (Uncaught e, l2)
             | Some (Send_Waiting, l2) \<Rightarrow> Some (Send_Waiting, l2)
             | Some (Indeterminate, l2) \<Rightarrow> Some (Indeterminate, l2)
             | Some (Chat, l2) \<Rightarrow> Some (Chat, l2))
      | (Uncaught e, l1) \<Rightarrow> Some (Uncaught e, l1)
      | (Send_Waiting, l1) \<Rightarrow> Some (Send_Waiting, l1)
      | (Indeterminate, l1) \<Rightarrow> Some (Indeterminate, l1)
      | (Chat, l1) \<Rightarrow> Some (Chat, l1))"

section \<open>The chat\<close>

definition ChatClient_after_line :: "string \<Rightarrow> istream \<Rightarrow> client_state \<Rightarrow> main_pc" where
  "ChatClient_after_line line kb st =
     (if eofbit kb \<or> \<not> IsConnected st then Stop_Receiving
      else if line = ''/exit'' then Stop_Receiving
      else if line \<noteq> [] then Send_Line line else Loop_Test)"

text \<open>The end of \<open>~ChatClient\<close>, once the receiver has been joined.\<close>

definition ChatClient_destroyed :: "session \<Rightarrow> session" where
  "ChatClient_destroyed s = (if IsConnected (state s) then s\<lparr>state := Disconnect (state s)\<rparr> else s)"

inductive chat_client_step ::
  "(u64 \<Rightarrow> string) \<Rightarrow> (u64 \<Rightarrow> c_int) \<Rightarrow> bool \<Rightarrow> session \<Rightarrow> session \<Rightarrow> bool" for dt oo closes where
  cc_loop_test:
    "main_at s = Loop_Test \<Longrightarrow>
     chat_client_step dt oo closes s
       (s\<lparr>main_at := (if IsConnected (state s) then Read_Line else Stop_Receiving)\<rparr>)"
| cc_read_line:
    "main_at s = Read_Line \<Longrightarrow> GetMessageInput (keyboard s) = (line, kb) \<Longrightarrow>
     chat_client_step dt oo closes s
       (s\<lparr>keyboard := kb, main_at := ChatClient_after_line line kb (state s),
          screen := screen s @ (if ChatClient_after_line line kb (state s) = Loop_Test then ShowInputPrompt else [])\<rparr>)"
| cc_send_line:
    "main_at s = Send_Line line \<Longrightarrow> SendMessage dt line as (state s) = (Some (Inr ok), st) \<Longrightarrow>
     chat_client_step dt oo closes s
       (s\<lparr>state := st, main_at := Loop_Test, screen := screen s @ ShowInputPrompt\<rparr>)"
| cc_send_throws:
    "main_at s = Send_Line line \<Longrightarrow> SendMessage dt line as (state s) = (Some (Inl e), st) \<Longrightarrow>
     chat_client_step dt oo closes s (s\<lparr>state := st, main_at := Main_Thrown e\<rparr>)"
| cc_stop_receiving:
    "main_at s = Stop_Receiving \<Longrightarrow>
     chat_client_step dt oo closes s (s\<lparr>m_is_receiving := False, main_at := Joining\<rparr>)"
| cc_join:
    "main_at s = Joining \<Longrightarrow> recv_at s = Recv_Done \<Longrightarrow>
     chat_client_step dt oo closes s ((ChatClient_destroyed s)\<lparr>main_at := Chat_Over\<rparr>)"
| cc_unwind:
    "main_at s = Main_Thrown e \<Longrightarrow>
     chat_client_step dt oo closes s (s\<lparr>m_is_receiving := False, main_at := Unwinding e\<rparr>)"
| cc_unwound:
    "main_at s = Unwinding e \<Longrightarrow> recv_at s = Recv_Done \<Longrightarrow>
     chat_client_step dt oo closes s ((ChatClient_destroyed s)\<lparr>main_at := Chat_Thrown e\<rparr>)"
| cc_receiver:
    "receiver_step oo closes s s' \<Longrightarrow> chat_client_step dt oo closes s s'"

section \<open>Facts\<close>

text \<open>The two copies of the first screens agree.\<close>

lemma ChatClient_SetupConnection_eq: "ChatClient_SetupConnection = SetupConnection"
  by (intro ext) (simp add: ChatClient_SetupConnection_def SetupConnection_def)

lemma receiver_keeps_main: "receiver_step oo closes s s' \<Longrightarrow> main_at s' = main_at s"
  by (cases rule: receiver_step.cases)
    (auto simp: receiver_read_def receiver_shows_def split: prod.splits read_end.splits sum.splits)

text \<open>The end of the chat leaves nothing behind: the receiver has ended and the connection is closed.\<close>

definition ended_clean :: "session \<Rightarrow> bool" where
  "ended_clean s \<longleftrightarrow>
     (main_at s = Chat_Over \<or> (\<exists>e. main_at s = Chat_Thrown e) \<longrightarrow> recv_at s = Recv_Done \<and> \<not> m_connected (sock s))"

lemma Recv_Done_no_step: "recv_at s = Recv_Done \<Longrightarrow> \<not> receiver_step oo closes s s'"
  by (auto elim: receiver_step.cases)

interpretation cc: transition_invariant "chat_client_step dt oo closes" ended_clean for dt oo closes
proof
  fix s s'
  assume i: "ended_clean s" and "chat_client_step dt oo closes s s'"
  from this(2) show "ended_clean s'"
  proof (cases rule: chat_client_step.cases)
    case cc_receiver
    with i show ?thesis
      using receiver_keeps_main [OF cc_receiver] Recv_Done_no_step [of s oo closes s'] by (auto simp: ended_clean_def)
  qed (auto simp: ended_clean_def ChatClient_after_line_def ChatClient_destroyed_def Disconnect_def nc_Close_def)
qed

theorem chat_client_ends_clean:
  assumes "reachable (chat_client_step dt oo closes) (start_session kb st) s" and "main_at s = Chat_Over"
  shows "recv_at s = Recv_Done \<and> \<not> m_connected (sock s)"
  using cc.invariant_reachable [OF assms(1)] assms(2) by (simp add: ended_clean_def start_session_def)

text \<open>
  \<open>/exit\<close> does not end it while the room is quiet: the destructor joins a receiver that waits for a packet, and
  nothing closes the connection before.
\<close>

lemma starved_chat_client:
  assumes "receiver_starved s" and "main_at s = Joining" and "chat_client_step dt oo False s s'"
  shows "receiver_starved s' \<and> main_at s' = Joining"
  using assms(3)
proof (cases rule: chat_client_step.cases)
  case cc_receiver
  with assms starved_receiver [OF cc_receiver] receiver_keeps_main [OF cc_receiver] show ?thesis by simp
qed (use assms in \<open>simp_all add: receiver_starved_def\<close>)

interpretation cs: transition_invariant "chat_client_step dt oo False" "\<lambda>s. receiver_starved s \<and> main_at s = Joining"
  for dt oo
  by unfold_locales (blast dest: starved_chat_client)

theorem chat_client_exit_hangs:
  assumes "main_at s = Joining" and "recv_at s = Recv_Header" and "m_connected (sock s)" and "inbox (sock s) = []"
    and "reachable (chat_client_step dt oo False) s s'"
  shows "main_at s' = Joining"
  using cs.invariant_reachable [OF assms(5)] assms(1-4)
  by (simp add: receiver_starved_def in_chat_def HEADER_SIZE_def)

end
