(* ===== verification/Env_Config.thy ===== *)
theory Env_Config
  imports Std_Stream Protocol
begin

text \<open>
  \<open>server/src/config/Env.cpp\<close> and the constructor of \<open>Server\<close>: the \<open>.env\<close> file becomes a map of strings, and the
  port of the server is read from it.

  The file is a parameter: \<open>None\<close> when it cannot be opened, else its bytes. The log lines are not modelled. The
  port is an \<open>int\<close>; \<open>Listener\<close> hands it to \<open>htons\<close>, which takes its low 16 bits.
\<close>

section \<open>The environment file\<close>

record env =
  m_envMap :: "(string \<times> string) list"

definition not_delimiter :: "char \<Rightarrow> bool" where
  "not_delimiter c \<longleftrightarrow> c \<noteq> CHR ''=''"

text \<open>What a line adds to the map: nothing for an empty line, a comment, no \<open>=\<close> or an \<open>=\<close> at its start.\<close>

definition env_entry :: "string \<Rightarrow> (string \<times> string) option" where
  "env_entry line0 =
     (let line = (if line0 \<noteq> [] \<and> last line0 = carriage_return then butlast line0 else line0)
      in if line = [] \<or> hd line = CHR ''#'' then None
         else
           (let key = takeWhile not_delimiter line; rest = dropWhile not_delimiter line
            in if rest = [] \<or> key = [] then None else Some (key, tl rest)))"

definition put_entry :: "(string \<times> string) option \<Rightarrow> env \<Rightarrow> env" where
  "put_entry e m = (case e of None \<Rightarrow> m | Some (k, v) \<Rightarrow> m\<lparr>m_envMap := AList.update k v (m_envMap m)\<rparr>)"

text \<open>The loop ends when \<open>std::getline\<close> fails; it does not before the whole file is read.\<close>

function load_loop :: "istream \<Rightarrow> env \<Rightarrow> env" where
  "load_loop s m =
     (case std_getline s of
        (x, s1) \<Rightarrow>
          if failbit s1 then m
          else load_loop s1 (put_entry (case x of None \<Rightarrow> None | Some line \<Rightarrow> env_entry line) m))"
  by pat_completeness auto
termination
  by (relation "measure (\<lambda>(s, m). length (left_input s))") (auto dest: sym [THEN getline_shorter])

declare load_loop.simps [simp del]

definition load :: "string option \<Rightarrow> env" where
  "load file =
     (case file of
        None \<Rightarrow> \<lparr>m_envMap = []\<rparr>
      | Some bytes \<Rightarrow> load_loop (open_stream bytes) \<lparr>m_envMap = []\<rparr>)"

definition env_get :: "string \<Rightarrow> env \<Rightarrow> string" where
  "env_get key m = (case map_of (m_envMap m) key of None \<Rightarrow> [] | Some v \<Rightarrow> v)"

section \<open>The port\<close>

datatype stoi_error = Invalid_Argument | Out_Of_Range_Int

text \<open>\<open>std::stoi\<close>: leading space is skipped, what follows the digits is ignored.\<close>

definition stoi :: "string \<Rightarrow> stoi_error + c_int" where
  "stoi s =
     (case split_sign (dropWhile is_space s) of
        (neg, r) \<Rightarrow>
          (let ds = takeWhile is_digit r; v = signed_value neg ds
           in if ds = [] then Inl Invalid_Argument
              else if v < INT_MIN \<or> v > INT_MAX then Inl Out_Of_Range_Int
              else Inr (of_int v)))"

text \<open>The port the constructor of \<open>Server\<close> stores, or the exception that leaves it.\<close>

definition server_port :: "env \<Rightarrow> stoi_error + c_int" where
  "server_port m =
     (let envServerPort = env_get ''SERVER_PORT'' m
      in if envServerPort \<noteq> [] then stoi envServerPort else Inr 8877)"

text \<open>The port field of the address the listener binds, in the bytes of the network.\<close>

definition sin_port :: "c_int \<Rightarrow> string" where
  "sin_port m_port = store16 (htons (ucast m_port))"

section \<open>Loading what was written\<close>

text \<open>An entry a line can carry, and a file of such entries with either line end.\<close>

definition plain_entry :: "string \<times> string \<Rightarrow> bool" where
  "plain_entry e \<longleftrightarrow>
     fst e \<noteq> [] \<and> hd (fst e) \<noteq> CHR ''#'' \<and> CHR ''='' \<notin> set (fst e) \<and> newline \<notin> set (fst e)
     \<and> newline \<notin> set (snd e) \<and> (snd e \<noteq> [] \<longrightarrow> last (snd e) \<noteq> carriage_return)"

definition entry_line :: "bool \<Rightarrow> string \<times> string \<Rightarrow> string" where
  "entry_line crlf e = fst e @ CHR ''='' # snd e @ (if crlf then [carriage_return] else [])"

definition env_file :: "(bool \<times> string \<times> string) list \<Rightarrow> string" where
  "env_file es = concat (map (\<lambda>(crlf, e). entry_line crlf e @ [newline]) es)"

lemma char_facts: "carriage_return \<noteq> newline" "CHR ''='' \<noteq> newline" "CHR ''='' \<noteq> carriage_return"
  by (simp_all add: carriage_return_def newline_def)

lemma env_entry_plain: "plain_entry e \<Longrightarrow> env_entry (entry_line crlf e) = Some e"
proof -
  assume "plain_entry e"
  obtain k v where e: "e = (k, v)" by force
  with \<open>plain_entry e\<close> have ok: "k \<noteq> []" "hd k \<noteq> CHR ''#''" "CHR ''='' \<notin> set k" "v \<noteq> [] \<longrightarrow> last v \<noteq> carriage_return"
    by (simp_all add: plain_entry_def)
  have "takeWhile not_delimiter (k @ CHR ''='' # v) = k" "dropWhile not_delimiter (k @ CHR ''='' # v) = CHR ''='' # v"
    using ok(3) by (auto simp: takeWhile_append dropWhile_append not_delimiter_def)
  then show ?thesis
    using ok char_facts(3) by (auto simp: e env_entry_def entry_line_def Let_def butlast_append simp del: dropWhile_eq_Nil_conv)
qed

lemma newline_entry_line: "plain_entry e \<Longrightarrow> newline \<notin> set (entry_line crlf e)"
  using char_facts by (auto simp: plain_entry_def entry_line_def)

lemma load_loop_file:
  assumes "\<forall>e \<in> set es. plain_entry (snd e)" and "good s" and "left_input s = env_file es"
  shows "load_loop s m = fold (\<lambda>(crlf, e). put_entry (Some e)) es m"
  using assms
proof (induction es arbitrary: s m)
  case Nil
  then show ?case by (subst load_loop.simps) (simp add: env_file_def getline_end)
next
  case (Cons x es)
  obtain crlf e where x: "x = (crlf, e)" by (rule prod.exhaust)
  with Cons.prems have e: "plain_entry e" by simp
  have box: "left_input s = entry_line crlf e @ newline # env_file es"
    using Cons.prems(3) by (simp add: env_file_def x)
  let ?s = "s\<lparr>left_input := env_file es\<rparr>"
  have "load_loop ?s m' = fold (\<lambda>(crlf, e). put_entry (Some e)) es m'" for m'
    using Cons.prems by (intro Cons.IH) (simp_all add: good_def)
  moreover have "\<not> failbit s" using Cons.prems(2) by (simp add: good_def)
  ultimately show ?case
    using getline_line [OF Cons.prems(2) box newline_entry_line [OF e]] env_entry_plain [OF e]
    by (subst load_loop.simps) (simp add: x)
qed

lemma map_of_puts:
  "map_of (m_envMap (fold (\<lambda>(crlf, e). put_entry (Some e)) es m)) =
     map_of (m_envMap m) ++ map_of (rev (map snd es))"
  by (induction es arbitrary: m) (auto simp: put_entry_def update_conv' map_add_def fun_eq_iff split: option.splits)

text \<open>
  C40. Reading a \<open>.env\<close> file gives what was written to it. For a file of lines \<open>key=value\<close>, each ended by a line
  feed or by carriage return and line feed, a lookup returns the value of the last line with that key, without the
  line end, and the empty string for a key that is in no line; every value may contain further \<open>=\<close> signs.
\<close>

theorem env_roundtrip:
  assumes "\<forall>e \<in> set es. plain_entry (snd e)"
  shows "env_get key (load (Some (env_file es))) =
    (case map_of (rev (map snd es)) key of None \<Rightarrow> [] | Some v \<Rightarrow> v)"
  using load_loop_file [OF assms, of "open_stream (env_file es)" "\<lparr>m_envMap = []\<rparr>"]
  by (simp add: load_def env_get_def map_of_puts open_stream_def good_def)

theorem env_roundtrip_witness:
  "env_get ''B'' (load (Some (''A=1'' @ [carriage_return, newline] @ ''B=x=y'' @ [newline] @ ''A=2'' @ [newline]))) = ''x=y''"
proof -
  let ?es = "[(True, ''A'', ''1''), (False, ''B'', ''x=y''), (False, ''A'', ''2'')]"
  have "\<forall>e \<in> set ?es. plain_entry (snd e)"
    by (simp add: plain_entry_def newline_def carriage_return_def)
  from env_roundtrip [OF this, of "''B''"] show ?thesis by (simp add: env_file_def entry_line_def)
qed

section \<open>The listening port\<close>

lemma store16_htons: "store16 (htons w) = [char_of (unat w div 256), char_of (unat w)]"
proof -
  have less: "unat w div 256 < 256" using unat_u16_less [of w] by (simp add: div_less_iff_less_mult)
  have h: "unat (htons w) = 256 * (unat w mod 256) + unat w div 256"
    using unat_ntohs [of w] by (simp add: ntohs_eq_htons)
  have hi: "unat (htons w) mod 256 = unat w div 256" and lo: "unat (htons w) div 256 = unat w mod 256"
    unfolding h using less by simp_all
  have "char_of (unat (htons w)) = char_of (unat w div 256)" by (metis char_of_mod_256 hi)
  moreover have "char_of (unat (htons w) div 256) = char_of (unat w)" by (simp add: lo)
  ultimately show ?thesis by (simp add: store16_def)
qed

lemma dec_digits_taken:
  assumes "rest = [] \<or> \<not> is_digit (hd rest)"
  shows "takeWhile is_digit (dec_digits n @ rest) = dec_digits n"
  using dec_digits_props [of n] assms by (cases rest) (auto simp: takeWhile_append)

lemma dec_digits_start:
  "dropWhile is_space (dec_digits n @ rest) = dec_digits n @ rest"
  "split_sign (dec_digits n @ rest) = (False, dec_digits n @ rest)"
proof -
  obtain c cs where d: "dec_digits n = c # cs" by (cases "dec_digits n") auto
  with dec_digits_props [of n] have "is_digit c" by simp
  then have "\<not> is_space c" "c \<noteq> CHR ''-''" "c \<noteq> CHR ''+''"
    by (auto simp: is_digit_def is_space_def byte_of_def)
  then show "dropWhile is_space (dec_digits n @ rest) = dec_digits n @ rest"
    "split_sign (dec_digits n @ rest) = (False, dec_digits n @ rest)" by (simp_all add: d)
qed

lemma stoi_digits:
  assumes "rest = [] \<or> \<not> is_digit (hd rest)"
  shows "stoi (dec_digits n @ rest) = (if int n > INT_MAX then Inl Out_Of_Range_Int else Inr (of_nat n))"
  using dec_digits_props [of n]
  by (simp add: stoi_def dec_digits_start dec_digits_taken [OF assms] signed_value_def INT_MIN_def)

text \<open>
  The port of the environment file is not checked. A value that starts with a number the type \<open>int\<close> holds is
  accepted, whatever follows the digits, and stored and logged as it is; the socket is bound to its low 16 bits,
  so that 73413 means port 7877. Only a number above the range of \<open>int\<close> is refused, with an exception.
\<close>

theorem port_is_truncated:
  assumes "env_get ''SERVER_PORT'' m = dec_digits n @ rest" and "rest = [] \<or> \<not> is_digit (hd rest)"
  shows "server_port m = (if int n > INT_MAX then Inl Out_Of_Range_Int else Inr (of_nat n))
    \<and> sin_port (of_nat n) = [char_of (n mod 65536 div 256), char_of (n mod 256)]"
proof
  show "server_port m = (if int n > INT_MAX then Inl Out_Of_Range_Int else Inr (of_nat n))"
    using stoi_digits [OF assms(2)] by (simp add: server_port_def assms(1))
  have "unat (ucast (of_nat n :: c_int) :: u16) = n mod 65536"
    by (simp add: unsigned_ucast_eq unsigned_of_nat take_bit_eq_mod mod_mod_cancel)
  moreover have "char_of (n mod 65536) = (char_of (n mod 256) :: char)"
    using char_of_mod_256 [of "n mod 65536"] mod_mod_cancel [of 256 65536 n] by simp
  ultimately show "sin_port (of_nat n) = [char_of (n mod 65536 div 256), char_of (n mod 256)]"
    by (simp add: sin_port_def store16_htons)
qed

theorem port_is_truncated_witness:
  "server_port (load (Some (''SERVER_PORT=73413 # dev'' @ [newline]))) = Inr 73413
   \<and> sin_port 73413 = store16 (htons 7877)"
proof -
  let ?m = "load (Some (''SERVER_PORT=73413 # dev'' @ [newline]))"
  have get: "env_get ''SERVER_PORT'' ?m = dec_digits 73413 @ '' # dev''" by code_simp
  have rest: "'' # dev'' = [] \<or> \<not> is_digit (hd '' # dev'')" by (simp add: is_digit_def byte_of_def)
  show ?thesis
    using port_is_truncated [OF get rest] by (simp add: INT_MAX_def store16_htons)
qed

end
