(* ===== verification/Server_Start.thy ===== *)
theory Server_Start
  imports Server Env_Config
begin

text \<open>
  From \<open>main\<close> to the event loop: the constructor and \<open>run\<close> of \<open>server/src/application/Server.cpp\<close>, with the listening
  socket (\<open>server/src/network/Listener.cpp\<close>) and the epoll instance (\<open>server/src/io/EpollManager.cpp\<close>), and what the
  destructor of the server does when \<open>run\<close> has given up.

  The kernel's answers to the calls of the start are a parameter. \<open>closed\<close> lists the calls of \<open>close\<close> on the
  listening socket. The state after a successful start is the initial world of \<open>Server\<close>.
\<close>

section \<open>The listening socket\<close>

record kernel_start =
  hardware_concurrency :: nat
  socket_answer :: fd
  bind_answer :: "string \<Rightarrow> bool"
  listen_answer :: bool
  fcntl_answer :: bool
  epoll_create_answer :: bool
  epoll_add_answer :: bool

record listener =
  m_port :: c_int
  m_socket_fd :: fd
  closed :: "fd list"

definition new_listener :: "c_int \<Rightarrow> listener" where
  "new_listener port = \<lparr>m_port = port, m_socket_fd = -1, closed = []\<rparr>"

definition listener_close :: "listener \<Rightarrow> listener" where
  "listener_close l = (if m_socket_fd l \<noteq> -1 then l\<lparr>closed := closed l @ [m_socket_fd l]\<rparr> else l)"

definition listener_initialize :: "kernel_start \<Rightarrow> listener \<Rightarrow> bool \<times> listener" where
  "listener_initialize k l =
     (let l1 = l\<lparr>m_socket_fd := socket_answer k\<rparr>
      in if m_socket_fd l1 < 0 then (False, l1)
         else if \<not> bind_answer k (sin_port (m_port l1)) then (False, listener_close l1)
         else if \<not> listen_answer k then (False, listener_close l1)
         else if \<not> fcntl_answer k then (False, l1)
         else (True, l1))"

section \<open>The epoll instance\<close>

record epoll_manager =
  created :: bool
  m_is_running :: bool
  registered :: "fd set"

definition new_epoll_manager :: epoll_manager where
  "new_epoll_manager = \<lparr>created = False, m_is_running = False, registered = {}\<rparr>"

definition epoll_initialize :: "kernel_start \<Rightarrow> epoll_manager \<Rightarrow> bool \<times> epoll_manager" where
  "epoll_initialize k e =
     (if \<not> epoll_create_answer k then (False, e) else (True, e\<lparr>created := True, m_is_running := True\<rparr>))"

definition epoll_addFd :: "bool \<Rightarrow> fd \<Rightarrow> epoll_manager \<Rightarrow> bool \<times> epoll_manager" where
  "epoll_addFd ctl_ok f e = (if ctl_ok then (True, e\<lparr>registered := insert f (registered e)\<rparr>) else (False, e))"

definition epoll_stop :: "epoll_manager \<Rightarrow> epoll_manager" where
  "epoll_stop e = e\<lparr>m_is_running := False\<rparr>"

section \<open>Constructor, run, destructor\<close>

record server_parts =
  parts_port :: c_int
  parts_listener :: listener
  parts_epoll :: epoll_manager
  parts_pool :: "task pool option"
  io_thread :: bool

definition new_Server :: "env \<Rightarrow> stoi_error + server_parts" where
  "new_Server e =
     (case server_port e of
        Inl x \<Rightarrow> Inl x
      | Inr port \<Rightarrow>
          Inr \<lparr>parts_port = port, parts_listener = new_listener port, parts_epoll = new_epoll_manager,
               parts_pool = None, io_thread = False\<rparr>)"

definition Server_run :: "kernel_start \<Rightarrow> server_parts \<Rightarrow> server_parts" where
  "Server_run k s =
     (let s1 = s\<lparr>parts_pool := Some (thread_pool (hardware_concurrency k))\<rparr>
      in (case listener_initialize k (parts_listener s1) of
            (False, l) \<Rightarrow> s1\<lparr>parts_listener := l\<rparr>
          | (True, l) \<Rightarrow>
              (let s2 = s1\<lparr>parts_listener := l\<rparr>
               in (case epoll_initialize k (parts_epoll s2) of
                     (False, e) \<Rightarrow> s2\<lparr>parts_epoll := e\<rparr>
                   | (True, e) \<Rightarrow>
                       (case epoll_addFd (epoll_add_answer k) (m_socket_fd l) e of
                          (False, e1) \<Rightarrow> s2\<lparr>parts_epoll := e1\<rparr>
                        | (True, e1) \<Rightarrow> s2\<lparr>parts_epoll := e1, io_thread := True\<rparr>)))))"

text \<open>What the event loop starts with.\<close>

definition started_world :: "server_parts \<Rightarrow> world" where
  "started_world s =
     \<lparr>srv = \<lparr>client_mgr = empty_client_manager, room_mgr = empty_room_manager, sends = []\<rparr>,
      pool = (case parts_pool s of None \<Rightarrow> thread_pool 0 | Some p \<Rightarrow> p),
      epoll_fds = registered (parts_epoll s)\<rparr>"

text \<open>
  The destructor up to the workers: the body of \<open>~Server\<close> closes the listener, then the members go in reverse
  order, the pool first. Only when every worker has been joined is the listener destroyed, which closes again.
\<close>

definition destroy_Server :: "server_parts \<Rightarrow> server_parts" where
  "destroy_Server s =
     s\<lparr>parts_epoll := epoll_stop (parts_epoll s), parts_listener := listener_close (parts_listener s),
       parts_pool := map_option stop_pool (parts_pool s)\<rparr>"

definition destroy_members :: "server_parts \<Rightarrow> server_parts option" where
  "destroy_members s =
     (if (case parts_pool s of None \<Rightarrow> True | Some p \<Rightarrow> all_joined p)
      then Some (s\<lparr>parts_pool := None, parts_listener := listener_close (parts_listener s)\<rparr>)
      else None)"

text \<open>The workers move while the main thread is elsewhere.\<close>

inductive workers_move :: "server_parts \<Rightarrow> server_parts \<Rightarrow> bool" where
  worker: "parts_pool s = Some p \<Longrightarrow> worker_step p l p' \<Longrightarrow> workers_move s (s\<lparr>parts_pool := Some p'\<rparr>)"

section \<open>The start succeeds\<close>

definition start_answers_ok :: "c_int \<Rightarrow> kernel_start \<Rightarrow> bool" where
  "start_answers_ok port k \<longleftrightarrow>
     0 \<le> socket_answer k \<and> bind_answer k (sin_port port) \<and> listen_answer k \<and> fcntl_answer k
     \<and> epoll_create_answer k \<and> epoll_add_answer k"

lemma Server_run_started:
  "new_Server e = Inr s \<Longrightarrow> io_thread (Server_run k s) \<longleftrightarrow> start_answers_ok (parts_port s) k"
  by (auto simp: new_Server_def Server_run_def listener_initialize_def new_listener_def epoll_initialize_def
      epoll_addFd_def start_answers_ok_def Let_def not_less split: sum.splits)

lemma started_initial:
  assumes "new_Server e = Inr s" and "io_thread (Server_run k s)"
  shows "started_world (Server_run k s) = initial_world (hardware_concurrency k) (socket_answer k)
    \<and> m_socket_fd (parts_listener (Server_run k s)) = socket_answer k"
proof -
  have "start_answers_ok (parts_port s) k" using Server_run_started [OF assms(1)] assms(2) by simp
  with assms(1) show ?thesis
    by (auto simp: new_Server_def Server_run_def listener_initialize_def new_listener_def epoll_initialize_def
        epoll_addFd_def start_answers_ok_def started_world_def initial_world_def new_epoll_manager_def Let_def
        split: sum.splits)
qed

text \<open>
  A start either ends in the event loop or leaves nothing running but the workers. The event loop is entered
  exactly if the kernel granted the socket, the binding to the port of the environment, the listening, the
  non-blocking mode and the epoll instance with the listener in it; it then starts from the initial world, with
  the configured number of idle workers, no clients, no rooms, and only the listener registered.
\<close>

theorem server_starts:
  assumes "new_Server e = Inr s"
  shows "(io_thread (Server_run k s) \<longleftrightarrow> start_answers_ok (parts_port s) k)
    \<and> (io_thread (Server_run k s) \<longrightarrow>
         started_world (Server_run k s) = initial_world (hardware_concurrency k) (socket_answer k)
         \<and> m_socket_fd (parts_listener (Server_run k s)) = socket_answer k)"
  using Server_run_started [OF assms] started_initial [OF assms] by blast

definition demo_kernel :: "(string \<Rightarrow> bool) \<Rightarrow> kernel_start" where
  "demo_kernel bind =
     \<lparr>hardware_concurrency = 4, socket_answer = 3, bind_answer = bind, listen_answer = True, fcntl_answer = True,
      epoll_create_answer = True, epoll_add_answer = True\<rparr>"

lemma new_Server_default:
  "new_Server (load None) =
     Inr \<lparr>parts_port = 8877, parts_listener = new_listener 8877, parts_epoll = new_epoll_manager,
          parts_pool = None, io_thread = False\<rparr>"
  by (simp add: new_Server_def server_port_def env_get_def load_def)

theorem server_starts_witness:
  "\<exists>s. new_Server (load None) = Inr s
     \<and> started_world (Server_run (demo_kernel (\<lambda>a. True)) s) = initial_world 4 3"
  using server_starts [OF new_Server_default, of "demo_kernel (\<lambda>a. True)"]
  by (simp add: new_Server_default start_answers_ok_def demo_kernel_def)

section \<open>The start fails\<close>

lemma moves_stuck:
  assumes "reachable workers_move s s'" and "parts_pool s = Some p" and "stuck_in_wait p"
  shows "\<exists>p'. parts_pool s' = Some p' \<and> stuck_in_wait p'"
  using assms
proof (induction rule: reachable.induct)
  case start
  then show ?case by simp
next
  case (next_state s s')
  then show ?case by (auto elim!: workers_move.cases dest: stuck_step)
qed

lemma moves_idle:
  assumes "reachable workers_move s s'" and "parts_pool s = Some p" and "m_task_queue p = []"
  shows "\<exists>p'. parts_pool s' = Some p' \<and> m_task_queue p' = []"
  using assms
proof (induction rule: reachable.induct)
  case start
  then show ?case by simp
next
  case (next_state s s')
  then show ?case by (auto elim!: workers_move.cases worker_step.cases simp: wait_and_pop_def)
qed

text \<open>
  A failed start does not end the program. If the socket cannot be set up or watched, \<open>run\<close> logs the error and
  returns, and the destructor of the server stops the pool it made first; but a worker that has begun to wait for
  work is never woken for good: as long as one had got there, the destructor's \<open>join\<close> never returns, whatever
  the workers do, and the process neither serves nor exits.
\<close>

theorem failed_start_hangs:
  assumes "new_Server e = Inr s" and "\<not> start_answers_ok (parts_port s) k"
    and "reachable workers_move (Server_run k s) s1"
    and "parts_pool s1 = Some p" and "In_Wait \<in> set (m_workers p)"
    and "reachable workers_move (destroy_Server s1) s2"
  shows "\<not> io_thread (Server_run k s) \<and> destroy_members s2 = None"
proof
  show "\<not> io_thread (Server_run k s)" using Server_run_started [OF assms(1)] assms(2) by simp
  have "parts_pool (Server_run k s) = Some (thread_pool (hardware_concurrency k))"
    by (simp add: Server_run_def Let_def split: prod.splits bool.splits)
  from moves_idle [OF assms(3) this] assms(4) have "m_task_queue p = []"
    by (simp add: thread_pool_def)
  then have "stuck_in_wait (stop_pool p)" using assms(5) by (simp add: stuck_in_wait_def stop_pool_def)
  moreover have "parts_pool (destroy_Server s1) = Some (stop_pool p)"
    using assms(4) by (simp add: destroy_Server_def)
  ultimately obtain p' where "parts_pool s2 = Some p'" "stuck_in_wait p'"
    using moves_stuck [OF assms(6)] by blast
  then show "destroy_members s2 = None"
    by (auto simp: destroy_members_def stuck_in_wait_def all_joined_def)
qed

theorem failed_start_hangs_witness:
  "\<exists>s s1. new_Server (load None) = Inr s
     \<and> reachable workers_move (Server_run (demo_kernel (\<lambda>a. False)) s) s1 \<and> destroy_members (destroy_Server s1) = None"
proof -
  let ?s = "\<lparr>parts_port = 8877, parts_listener = new_listener 8877, parts_epoll = new_epoll_manager,
      parts_pool = None, io_thread = False\<rparr>"
  let ?k = "demo_kernel (\<lambda>a. False)"
  let ?p = "(thread_pool 4 :: task pool)\<lparr>m_workers := (replicate 4 Testing_Stop)[0 := In_Wait]\<rparr>"
  have no: "\<not> start_answers_ok (parts_port ?s) ?k" by (simp add: start_answers_ok_def demo_kernel_def)
  have pool: "parts_pool (Server_run ?k ?s) = Some (thread_pool 4)"
    by (simp add: Server_run_def demo_kernel_def Let_def split: prod.splits bool.splits)
  have "worker_step (thread_pool 4 :: task pool) None ?p"
    using goes_on [of 0 "thread_pool 4 :: task pool"] by (simp add: thread_pool_def)
  with pool have m: "reachable workers_move (Server_run ?k ?s) ((Server_run ?k ?s)\<lparr>parts_pool := Some ?p\<rparr>)"
    by (blast intro: reachable.next_state [OF reachable.start] workers_move.worker)
  have "In_Wait \<in> set (m_workers ?p)" by (simp add: numeral_eq_Suc)
  with failed_start_hangs [OF new_Server_default no m _ _ reachable.start, of ?p] m show ?thesis
    by (intro exI conjI) (rule new_Server_default, assumption, simp)
qed

section \<open>The event loop\<close>

text \<open>\<open>Listener::acceptConnection\<close>: the descriptor and the address text of the peer, or -1; the port is only logged.\<close>

definition acceptConnection :: "(fd \<times> string) option \<Rightarrow> connection_info" where
  "acceptConnection answer =
     (case answer of
        None \<Rightarrow> \<lparr>conn_fd = -1, conn_ip = []\<rparr>
      | Some (client_fd, client_ip) \<Rightarrow> \<lparr>conn_fd = client_fd, conn_ip = client_ip\<rparr>)"

text \<open>
  \<open>EpollManager::wait\<close> over the answers of \<open>epoll_wait\<close>: \<open>None\<close> for an error, otherwise the events, each with the
  answers of the calls its handling makes (\<open>accept\<close>, \<open>epoll_ctl\<close>, \<open>recv\<close>).
\<close>

record io_event =
  event_fd :: fd
  accept_answer :: "(fd \<times> string) option"
  ctl_answer :: bool
  recv_answer :: recv_result

fun handle_events :: "fd \<Rightarrow> io_event list \<Rightarrow> world \<Rightarrow> memory_error + world" where
  "handle_events l [] w = Inr w"
| "handle_events l (e # es) w =
     (case handleEvent l (event_fd e) (acceptConnection (accept_answer e)) (ctl_answer e) (recv_answer e) w of
        Inl err \<Rightarrow> Inl err
      | Inr w1 \<Rightarrow> handle_events l es w1)"

fun epoll_wait_loop :: "fd \<Rightarrow> io_event list option list \<Rightarrow> world \<Rightarrow> memory_error + world" where
  "epoll_wait_loop l [] w = Inr w"
| "epoll_wait_loop l (None # bs) w = epoll_wait_loop l bs w"
| "epoll_wait_loop l (Some es # bs) w =
     (case handle_events l es w of Inl err \<Rightarrow> Inl err | Inr w1 \<Rightarrow> epoll_wait_loop l bs w1)"

text \<open>
  What the kernel guarantees: one \<open>epoll_wait\<close> reports a descriptor at most once and only registered ones, and
  \<open>accept\<close> returns a descriptor that is not open.
\<close>

definition accept_fresh :: "io_event \<Rightarrow> world \<Rightarrow> bool" where
  "accept_fresh e w \<longleftrightarrow>
     (\<forall>f a. accept_answer e = Some (f, a) \<longrightarrow> f \<le> 0 \<or> fresh_fd f w)"

fun accepts_fresh :: "fd \<Rightarrow> io_event list \<Rightarrow> world \<Rightarrow> bool" where
  "accepts_fresh l [] w \<longleftrightarrow> True"
| "accepts_fresh l (e # es) w \<longleftrightarrow>
     accept_fresh e w \<and>
     (case handleEvent l (event_fd e) (acceptConnection (accept_answer e)) (ctl_answer e) (recv_answer e) w of
        Inl err \<Rightarrow> True
      | Inr w1 \<Rightarrow> accepts_fresh l es w1)"

definition batch_ok :: "fd \<Rightarrow> io_event list \<Rightarrow> world \<Rightarrow> bool" where
  "batch_ok l es w \<longleftrightarrow>
     distinct (map event_fd es) \<and> set (map event_fd es) \<subseteq> epoll_fds w \<and> accepts_fresh l es w"

fun batches_ok :: "fd \<Rightarrow> io_event list option list \<Rightarrow> world \<Rightarrow> bool" where
  "batches_ok l [] w \<longleftrightarrow> True"
| "batches_ok l (None # bs) w \<longleftrightarrow> batches_ok l bs w"
| "batches_ok l (Some es # bs) w \<longleftrightarrow>
     batch_ok l es w \<and> (case handle_events l es w of Inl err \<Rightarrow> True | Inr w1 \<Rightarrow> batches_ok l bs w1)"

lemma handleEvent_keeps_fds:
  assumes "handleEvent l f c ok r w = Inr w'"
  shows "epoll_fds w - {f} \<subseteq> epoll_fds w'"
  using assms
  by (auto simp: handleEvent_def acceptNewConnection_def closeConnection_def on_clients_def Let_def
      split: if_splits sum.splits)

lemma handle_events_steps:
  assumes "handle_events l es w = Inr w'" and "distinct (map event_fd es)"
    and "set (map event_fd es) \<subseteq> epoll_fds w" and "accepts_fresh l es w" and "reachable (server_step pf l) w0 w"
  shows "reachable (server_step pf l) w0 w'"
  using assms
proof (induction es arbitrary: w)
  case Nil
  then show ?case by simp
next
  case (Cons e es)
  let ?h = "handleEvent l (event_fd e) (acceptConnection (accept_answer e)) (ctl_answer e) (recv_answer e) w"
  from Cons.prems(1) obtain w1 where w1: "?h = Inr w1" "handle_events l es w1 = Inr w'"
    by (auto split: sum.splits)
  have "conn_fd (acceptConnection (accept_answer e)) \<le> 0 \<or> fresh_fd (conn_fd (acceptConnection (accept_answer e))) w"
    using Cons.prems(4) by (auto simp: acceptConnection_def accept_fresh_def split: option.splits)
  with Cons.prems(3) w1(1) have "server_step pf l w w1" by (intro server_step.event) auto
  with Cons.prems(5) have r: "reachable (server_step pf l) w0 w1" by (rule reachable.next_state)
  have "set (map event_fd es) \<subseteq> epoll_fds w - {event_fd e}"
    using Cons.prems(2,3) by (simp add: subset_Diff_insert)
  with handleEvent_keeps_fds [OF w1(1)] have "set (map event_fd es) \<subseteq> epoll_fds w1" by (rule subset_trans [rotated])
  with Cons.IH [OF w1(2)] r Cons.prems(2,4) w1(1) show ?case by simp
qed

lemma event_loop_steps:
  assumes "epoll_wait_loop l bs w = Inr w'" and "batches_ok l bs w" and "reachable (server_step pf l) w0 w"
  shows "reachable (server_step pf l) w0 w'"
  using assms
proof (induction l bs w rule: epoll_wait_loop.induct)
  case (3 l es bs w)
  from "3.prems"(1) obtain w1 where w1: "handle_events l es w = Inr w1" "epoll_wait_loop l bs w1 = Inr w'"
    by (auto split: sum.splits)
  from "3.prems"(2) have "batch_ok l es w" by simp
  with handle_events_steps [OF w1(1)] "3.prems"(3) have "reachable (server_step pf l) w0 w1"
    by (simp add: batch_ok_def)
  with "3.IH" [OF w1] "3.prems"(2) w1(1) show ?case by simp
qed simp_all


definition demo_event :: io_event where
  "demo_event = \<lparr>event_fd = 3, accept_answer = Some (7, ''10.0.0.1''), ctl_answer = True, recv_answer = Recv_Error\<rparr>"


end
