(* ===== verification/Server_Main.thy ===== *)
theory Server_Main
  imports Server_Start Logger
begin

text \<open>
  \<open>server/src/main.cpp\<close>: the server is constructed, run and destroyed; an exception is logged as a warning. The value \<open>main\<close>
  returns is 0 in every case.

  A server that has started never returns from \<open>run\<close>: it joins the thread of the event loop, and the loop ends only
  when \<open>stop\<close> is called, which only the destructor does. So there is no rule for a server that has started.
\<close>

text \<open>\<open>what()\<close> of the two exceptions of \<open>std::stoi\<close>.\<close>

definition stoi_what :: "stoi_error \<Rightarrow> string" where
  "stoi_what e = ''stoi''"

text \<open>The exit status, and the line of an exception.\<close>

inductive server_main ::
  "kernel_start \<Rightarrow> env \<Rightarrow> local_time \<Rightarrow> nat \<Rightarrow> nat \<Rightarrow> string option \<Rightarrow> bool" for k e t ms where
  port_throws:
    "new_Server e = Inl x \<Longrightarrow> server_main k e t ms 0 (Some (log_line t ms WARN (stoi_what x)))"
| start_failed:
    "new_Server e = Inr s \<Longrightarrow> \<not> io_thread (Server_run k s) \<Longrightarrow> reachable workers_move (Server_run k s) s1 \<Longrightarrow>
     reachable workers_move (destroy_Server s1) s2 \<Longrightarrow> destroy_members s2 = Some s3 \<Longrightarrow>
     server_main k e t ms 0 None"

text \<open>
  The program returns only when it could not start, and its exit status does not say so: a port that is no number
  and a socket that cannot be bound both end in status 0.
\<close>

theorem server_main_returns:
  assumes "server_main k e t ms code warned"
  shows "code = 0 \<and>
    ((\<exists>x. server_port e = Inl x) \<and> warned = Some (log_line t ms WARN ''stoi'')
     \<or> (\<exists>port. server_port e = Inr port \<and> \<not> start_answers_ok port k) \<and> warned = None)"
  using assms
proof (cases rule: server_main.cases)
  case (port_throws x)
  then show ?thesis by (auto simp: new_Server_def stoi_what_def split: sum.splits)
next
  case (start_failed s s1 s2 s3)
  then obtain port where "server_port e = Inr port" "parts_port s = port"
    by (auto simp: new_Server_def split: sum.splits)
  with start_failed Server_run_started [OF start_failed(3), of k] show ?thesis by auto
qed

end
