(* ===== verification/Utils.thy ===== *)
theory Utils
  imports Room_Manager
begin

text \<open>
  \<open>server/src/common/Utils.cpp\<close>: a second generator of random codes, which nothing calls and the build leaves out. The
  random engine is the same parameter as in \<open>Room_Manager\<close>. A negative length becomes a huge \<open>size_t\<close> in the call of
  \<open>reserve\<close>, which throws \<open>std::length_error\<close>.
\<close>

definition utils_chars :: string where
  "utils_chars = ''ABCDEFGHIJKLMNOPQRSTUVWXYZabcdefghijklmnopqrstuvwxyz0123456789''"

datatype utils_error = Length_Error

definition generateRandomCode :: "(nat \<Rightarrow> nat) \<Rightarrow> c_int \<Rightarrow> nat \<Rightarrow> utils_error + string \<times> nat" where
  "generateRandomCode draw n pos =
     (if sint n < 0 then Inl Length_Error
      else Inr (map (\<lambda>i. utils_chars ! (draw (pos + i))) [0 ..< unat n], pos + unat n))"

text \<open>Same alphabet as the codes of the rooms, in another order.\<close>

lemma utils_chars_same: "set utils_chars = set room_chars \<and> length utils_chars = length room_chars"
  by (auto simp: utils_chars_def room_chars_def)

lemma generateRandomCode_code:
  assumes "\<And>i. draw i < 62" and "0 \<le> sint n"
  shows "\<exists>code. generateRandomCode draw n pos = Inr (code, pos + unat n) \<and> length code = unat n
           \<and> set code \<subseteq> set room_chars"
proof -
  have "utils_chars ! (draw i) \<in> set utils_chars" for i
    using assms(1) utils_chars_same by (intro nth_mem) (simp add: length_room_chars)
  with assms(2) utils_chars_same show ?thesis by (auto simp: generateRandomCode_def)
qed

end
