(* ===== verification/Client_Copies.thy ===== *)
theory Client_Copies
  imports Protocol Logger
begin

text \<open>
  \<open>client/include/network/Protocol.h\<close> and \<open>client/src/common/logger.cpp\<close> with \<open>logger.h\<close>, the client's copies of files of the
  server. The two sides are built apart and agree on the wire only as long as their copies do, so the client's are
  translated on their own here and shown to be what \<open>Protocol\<close> and \<open>Logger\<close> define; the rest of the library
  uses those for both sides.
\<close>

section \<open>The client's Protocol.h\<close>

definition client_RECV_BUFFER_SIZE :: nat where "client_RECV_BUFFER_SIZE = 4096"
definition client_MAX_NICKNAME_LEN :: nat where "client_MAX_NICKNAME_LEN = 32"
definition client_IP_ADDRESS_LEN :: nat where "client_IP_ADDRESS_LEN = 16"
definition client_MAX_PAYLOAD_SIZE :: nat where "client_MAX_PAYLOAD_SIZE = 1024"

fun client_type_code :: "packet_type \<Rightarrow> u16" where
  "client_type_code NICKNAME_REQUEST = 101"
| "client_type_code MESSAGE_SEND = 201"
| "client_type_code CREATE_ROOM = 301"
| "client_type_code EXIT_ROOM = 302"
| "client_type_code JOIN_ROOM = 303"
| "client_type_code NICKNAME_RESPONSE_OK = 1001"
| "client_type_code NICKNAME_RESPONSE_FAIL = 1002"
| "client_type_code ROOM_CREATE_OK = 3011"
| "client_type_code ROOM_CREATE_FAIL = 3012"
| "client_type_code ROOM_EXIT_OK = 3021"
| "client_type_code ROOM_EXIT_FAIL = 3022"
| "client_type_code ROOM_JOIN_OK = 3031"
| "client_type_code ROOM_JOIN_FAIL = 3032"
| "client_type_code ROOM_USER_JOIN = 3041"
| "client_type_code ROOM_USER_EXIT = 3042"
| "client_type_code MESSAGE_CHAT = 1101"
| "client_type_code MESSAGE_SYSTEM = 1102"
| "client_type_code (Other_Type w) = w"

text \<open>
  \<open>struct PacketHeader\<close> and \<open>struct Packet\<close> under \<open>#pragma pack(1)\<close>: the size of each field in bytes, which without padding is
  where the next one begins.
\<close>

definition client_header_layout :: "nat list" where "client_header_layout = [2, 2]"

definition client_packet_layout :: "nat list" where
  "client_packet_layout = client_header_layout @ [client_MAX_PAYLOAD_SIZE]"

lemma protocols_agree:
  "client_type_code t = type_code t"
  "client_RECV_BUFFER_SIZE = RECV_BUFFER_SIZE" "client_MAX_NICKNAME_LEN = MAX_NICKNAME_LEN"
  "client_MAX_PAYLOAD_SIZE = MAX_PAYLOAD_SIZE" "sum_list client_header_layout = HEADER_SIZE"
  "sum_list client_packet_layout = HEADER_SIZE + MAX_PAYLOAD_SIZE"
  by (cases t) (simp_all add: client_RECV_BUFFER_SIZE_def RECV_BUFFER_SIZE_def client_MAX_NICKNAME_LEN_def
      MAX_NICKNAME_LEN_def client_MAX_PAYLOAD_SIZE_def MAX_PAYLOAD_SIZE_def client_header_layout_def
      client_packet_layout_def HEADER_SIZE_def)

text \<open>So the client reads a type the server has written as the enumerator that was meant.\<close>

lemma types_understood:
  assumes "t \<in> set enumerators" and "u \<in> set enumerators" and "client_type_code u = type_code t"
  shows "u = t"
proof -
  from assms(3) have "type_code u = type_code t" by (simp add: protocols_agree)
  with assms(1,2) canonical_enumerator show ?thesis unfolding canonical_type_def by metis
qed

section \<open>The client's logger\<close>

record client_log_state =
  c_out :: string
  c_err :: string
  c_logfile :: "string option"
  c_useFile :: bool

definition client_log :: "local_time \<Rightarrow> nat \<Rightarrow> log_level \<Rightarrow> string \<Rightarrow> client_log_state \<Rightarrow> client_log_state" where
  "client_log t ms level msg s =
     (let timestamp = format_time t @ ''.'' @ padded 3 ms;
          level_str = (case level of INFO \<Rightarrow> ''INFO '' | WARN \<Rightarrow> ''WARN '' | ERROR \<Rightarrow> ''ERROR'');
          line = ''['' @ timestamp @ ''] ['' @ level_str @ ''] '' @ msg;
          s1 = (case level of ERROR \<Rightarrow> s\<lparr>c_err := c_err s @ line @ log_newline\<rparr>
                | _ \<Rightarrow> s\<lparr>c_out := c_out s @ line @ log_newline\<rparr>)
      in if c_useFile s1 \<and> c_logfile s1 \<noteq> None
         then s1\<lparr>c_logfile := map_option (\<lambda>content. content @ line @ log_newline) (c_logfile s1)\<rparr> else s1)"

definition client_log_info :: "local_time \<Rightarrow> nat \<Rightarrow> string \<Rightarrow> client_log_state \<Rightarrow> client_log_state" where
  "client_log_info t ms msg = client_log t ms INFO msg"

definition client_log_warn :: "local_time \<Rightarrow> nat \<Rightarrow> string \<Rightarrow> client_log_state \<Rightarrow> client_log_state" where
  "client_log_warn t ms msg = client_log t ms WARN msg"

definition client_log_error :: "local_time \<Rightarrow> nat \<Rightarrow> string \<Rightarrow> client_log_state \<Rightarrow> client_log_state" where
  "client_log_error t ms msg = client_log t ms ERROR msg"

text \<open>One more function than the server's; a build with \<open>NDEBUG\<close> empties it.\<close>

definition client_log_debug :: "bool \<Rightarrow> local_time \<Rightarrow> nat \<Rightarrow> string \<Rightarrow> client_log_state \<Rightarrow> client_log_state" where
  "client_log_debug ndebug t ms msg s = (if ndebug then s else client_log t ms INFO (''[DEBUG] '' @ msg) s)"

definition as_log_state :: "client_log_state \<Rightarrow> log_state" where
  "as_log_state s = \<lparr>std_out = c_out s, std_err = c_err s, s_logfile = c_logfile s, s_useFile = c_useFile s\<rparr>"

lemma loggers_agree: "as_log_state (client_log t ms level msg s) = Logger_log t ms level msg (as_log_state s)"
  by (cases level; cases "c_logfile s")
    (simp_all add: client_log_def Logger_log_def as_log_state_def log_line_def log_timestamp_def Let_def)

end
